(* ===== verification/Prelude.thy ===== *)
theory Prelude
  imports Main "HOL-Library.Word" "HOL-Library.Multiset" "HOL-Library.AList"
    "HOL-Library.List_Lexorder" "HOL-Library.Char_ord" "HOL-Library.State_Monad"
begin

text \<open>
  Shared material of the development: the Go values the components use (64-bit integers, times
  and durations, maps as association lists, the parts of \<open>slices\<close> and \<open>strings\<close>
  that the code calls) and the generic lemmas on lists and multisets that the component
  proofs share.
\<close>

section \<open>Integers, times and durations\<close>

type_synonym u64 = "64 word"
type_synonym i64 = int
type_synonym time = int
type_synonym duration = int
type_synonym bytes = string

named_theorems go_simps \<open>rewriting rules for the Go library functions of the model\<close>
named_theorems map_simps \<open>lookup and domain rules for the association-list maps\<close>

text \<open>\<open>int64\<close> arithmetic is done on \<open>int\<close> and brought back into range by
  \<open>wrap64\<close>, which is the two's complement wrap-around of Go.\<close>

definition wrap64 :: "int \<Rightarrow> i64" where
  "wrap64 x = (x + 2 ^ 63) mod 2 ^ 64 - 2 ^ 63"

definition in_i64 :: "int \<Rightarrow> bool" where
  "in_i64 x \<longleftrightarrow> - (2 ^ 63) \<le> x \<and> x < 2 ^ 63"

lemma wrap64_id [simp]: "in_i64 x \<Longrightarrow> wrap64 x = x"
  by (simp add: wrap64_def in_i64_def)

lemma in_i64_wrap64 [simp]: "in_i64 (wrap64 x)"
proof -
  have "0 \<le> (x + 2 ^ 63) mod 2 ^ 64" and "(x + 2 ^ 63) mod 2 ^ 64 < 2 ^ 64"
    by simp_all
  then show ?thesis
    by (simp add: wrap64_def in_i64_def)
qed

text \<open>Go's integer division truncates towards zero.\<close>

definition go_div :: "int \<Rightarrow> int \<Rightarrow> int" where
  "go_div a b = sgn a * sgn b * (\<bar>a\<bar> div \<bar>b\<bar>)"

text \<open>\<open>time.Time\<close> values are nanoseconds since a fixed origin; \<open>Time.Sub\<close> saturates at
  the bounds of \<open>time.Duration\<close>.\<close>

definition time_sub :: "time \<Rightarrow> time \<Rightarrow> duration" where
  "time_sub a b = max (- (2 ^ 63)) (min (2 ^ 63 - 1) (a - b))"

lemma time_sub_mono: "a \<le> a' \<Longrightarrow> time_sub a b \<le> time_sub a' b"
  by (auto simp: time_sub_def max_def min_def)

section \<open>Maps as association lists\<close>

text \<open>A Go map that the code iterates is an association list with distinct keys; the order
  of the list is the order of one iteration.\<close>

type_synonym ('k, 'v) gomap = "('k \<times> 'v) list"

definition gomap_wf :: "('k, 'v) gomap \<Rightarrow> bool" where
  "gomap_wf m \<longleftrightarrow> distinct (map fst m)"

text \<open>\<open>m[k] = append(m[k], xs...)\<close>\<close>

fun map_append :: "'k \<Rightarrow> 'v list \<Rightarrow> ('k, 'v list) gomap \<Rightarrow> ('k, 'v list) gomap" where
  "map_append k xs [] = [(k, xs)]"
| "map_append k xs ((k', v) # m) =
     (if k = k' then (k', v @ xs) # m else (k', v) # map_append k xs m)"

text \<open>\<open>m[k]\<close> with the zero value for an absent key.\<close>

definition map_get :: "'v \<Rightarrow> ('k, 'v) gomap \<Rightarrow> 'k \<Rightarrow> 'v" where
  "map_get z m k = (case map_of m k of None \<Rightarrow> z | Some v \<Rightarrow> v)"

definition has_key :: "('k, 'v) gomap \<Rightarrow> 'k \<Rightarrow> bool" where
  "has_key m k \<longleftrightarrow> k \<in> fst ` set m"

abbreviation all_vals :: "('k, 'v list) gomap \<Rightarrow> 'v list" where
  "all_vals m \<equiv> concat (map snd m)"

lemma map_append_keys [map_simps]: "fst ` set (map_append k xs m) = insert k (fst ` set m)"
  by (induction k xs m rule: map_append.induct) auto

lemma map_append_wf [map_simps]: "gomap_wf (map_append k xs m) \<longleftrightarrow> gomap_wf m"
  by (induction k xs m rule: map_append.induct) (auto simp: gomap_wf_def map_append_keys)

lemma map_append_mset: "mset (all_vals (map_append k xs m)) = mset (all_vals m) + mset xs"
  by (induction m) auto

lemma map_append_lookup [map_simps]:
  "map_of (map_append k xs m) k' =
     (if k' = k then Some (map_get [] m k @ xs) else map_of m k')"
  by (induction m) (auto simp: map_get_def)

lemma map_get_append [map_simps]:
  "map_get [] (map_append k xs m) k' = (if k' = k then map_get [] m k @ xs else map_get [] m k')"
  by (simp add: map_get_def map_append_lookup)

lemma update_all_vals_mset:
  "\<not> has_key m k \<Longrightarrow> mset (all_vals (AList.update k xs m)) = mset (all_vals m) + mset xs"
  by (induction m) (auto simp: has_key_def)

lemma update_keys [map_simps]: "fst ` set (AList.update k v m) = insert k (fst ` set m)"
  by (induction m) auto

lemma update_wf [map_simps]: "gomap_wf m \<Longrightarrow> gomap_wf (AList.update k v m)"
  by (simp add: gomap_wf_def distinct_update)

lemma update_lookup [map_simps]:
  "map_of (AList.update k v m) k' = (if k' = k then Some v else map_of m k')"
  by (simp add: update_conv')

lemma delete_lookup [map_simps]:
  "map_of (AList.delete k m) k' = (if k' = k then None else map_of m k')"
  by (simp add: delete_conv')

lemma delete_all_lookup [map_simps]:
  "map_of (foldl (\<lambda>m w. AList.delete w m) m ws) k = (if k \<in> set ws then None else map_of m k)"
  by (induction ws arbitrary: m) (auto simp: delete_lookup)

lemma delete_wf [map_simps]: "gomap_wf m \<Longrightarrow> gomap_wf (AList.delete k m)"
  by (simp add: gomap_wf_def distinct_delete)

lemma delete_all_wf: "gomap_wf m \<Longrightarrow> gomap_wf (foldl (\<lambda>m w. AList.delete w m) m ws)"
  by (induction ws arbitrary: m) (auto simp: delete_wf)

lemma filter_wf: "gomap_wf m \<Longrightarrow> gomap_wf (filter P m)"
  by (induction m) (auto simp: gomap_wf_def)

lemma wf_mem_lookup: "gomap_wf m \<Longrightarrow> (k, v) \<in> set m \<longleftrightarrow> map_of m k = Some v"
  by (simp add: gomap_wf_def)

lemma has_key_lookup: "has_key m k \<longleftrightarrow> map_of m k \<noteq> None"
  by (auto simp: has_key_def map_of_eq_None_iff)

text \<open>A map to \<open>bool\<close> used as a set, with the value true for every key.\<close>

definition setlike :: "('k, bool) gomap \<Rightarrow> bool" where
  "setlike m \<longleftrightarrow> (\<forall>(k, b) \<in> set m. b)"

lemma setlike_get: "setlike m \<Longrightarrow> map_get False m k \<longleftrightarrow> has_key m k"
  by (induction m) (auto simp: setlike_def map_get_def has_key_def)

lemma map_get_vals_subset:
  "x \<in> set (map_get [] m k) \<Longrightarrow> x \<in> set (all_vals m)"
proof (cases "map_of m k")
  case (Some v)
  assume "x \<in> set (map_get [] m k)"
  with Some have "x \<in> set v" and "(k, v) \<in> set m"
    by (auto simp: map_get_def dest: map_of_SomeD)
  then show ?thesis by force
qed (simp add: map_get_def)

section \<open>Slices and strings\<close>

text \<open>The loop of \<open>slices.BinarySearchFunc\<close>: \<open>below x\<close> says that \<open>x\<close> compares
  below the target.\<close>

function bsearch_loop :: "('a \<Rightarrow> bool) \<Rightarrow> 'a list \<Rightarrow> nat \<Rightarrow> nat \<Rightarrow> nat" where
  "bsearch_loop below xs i j =
     (if i < j
      then let h = (i + j) div 2 in
           if below (xs ! h) then bsearch_loop below xs (h + 1) j else bsearch_loop below xs i h
      else i)"
  by pat_completeness auto
termination
  by (relation "measure (\<lambda>(below, xs, i, j). j - i)") auto

declare bsearch_loop.simps [simp del]

definition BinarySearchFunc :: "'a list \<Rightarrow> ('a \<Rightarrow> int) \<Rightarrow> nat \<times> bool" where
  "BinarySearchFunc xs cmp =
     (let i = bsearch_loop (\<lambda>x. cmp x < 0) xs 0 (length xs)
      in (i, i < length xs \<and> cmp (xs ! i) = 0))"

text \<open>On a list whose first \<open>n\<close> elements are those below the target, the search
  returns \<open>n\<close>.\<close>

lemma bsearch_loop_eq:
  assumes "\<And>k. k < length xs \<Longrightarrow> below (xs ! k) \<longleftrightarrow> k < n"
  shows "i \<le> n \<Longrightarrow> n \<le> j \<Longrightarrow> j \<le> length xs \<Longrightarrow> bsearch_loop below xs i j = n"
proof (induction "j - i" arbitrary: i j rule: less_induct)
  case less
  let ?h = "(i + j) div 2"
  show ?case
  proof (cases "i < j")
    case False
    then show ?thesis using less.prems by (subst bsearch_loop.simps) simp
  next
    case True
    then have h: "i \<le> ?h" "?h < j" by auto
    then have below: "below (xs ! ?h) \<longleftrightarrow> ?h < n" using assms less.prems by simp
    show ?thesis
    proof (cases "?h < n")
      case True
      then have "bsearch_loop below xs (?h + 1) j = n"
        using less.prems h by (intro less.hyps) auto
      with True below \<open>i < j\<close> show ?thesis by (subst bsearch_loop.simps) (simp add: Let_def)
    next
      case False
      then have "bsearch_loop below xs i ?h = n"
        using less.prems h by (intro less.hyps) auto
      with False below \<open>i < j\<close> show ?thesis by (subst bsearch_loop.simps) (simp add: Let_def)
    qed
  qed
qed

lemma nth_takeWhile_iff:
  assumes "sorted_wrt (\<lambda>a b. P b \<longrightarrow> P a) xs" "k < length xs"
  shows "P (xs ! k) \<longleftrightarrow> k < length (takeWhile P xs)"
proof
  assume "k < length (takeWhile P xs)"
  then show "P (xs ! k)"
    by (metis nth_mem set_takeWhileD takeWhile_nth)
next
  assume P: "P (xs ! k)"
  show "k < length (takeWhile P xs)"
  proof (rule ccontr)
    let ?n = "length (takeWhile P xs)"
    assume "\<not> k < ?n"
    then have n: "?n \<le> k" "?n < length xs" using assms(2) by auto
    then have "\<not> P (xs ! ?n)" by (simp add: nth_length_takeWhile)
    moreover have "?n \<noteq> k \<Longrightarrow> P (xs ! ?n)"
      using n P assms by (metis le_neq_implies_less sorted_wrt_iff_nth_less)
    ultimately show False using P by metis
  qed
qed

lemma BinarySearchFunc_fst:
  assumes "sorted_wrt (\<lambda>a b. cmp b < 0 \<longrightarrow> cmp a < 0) xs"
  shows "fst (BinarySearchFunc xs cmp) = length (takeWhile (\<lambda>x. cmp x < 0) xs)"
proof -
  have "bsearch_loop (\<lambda>x. cmp x < 0) xs 0 (length xs) = length (takeWhile (\<lambda>x. cmp x < 0) xs)"
    by (rule bsearch_loop_eq) (auto simp: nth_takeWhile_iff [OF assms] length_takeWhile_le)
  then show ?thesis by (simp add: BinarySearchFunc_def Let_def)
qed

text \<open>\<open>slices.Compact\<close> keeps the first of every run of equal elements.\<close>

fun slices_Compact :: "'a list \<Rightarrow> 'a list" where
  "slices_Compact [] = []"
| "slices_Compact [x] = [x]"
| "slices_Compact (x # y # xs) =
     (if x = y then slices_Compact (y # xs) else x # slices_Compact (y # xs))"

lemma set_slices_Compact [simp]: "set (slices_Compact xs) = set xs"
  by (induction xs rule: slices_Compact.induct) auto

lemma hd_slices_Compact [simp]: "xs \<noteq> [] \<Longrightarrow> hd (slices_Compact xs) = hd xs"
  by (induction xs rule: slices_Compact.induct) auto

lemma sorted_slices_Compact: "sorted xs \<Longrightarrow> sorted (slices_Compact xs)"
  by (induction xs rule: slices_Compact.induct) auto

lemma distinct_slices_Compact: "sorted xs \<Longrightarrow> distinct (slices_Compact xs)"
  by (induction xs rule: slices_Compact.induct) auto

text \<open>Sorting and compacting gives the strictly increasing list of the elements.\<close>

lemma Compact_sort: "slices_Compact (sort xs) = sorted_list_of_set (set xs)"
  by (rule sorted_distinct_set_unique)
    (auto intro: sorted_slices_Compact distinct_slices_Compact)

text \<open>\<open>slices.SortFunc\<close> promises a permutation that is sorted by the comparison; elements
  that compare equal may come in any order, so a sorting routine is any function with this
  contract.\<close>

definition sort_contract :: "('a \<Rightarrow> 'a \<Rightarrow> int) \<Rightarrow> ('a list \<Rightarrow> 'a list) \<Rightarrow> bool" where
  "sort_contract cmp srt \<longleftrightarrow>
     (\<forall>xs. mset (srt xs) = mset xs \<and> sorted_wrt (\<lambda>a b. cmp a b \<le> 0) (srt xs))"

fun insert_by :: "('a \<Rightarrow> 'a \<Rightarrow> int) \<Rightarrow> 'a \<Rightarrow> 'a list \<Rightarrow> 'a list" where
  "insert_by cmp x [] = [x]"
| "insert_by cmp x (y # ys) = (if cmp x y \<le> 0 then x # y # ys else y # insert_by cmp x ys)"

definition sort_by :: "('a \<Rightarrow> 'a \<Rightarrow> int) \<Rightarrow> 'a list \<Rightarrow> 'a list" where
  "sort_by cmp xs = foldr (insert_by cmp) xs []"

definition cmp_total :: "('a \<Rightarrow> 'a \<Rightarrow> int) \<Rightarrow> bool" where
  "cmp_total cmp \<longleftrightarrow> (\<forall>a b. cmp a b \<le> 0 \<or> cmp b a \<le> 0) \<and>
     (\<forall>a b c. cmp a b \<le> 0 \<longrightarrow> cmp b c \<le> 0 \<longrightarrow> cmp a c \<le> 0)"

lemma mset_insert_by [simp]: "mset (insert_by cmp x xs) = {#x#} + mset xs"
  by (induction xs) auto

lemma set_insert_by [simp]: "set (insert_by cmp x xs) = insert x (set xs)"
  by (induction xs) auto

lemma sorted_insert_by:
  assumes "cmp_total cmp"
  shows "sorted_wrt (\<lambda>a b. cmp a b \<le> 0) xs \<Longrightarrow> sorted_wrt (\<lambda>a b. cmp a b \<le> 0) (insert_by cmp x xs)"
  using assms by (induction xs) (auto simp: cmp_total_def)

text \<open>Insertion sort satisfies the contract for every total preorder.\<close>

lemma sort_by_contract: "cmp_total cmp \<Longrightarrow> sort_contract cmp (sort_by cmp)"
proof -
  assume c: "cmp_total cmp"
  have "mset (foldr (insert_by cmp) xs []) = mset xs" for xs
    by (induction xs) auto
  moreover have "sorted_wrt (\<lambda>a b. cmp a b \<le> 0) (foldr (insert_by cmp) xs [])" for xs
    by (induction xs) (auto intro: sorted_insert_by [OF c])
  ultimately show ?thesis
    by (simp add: sort_contract_def sort_by_def)
qed

lemma sort_eq_Nil [simp]: "sort xs = [] \<longleftrightarrow> xs = []"
  by (metis length_0_conv length_sort)

lemma sort_contract_mset: "sort_contract cmp srt \<Longrightarrow> mset (srt xs) = mset xs"
  by (simp add: sort_contract_def)

lemma sort_contract_set: "sort_contract cmp srt \<Longrightarrow> set (srt xs) = set xs"
  by (metis sort_contract_mset set_mset_mset)

lemma sort_contract_length: "sort_contract cmp srt \<Longrightarrow> length (srt xs) = length xs"
  by (metis sort_contract_mset size_mset)

lemma sort_contract_sorted:
  "sort_contract cmp srt \<Longrightarrow> sorted_wrt (\<lambda>a b. cmp a b \<le> 0) (srt xs)"
  by (simp add: sort_contract_def)

text \<open>\<open>fmt\<close>'s \<open>%d\<close>.\<close>

definition digit_char :: "nat \<Rightarrow> char" where
  "digit_char d = char_of (48 + d)"

fun show_nat :: "nat \<Rightarrow> string" where
  "show_nat n = (if n < 10 then [digit_char n] else show_nat (n div 10) @ [digit_char (n mod 10)])"

declare show_nat.simps [simp del]

definition show_int :: "int \<Rightarrow> string" where
  "show_int i = (if i < 0 then ''-'' @ show_nat (nat (- i)) else show_nat (nat i))"

definition digit_val :: "char \<Rightarrow> nat" where
  "digit_val c = of_char c - 48"

definition read_nat :: "string \<Rightarrow> nat" where
  "read_nat s = foldl (\<lambda>a c. 10 * a + digit_val c) 0 s"

lemma digit_val_char [simp]: "d < 10 \<Longrightarrow> digit_val (digit_char d) = d"
  by (simp add: digit_val_def digit_char_def)

lemma read_show_nat [simp]: "read_nat (show_nat n) = n"
proof (induction n rule: show_nat.induct)
  case (1 n)
  show ?case
  proof (cases "n < 10")
    case True
    then show ?thesis by (simp add: show_nat.simps [of n] read_nat_def)
  next
    case False
    with "1.IH" have "read_nat (show_nat (n div 10)) = n div 10" by simp
    with False show ?thesis
      by (simp add: show_nat.simps [of n] read_nat_def)
  qed
qed

lemma show_nat_inj [simp]: "show_nat m = show_nat n \<longleftrightarrow> m = n"
  by (metis read_show_nat)

lemma digit_char_eq_iff: "d < 10 \<Longrightarrow> digit_char d = c \<longleftrightarrow> of_char c = 48 + d"
  by (auto simp: digit_char_def char_of_eq_iff take_bit_eq_mod)

lemma show_nat_digits: "c \<in> set (show_nat n) \<Longrightarrow> \<exists>d < 10. c = digit_char d"
proof (induction n rule: show_nat.induct)
  case (1 n)
  show ?case
  proof (cases "n < 10")
    case True
    with 1 show ?thesis by (auto simp: show_nat.simps [of n])
  next
    case False
    with "1.prems" have "c \<in> set (show_nat (n div 10)) \<or> c = digit_char (n mod 10)"
      by (auto simp: show_nat.simps [of n])
    moreover have "n mod 10 < 10" by simp
    ultimately show ?thesis using "1.IH" False by blast
  qed
qed

lemma show_nat_no_colon: "CHR '':'' \<notin> set (show_nat n)"
proof
  assume "CHR '':'' \<in> set (show_nat n)"
  then obtain d where d: "d < 10" "CHR '':'' = digit_char d"
    using show_nat_digits by blast
  then have "of_char (CHR '':'') = 48 + d"
    using digit_char_eq_iff by metis
  then have "58 = 48 + d"
    by simp
  with d(1) show False by simp
qed

text \<open>\<open>strings.Join\<close>\<close>

fun strings_Join :: "string list \<Rightarrow> string \<Rightarrow> string" where
  "strings_Join [] sep = []"
| "strings_Join [x] sep = x"
| "strings_Join (x # y # xs) sep = x @ sep @ strings_Join (y # xs) sep"

definition has_prefix :: "string \<Rightarrow> string \<Rightarrow> bool" where
  "has_prefix s p \<longleftrightarrow> take (length p) s = p"

lemma has_prefix_append [simp]: "has_prefix (p @ s) p"
  by (simp add: has_prefix_def)

text \<open>Splitting at the first separator is unique.\<close>

lemma append_sep_eq:
  assumes "c \<notin> set xs" "c \<notin> set ys"
  shows "xs @ c # zs = ys @ c # ws \<longleftrightarrow> xs = ys \<and> zs = ws"
  using assms
proof (induction xs arbitrary: ys)
  case Nil
  then show ?case by (cases ys) auto
next
  case (Cons x xs)
  then show ?case by (cases ys) auto
qed

end
