(* ===== verification/Partition_Types.thy ===== *)
theory Partition_Types
  imports Prelude
begin

text \<open>
  The data of \<^verbatim>\<open>types/\<close>: partitions with their identities, hashes, order and
  validation (\<^verbatim>\<open>partition.go\<close>), the label merge (\<^verbatim>\<open>labels.go\<close>), the
  assignment, payload, commit and commit-log records (\<^verbatim>\<open>assignment_commit.go\<close>) and
  the worker and calculator states. The hash library \<^verbatim>\<open>xxh3\<close> is a parameter.
\<close>

section \<open>Data\<close>

record partition =
  Keys :: "string list"
  Weight :: i64
  Label :: string

record xxh3 =
  HashString :: "string \<Rightarrow> u64"
  HashStringSeed :: "string \<Rightarrow> u64 \<Rightarrow> u64"
  HashSeed :: "bytes \<Rightarrow> u64 \<Rightarrow> u64"
  HasherSum64 :: "string list \<Rightarrow> u64" \<comment> \<open>\<open>Sum64\<close> after the listed \<open>WriteString\<close> calls\<close>

record assignment =
  as_Version :: i64
  as_Lifecycle :: string
  as_Partitions :: "partition list"
  as_LeaderRevision :: nat
  as_SourceRevision :: nat
  as_SourceRevisionKnown :: bool
  as_TotalWorkers :: nat
  as_WorkerLabels :: "string list"
  as_WorkerLabelsKnown :: bool

record assignment_payload =
  pl_SchemaVersion :: nat
  pl_Partitions :: "partition list"
  pl_WorkerLabels :: "string list"
  pl_WorkerLabelsKnown :: bool

record assignment_payload_ref =
  ref_Key :: string
  ref_PayloadHash :: string
  ref_SetDigest :: u64
  ref_Revision :: nat

record assignment_commit =
  cm_Version :: i64
  cm_LeaderRevision :: nat
  cm_SourceRevision :: nat
  cm_SourceRevisionKnown :: bool
  cm_PublishedAt :: time
  cm_Workers :: "string list"
  cm_Payloads :: "(string, assignment_payload_ref) gomap"
  cm_BatchDigest :: u64
  cm_ParkedCount :: nat
  cm_ParkedDigest :: u64
  cm_PrevCommitRev :: nat
  cm_Lifecycle :: string

record assignment_commit_log =
  cl_Version :: i64
  cl_LeaderRevision :: nat
  cl_PublishedAt :: time
  cl_PayloadKeys :: "string list"

definition AssignmentSchemaVersion :: nat where
  "AssignmentSchemaVersion = 1"

datatype calc_state = CalcStateIdle | CalcStateScaling | CalcStateRebalancing | CalcStateEmergency

section \<open>Validation\<close>

datatype partition_error =
    NoKeys
  | EmptyKey
  | KeyDot nat string
  | KeySpace nat string
  | LabelTooLong string
  | LabelDot string
  | LabelSpace string
  | InvalidAt nat partition_error
  | DuplicateAt nat string

definition has_space :: "string \<Rightarrow> bool" where
  "has_space s \<longleftrightarrow> list_ex (\<lambda>c. c \<in> {CHR '' '', CHR 0x09, CHR 0x0A, CHR 0x0D}) s"

definition has_dot :: "string \<Rightarrow> bool" where
  "has_dot s \<longleftrightarrow> CHR ''.'' \<in> set s"

definition ValidateLabel :: "string \<Rightarrow> partition_error option" where
  "ValidateLabel s =
     (if length s > 64 then Some (LabelTooLong s)
      else if has_dot s then Some (LabelDot s)
      else if has_space s then Some (LabelSpace s)
      else None)"

fun validate_keys :: "nat \<Rightarrow> string list \<Rightarrow> partition_error option" where
  "validate_keys i [] = None"
| "validate_keys i (key # ks) =
     (if key = [] then Some EmptyKey
      else if has_dot key then Some (KeyDot i key)
      else if has_space key then Some (KeySpace i key)
      else validate_keys (Suc i) ks)"

definition Validate :: "partition \<Rightarrow> partition_error option" where
  "Validate p =
     (if Keys p = [] then Some NoKeys
      else case validate_keys 0 (Keys p) of
        Some e \<Rightarrow> Some e
      | None \<Rightarrow> ValidateLabel (Label p))"

section \<open>Identities\<close>

definition SubjectKey :: "partition \<Rightarrow> string" where
  "SubjectKey p = (if Keys p = [] then [] else strings_Join (Keys p) ''.'')"

definition ID :: "partition \<Rightarrow> string" where
  "ID p = (if Keys p = [] then [] else strings_Join (Keys p) ''-'')"

definition canonical_key :: "string \<Rightarrow> string" where
  "canonical_key k = show_nat (length k) @ '':'' @ k"

fun canonical_keys :: "nat \<Rightarrow> string list \<Rightarrow> string" where
  "canonical_keys i [] = []"
| "canonical_keys i (k # ks) = (if i > 0 then ''/'' else []) @ canonical_key k @ canonical_keys (Suc i) ks"

definition CanonicalID :: "partition \<Rightarrow> string" where
  "CanonicalID p = (if Keys p = [] then [] else canonical_keys 0 (Keys p))"

definition HashID :: "xxh3 \<Rightarrow> partition \<Rightarrow> u64" where
  "HashID X p =
     (case Keys p of
        [] \<Rightarrow> 0
      | k # ks \<Rightarrow> foldl (\<lambda>h k. HashStringSeed X k h) (HashString X k) ks)"

definition HashIDSeed :: "xxh3 \<Rightarrow> partition \<Rightarrow> u64 \<Rightarrow> u64" where
  "HashIDSeed X p seed =
     (case Keys p of
        [] \<Rightarrow> 0
      | k # ks \<Rightarrow> foldl (\<lambda>h k. HashStringSeed X k h)
          (if seed \<noteq> 0 then HashStringSeed X k seed else HashString X k) ks)"

fun compare_keys :: "string list \<Rightarrow> string list \<Rightarrow> int" where
  "compare_keys (x # xs) (y # ys) =
     (if x = y then compare_keys xs ys else if x < y then -1 else 1)"
| "compare_keys xs ys =
     (if length xs = length ys then 0 else if length xs < length ys then -1 else 1)"

definition Compare :: "partition \<Rightarrow> partition \<Rightarrow> int" where
  "Compare p q = compare_keys (Keys p) (Keys q)"

fun validate_partitions :: "nat \<Rightarrow> string list \<Rightarrow> partition list \<Rightarrow> partition_error option" where
  "validate_partitions i seen [] = None"
| "validate_partitions i seen (p # ps) =
     (case Validate p of
        Some e \<Rightarrow> Some (InvalidAt i e)
      | None \<Rightarrow>
          let cid = CanonicalID p in
          if cid \<in> set seen then Some (DuplicateAt i cid)
          else validate_partitions (Suc i) (cid # seen) ps)"

definition ValidatePartitions :: "partition list \<Rightarrow> partition_error option" where
  "ValidatePartitions ps = validate_partitions 0 [] ps"

text \<open>The digest hashes the sorted, compacted identifiers with a newline between them.\<close>

fun digest_writes :: "nat \<Rightarrow> string list \<Rightarrow> string list" where
  "digest_writes i [] = []"
| "digest_writes i (s # ss) = (if i > 0 then [[CHR 0x0A]] else []) @ [s] @ digest_writes (Suc i) ss"

definition PartitionSetDigest :: "xxh3 \<Rightarrow> partition list \<Rightarrow> u64" where
  "PartitionSetDigest X parts =
     (if parts = [] then 0
      else let ids = map CanonicalID parts; ids = slices_Compact (sort ids)
           in HasherSum64 X (digest_writes 0 ids))"

section \<open>Label merge\<close>

datatype merge_error = AmbiguousID string nat

definition label_index :: "partition list \<Rightarrow> (string, nat list) gomap" where
  "label_index current = foldl (\<lambda>idx i. map_append (ID (current ! i)) [i] idx) [] [0..<length current]"

fun merge_classify ::
  "(string, nat list) gomap \<Rightarrow> (string, string option) gomap \<Rightarrow> string list \<Rightarrow> merge_error + string list" where
  "merge_classify idx [] unmatched = Inr unmatched"
| "merge_classify idx ((i, v) # intents) unmatched =
     (let n = length (map_get [] idx i) in
      if n = 0 then merge_classify idx intents (unmatched @ [i])
      else if n > 1 then Inl (AmbiguousID i n)
      else merge_classify idx intents unmatched)"

definition label_of_intent :: "string option \<Rightarrow> string" where
  "label_of_intent v = (case v of None \<Rightarrow> [] | Some s \<Rightarrow> s)"

definition merge_apply ::
  "(string, nat list) gomap \<Rightarrow> string \<times> string option \<Rightarrow> partition list \<Rightarrow> partition list" where
  "merge_apply idx iv result =
     (let is = map_get [] idx (fst iv) in
      if length is \<noteq> 1 then result
      else result[hd is := (result ! hd is)\<lparr>Label := label_of_intent (snd iv)\<rparr>])"

definition MergeLabels ::
  "partition list \<Rightarrow> (string, string option) gomap \<Rightarrow> merge_error + (partition list \<times> string list)" where
  "MergeLabels current intents =
     (let idx = label_index current in
      case merge_classify idx intents [] of
        Inl e \<Rightarrow> Inl e
      | Inr unmatched \<Rightarrow> Inr (fold (merge_apply idx) intents current, sort unmatched))"

section \<open>Lemmas on identities\<close>

lemma canonical_key_append_eq:
  "canonical_key k @ r = canonical_key l @ r' \<longleftrightarrow> k = l \<and> r = r'"
proof
  assume "canonical_key k @ r = canonical_key l @ r'"
  then have "show_nat (length k) @ CHR '':'' # (k @ r) = show_nat (length l) @ CHR '':'' # (l @ r')"
    by (simp add: canonical_key_def)
  then have "length k = length l" and "k @ r = l @ r'"
    by (simp_all add: append_sep_eq show_nat_no_colon)
  then show "k = l \<and> r = r'" by simp
qed simp

lemma canonical_key_nonempty [simp]: "canonical_key k \<noteq> []"
  by (simp add: canonical_key_def)

lemma canonical_keys_inj:
  "canonical_keys i ks = canonical_keys i ls \<longleftrightarrow> ks = ls"
proof (induction ks arbitrary: ls i)
  case Nil
  then show ?case by (cases ls) auto
next
  case (Cons k ks)
  show ?case
  proof (cases ls)
    case Nil
    then show ?thesis by simp
  next
    case (Cons l ls')
    then show ?thesis
      by (auto simp: canonical_key_append_eq Cons.IH)
  qed
qed

lemma canonical_keys_Nil_iff [simp]: "canonical_keys i ks = [] \<longleftrightarrow> ks = []"
  by (cases ks) auto

lemma CanonicalID_keys: "CanonicalID p = canonical_keys 0 (Keys p)"
  by (simp add: CanonicalID_def)

lemma CanonicalID_eq_iff: "CanonicalID p = CanonicalID q \<longleftrightarrow> Keys p = Keys q"
  by (simp add: CanonicalID_keys canonical_keys_inj)

lemma strings_Join_sep_iff:
  assumes "ks \<noteq> []"
  shows "c \<in> set (strings_Join ks [c]) \<longleftrightarrow> length ks > 1 \<or> (\<exists>k \<in> set ks. c \<in> set k)"
  using assms by (induction ks "[c]" rule: strings_Join.induct) auto

lemma strings_Join_inj:
  assumes "ks \<noteq> []" "ls \<noteq> []" "\<forall>k \<in> set ks. c \<notin> set k" "\<forall>k \<in> set ls. c \<notin> set k"
    and "strings_Join ks [c] = strings_Join ls [c]"
  shows "ks = ls"
  using assms
proof (induction ks arbitrary: ls rule: list_nonempty_induct)
  case (single x)
  then have "c \<notin> set (strings_Join ls [c])" by simp
  with single have "length ls = 1"
    by (auto simp: strings_Join_sep_iff) (metis One_nat_def Suc_lessI length_greater_0_conv)
  with single show ?case
    by (auto simp: length_Suc_conv)
next
  case (cons x xs)
  obtain x2 xs2 where xs: "xs = x2 # xs2" using cons.hyps by (cases xs) auto
  then have "c \<in> set (strings_Join (x # xs) [c])" by simp
  then have "c \<in> set (strings_Join ls [c])" using cons.prems by simp
  then have "length ls > 1"
    using cons.prems by (auto simp: strings_Join_sep_iff)
  then obtain y y2 ys2 where ls: "ls = y # y2 # ys2"
    by (metis Suc_le_length_iff Suc_lessE One_nat_def length_Suc_conv list.size(3) not_less_zero
        list.exhaust less_irrefl)
  have "x @ c # strings_Join xs [c] = y @ c # strings_Join (y2 # ys2) [c]"
    using cons.prems xs ls by simp
  moreover have "c \<notin> set x" "c \<notin> set y"
    using cons.prems ls by auto
  ultimately have "x = y" and "strings_Join xs [c] = strings_Join (y2 # ys2) [c]"
    by (simp_all add: append_sep_eq)
  then show ?case
    using cons.IH [of "y2 # ys2"] cons.prems ls by auto
qed

section \<open>Lemmas on validation\<close>

lemma validate_keys_None_iff:
  "validate_keys i ks = None \<longleftrightarrow> (\<forall>k \<in> set ks. k \<noteq> [] \<and> \<not> has_dot k \<and> \<not> has_space k)"
  by (induction ks arbitrary: i) auto

lemma Validate_None_iff:
  "Validate p = None \<longleftrightarrow>
     Keys p \<noteq> [] \<and> (\<forall>k \<in> set (Keys p). k \<noteq> [] \<and> \<not> has_dot k \<and> \<not> has_space k) \<and>
     ValidateLabel (Label p) = None"
  using validate_keys_None_iff [of 0 "Keys p"]
  by (auto simp: Validate_def split: option.splits)

lemma validate_partitions_None_iff:
  "validate_partitions i seen ps = None \<longleftrightarrow>
     (\<forall>p \<in> set ps. Validate p = None) \<and> distinct (map CanonicalID ps) \<and>
     set (map CanonicalID ps) \<inter> set seen = {}"
  by (induction ps arbitrary: i seen) (auto simp: Let_def split: option.splits)

section \<open>Lemmas on the order\<close>

lemma compare_keys_eq:
  "compare_keys xs ys = (if xs = ys then 0 else if xs < ys then -1 else 1)"
proof (induction xs arbitrary: ys)
  case Nil
  show ?case by (cases ys) auto
next
  case (Cons x xs)
  then show ?case by (cases ys) auto
qed

lemma Compare_eq: "Compare p q = (if Keys p = Keys q then 0 else if Keys p < Keys q then -1 else 1)"
  by (simp add: Compare_def compare_keys_eq)

lemma Compare_le_0: "Compare p q \<le> 0 \<longleftrightarrow> Keys p \<le> Keys q"
  by (auto simp: Compare_eq)

lemma cmp_total_Compare: "cmp_total Compare"
  by (auto simp: cmp_total_def Compare_le_0)

section \<open>Lemmas on the digest\<close>

lemma PartitionSetDigest_ids:
  "PartitionSetDigest X parts =
     (if parts = [] then 0
      else HasherSum64 X (digest_writes 0 (sorted_list_of_set (CanonicalID ` set parts))))"
  by (simp add: PartitionSetDigest_def Compact_sort Let_def)

section \<open>Lemmas on the label merge\<close>

abbreviation matching :: "partition list \<Rightarrow> string \<Rightarrow> nat list" where
  "matching current i \<equiv> filter (\<lambda>j. ID (current ! j) = i) [0..<length current]"

lemma foldl_index:
  "map_get [] (foldl (\<lambda>idx i. map_append (f i) [i] idx) m xs) k =
     map_get [] m k @ filter (\<lambda>i. f i = k) xs"
  by (induction xs arbitrary: m) (auto simp: map_simps)

lemma label_index_matching: "map_get [] (label_index current) i = matching current i"
  unfolding label_index_def foldl_index by (simp add: map_get_def)

lemma matching_length:
  "length (matching current i) = length (filter (\<lambda>p. ID p = i) current)"
proof -
  have "map ((!) current) (matching current i) = filter (\<lambda>p. ID p = i) (map ((!) current) [0..<length current])"
    by (simp add: filter_map comp_def)
  then show ?thesis by (metis length_map map_nth)
qed

lemma merge_classify_Inr:
  "merge_classify idx intents un = Inr un' \<longleftrightarrow>
     (\<forall>(i, v) \<in> set intents. length (map_get [] idx i) \<le> 1) \<and>
     un' = un @ filter (\<lambda>i. map_get [] idx i = []) (map fst intents)"
  by (induction idx intents un rule: merge_classify.induct) (auto simp: Let_def)

lemma merge_classify_Inl:
  "merge_classify idx intents un = Inl e \<Longrightarrow>
     \<exists>i v. (i, v) \<in> set intents \<and> e = AmbiguousID i (length (map_get [] idx i)) \<and>
       length (map_get [] idx i) > 1"
  by (induction idx intents un rule: merge_classify.induct) (fastforce simp: Let_def split: if_splits)+

lemma merge_apply_length [simp]: "length (merge_apply idx iv r) = length r"
  by (simp add: merge_apply_def Let_def)

lemma fold_merge_apply_length [simp]: "length (fold (merge_apply idx) ivs r) = length r"
  by (induction ivs arbitrary: r) auto

lemma matching_singleton:
  assumes "length (matching current i) = 1" "j < length current"
  shows "hd (matching current i) = j \<longleftrightarrow> ID (current ! j) = i"
proof -
  obtain k where k: "matching current i = [k]"
    using assms(1) by (metis One_nat_def length_0_conv length_Suc_conv)
  have "j \<in> set (matching current i) \<longleftrightarrow> ID (current ! j) = i"
    using assms(2) by simp
  with k show ?thesis by auto
qed

lemma merge_apply_nth:
  assumes "length (matching current i) \<le> 1" "j < length current" "length r = length current"
  shows "merge_apply (label_index current) (i, v) r ! j =
    (if ID (current ! j) = i then (r ! j)\<lparr>Label := label_of_intent v\<rparr> else r ! j)"
proof (cases "length (matching current i) = 1")
  case True
  then show ?thesis
    using assms matching_singleton [OF True assms(2)]
    by (auto simp: merge_apply_def label_index_matching Let_def nth_list_update)
next
  case False
  then have "matching current i = []" using assms(1) by (cases "matching current i") auto
  then have "ID (current ! j) \<noteq> i" using assms(2) by (auto simp: filter_empty_conv)
  then show ?thesis using False
    by (simp add: merge_apply_def label_index_matching Let_def)
qed

lemma fold_merge_apply_nth:
  assumes "\<forall>(i, v) \<in> set ivs. length (matching current i) \<le> 1" "gomap_wf ivs"
    "j < length current" "length r = length current"
  shows "fold (merge_apply (label_index current)) ivs r ! j =
    (case map_of ivs (ID (current ! j)) of
       None \<Rightarrow> r ! j
     | Some v \<Rightarrow> (r ! j)\<lparr>Label := label_of_intent v\<rparr>)"
  using assms
proof (induction ivs arbitrary: r)
  case Nil
  then show ?case by simp
next
  case (Cons iv ivs)
  obtain i v where iv: "iv = (i, v)" by (cases iv)
  have ih: "fold (merge_apply (label_index current)) ivs (merge_apply (label_index current) (i, v) r) ! j =
    (case map_of ivs (ID (current ! j)) of
       None \<Rightarrow> merge_apply (label_index current) (i, v) r ! j
     | Some v' \<Rightarrow> (merge_apply (label_index current) (i, v) r ! j)\<lparr>Label := label_of_intent v'\<rparr>)"
    using Cons.prems by (intro Cons.IH) (auto simp: gomap_wf_def)
  have new: "ID (current ! j) = i \<Longrightarrow> map_of ivs (ID (current ! j)) = None"
    using Cons.prems(2) iv by (auto simp: gomap_wf_def map_of_eq_None_iff)
  have "length (matching current i) \<le> 1" using Cons.prems(1) iv by auto
  note step = merge_apply_nth [OF this Cons.prems(3,4), of v]
  show ?case
    using ih new step iv by (auto split: option.splits)
qed

text \<open>A concrete polynomial hash that instantiates the hash library in examples.\<close>

definition poly_xxh3 :: xxh3 where
  "poly_xxh3 =
     \<lparr>HashString = (\<lambda>s. foldl (\<lambda>a c. 31 * a + of_nat (of_char c)) 7 s),
      HashStringSeed = (\<lambda>s seed. foldl (\<lambda>a c. 31 * a + of_nat (of_char c)) seed s),
      HashSeed = (\<lambda>b h. foldl (\<lambda>a c. 2 * a + of_nat (of_char c)) (17 * h) (take 2 b)),
      HasherSum64 = (\<lambda>ss. foldl (\<lambda>a c. 31 * a + of_nat (of_char c)) 7 (concat ss))\<rparr>"

section \<open>Properties\<close>

text \<open>\<open>ValidatePartitions\<close> accepts a partition set exactly when every partition is valid
  and no two of them have the same keys: the canonical identifier, by which duplicates are
  detected, is injective on key tuples.\<close>

lemma validate_partitions_iff:
  "ValidatePartitions ps = None \<longleftrightarrow> (\<forall>p \<in> set ps. Validate p = None) \<and> distinct (map Keys ps)"
proof -
  have "distinct (map CanonicalID ps) \<longleftrightarrow> distinct (map Keys ps)"
    by (auto simp: distinct_map inj_on_def CanonicalID_eq_iff)
  then show ?thesis by (simp add: ValidatePartitions_def validate_partitions_None_iff)
qed

text \<open>On valid partitions the NATS subject suffix identifies the partition: two valid
  partitions with the same \<open>SubjectKey\<close> have the same keys.\<close>

lemma subject_key_injective:
  assumes "Validate p = None" "Validate q = None" "SubjectKey p = SubjectKey q"
  shows "Keys p = Keys q"
proof (rule strings_Join_inj)
  show "strings_Join (Keys p) ''.'' = strings_Join (Keys q) ''.''"
    using assms by (simp add: SubjectKey_def Validate_None_iff)
qed (use assms in \<open>auto simp: Validate_None_iff has_dot_def\<close>)

text \<open>The assignment digest depends only on the set of key tuples: it ignores the order,
  repetitions, weights and labels of the partitions.\<close>

lemma partition_set_digest_set:
  assumes "Keys ` set ps = Keys ` set qs"
  shows "PartitionSetDigest X ps = PartitionSetDigest X qs"
proof -
  have "CanonicalID ` set ps = CanonicalID ` set qs"
    using arg_cong[OF assms, of "image (canonical_keys 0)"] by (simp add: image_image CanonicalID_keys)
  moreover have "ps = [] \<longleftrightarrow> qs = []" using assms by auto
  ultimately show ?thesis by (simp add: PartitionSetDigest_ids)
qed

text \<open>C26: \<open>MergeLabels\<close> fails exactly when an intent names an identifier shared by several
  partitions. Otherwise it changes labels only: a partition whose identifier has an intent gets
  the label of the intent, every other partition is unchanged, and the intents without a
  partition are returned sorted.\<close>

theorem merge_labels_spec:
  assumes "gomap_wf intents"
  shows "case MergeLabels current intents of
      Inl (AmbiguousID i n) \<Rightarrow> has_key intents i \<and> n = length (filter (\<lambda>p. ID p = i) current) \<and> n > 1
    | Inr (result, unmatched) \<Rightarrow>
        (\<forall>(i, v) \<in> set intents. length (filter (\<lambda>p. ID p = i) current) \<le> 1) \<and>
        result = map (\<lambda>p. case map_of intents (ID p) of
          None \<Rightarrow> p | Some v \<Rightarrow> p\<lparr>Label := label_of_intent v\<rparr>) current \<and>
        unmatched = sort (filter (\<lambda>i. \<forall>p \<in> set current. ID p \<noteq> i) (map fst intents))"
proof (cases "merge_classify (label_index current) intents []")
  case (Inl e)
  from merge_classify_Inl[OF this] Inl show ?thesis
    by (auto simp: MergeLabels_def Let_def label_index_matching matching_length has_key_def image_iff
        simp del: length_filter_conv_card) force+
next
  case (Inr un)
  have "(map_get [] (label_index current) i = []) \<longleftrightarrow> (\<forall>p \<in> set current. ID p \<noteq> i)" for i
    using matching_length[of current i] by (metis (mono_tags) filter_empty_conv label_index_matching length_0_conv)
  with Inr[unfolded merge_classify_Inr] have
    un: "un = filter (\<lambda>i. \<forall>p \<in> set current. ID p \<noteq> i) (map fst intents)"
    and le: "\<forall>(i, v) \<in> set intents. length (matching current i) \<le> 1"
    by (auto simp: label_index_matching)
  have "fold (merge_apply (label_index current)) intents current =
    map (\<lambda>p. case map_of intents (ID p) of None \<Rightarrow> p | Some v \<Rightarrow> p\<lparr>Label := label_of_intent v\<rparr>) current"
    by (rule nth_equalityI) (simp_all add: fold_merge_apply_nth[OF le assms])
  with Inr un le show ?thesis by (simp add: MergeLabels_def Let_def matching_length)
qed

theorem merge_labels_spec_witness:
  "MergeLabels [\<lparr>Keys = [''a''], Weight = 1, Label = []\<rparr>] [(''a'', Some ''x''), (''b'', None)] =
     Inr ([\<lparr>Keys = [''a''], Weight = 1, Label = ''x''\<rparr>], [''b''])"
proof -
  have "MergeLabels [\<lparr>Keys = [''a''], Weight = 1, Label = []\<rparr>] [(''a'', Some ''x''), (''b'', None)] \<noteq> Inl e" for e
    by (auto simp: MergeLabels_def Let_def label_index_def ID_def map_get_def)
  then show ?thesis
    using merge_labels_spec[of "[(''a'', Some ''x''), (''b'', None)]" "[\<lparr>Keys = [''a''], Weight = 1, Label = []\<rparr>]"]
    by (auto simp: gomap_wf_def ID_def label_of_intent_def split: sum.splits)
qed

end
