(* ===== verification/Ring.thy ===== *)
theory Ring
  imports Partition_Types
begin

text \<open>
  The hash ring of \<^verbatim>\<open>internal/hash/ring.go\<close>: construction with virtual nodes, the
  lookups by binary search, and the weighted ring. The order in which \<open>slices.SortFunc\<close>
  leaves nodes of equal hash is not specified, so the sorting routine is a parameter with the
  contract \<^const>\<open>sort_contract\<close>. An index out of range is the result \<^const>\<open>None\<close>
  (a Go panic).
\<close>

section \<open>Operations\<close>

record virtual_node =
  vn_hash :: u64
  vn_workerID :: string
  vn_workerIdx :: nat

record ring =
  r_nodes :: "virtual_node list"
  r_workers :: "string list"
  r_seed :: u64

fun uniq_workers :: "string list \<Rightarrow> string list \<Rightarrow> string list" where
  "uniq_workers seen [] = []"
| "uniq_workers seen (w # ws) =
     (if w \<in> set seen then uniq_workers seen ws else w # uniq_workers (w # seen) ws)"

text \<open>\<open>binary.LittleEndian.PutUint64\<close>\<close>

definition le_bytes :: "nat \<Rightarrow> bytes" where
  "le_bytes n = map (\<lambda>k. char_of (n div 256 ^ k)) [0..<8]"

definition vnode_hash :: "xxh3 \<Rightarrow> u64 \<Rightarrow> string \<Rightarrow> nat \<Rightarrow> u64" where
  "vnode_hash X seed workerID i =
     (let h = (if seed \<noteq> 0 then HashStringSeed X workerID seed else HashString X workerID)
      in HashSeed X (le_bytes i) h)"

definition addWorker :: "xxh3 \<Rightarrow> string \<Rightarrow> nat \<Rightarrow> nat \<Rightarrow> ring \<Rightarrow> ring" where
  "addWorker X workerID workerIdx virtualNodes r =
     r\<lparr>r_nodes := r_nodes r @
        map (\<lambda>i. \<lparr>vn_hash = vnode_hash X (r_seed r) workerID i, vn_workerID = workerID,
                    vn_workerIdx = workerIdx\<rparr>) [0..<virtualNodes]\<rparr>"

definition cmp_node :: "virtual_node \<Rightarrow> virtual_node \<Rightarrow> int" where
  "cmp_node a b = (if vn_hash a < vn_hash b then -1 else if vn_hash a > vn_hash b then 1 else 0)"

definition NewRing ::
  "xxh3 \<Rightarrow> (virtual_node list \<Rightarrow> virtual_node list) \<Rightarrow> string list \<Rightarrow> nat \<Rightarrow> u64 \<Rightarrow> ring" where
  "NewRing X srt workers virtualNodesPerWorker seed =
     (let r = \<lparr>r_nodes = [], r_workers = uniq_workers [] workers, r_seed = seed\<rparr>;
          r = foldl (\<lambda>r (i, w). addWorker X w i virtualNodesPerWorker r) r
                (enumerate 0 (r_workers r))
      in r\<lparr>r_nodes := srt (r_nodes r)\<rparr>)"

definition cmp_target :: "u64 \<Rightarrow> virtual_node \<Rightarrow> int" where
  "cmp_target t node = (if vn_hash node < t then -1 else if vn_hash node > t then 1 else 0)"

text \<open>The position both lookups use: the first node at or after the target, wrapping to the
  first node of the ring.\<close>

definition search_node :: "ring \<Rightarrow> u64 \<Rightarrow> virtual_node option" where
  "search_node r target =
     (let (idx, found) = BinarySearchFunc (r_nodes r) (cmp_target target);
          idx = (if \<not> found \<and> idx \<ge> length (r_nodes r) then 0 else idx)
      in if idx < length (r_nodes r) then Some (r_nodes r ! idx) else None)"

definition getNodeByHash :: "ring \<Rightarrow> u64 \<Rightarrow> string option" where
  "getNodeByHash r target = map_option vn_workerID (search_node r target)"

definition ring_hash :: "xxh3 \<Rightarrow> ring \<Rightarrow> string \<Rightarrow> u64" where
  "ring_hash X r key = (if r_seed r \<noteq> 0 then HashStringSeed X key (r_seed r) else HashString X key)"

definition GetNode :: "xxh3 \<Rightarrow> ring \<Rightarrow> string \<Rightarrow> string option" where
  "GetNode X r key = (if r_nodes r = [] then Some [] else getNodeByHash r (ring_hash X r key))"

definition GetNodeForPartition :: "xxh3 \<Rightarrow> ring \<Rightarrow> partition \<Rightarrow> string option" where
  "GetNodeForPartition X r p =
     (if Keys p = [] then Some [] else getNodeByHash r (HashIDSeed X p (r_seed r)))"

definition GetNodeIndexForPartition :: "xxh3 \<Rightarrow> ring \<Rightarrow> partition \<Rightarrow> int option" where
  "GetNodeIndexForPartition X r p =
     (if Keys p = [] \<or> r_nodes r = [] then Some (-1)
      else map_option (\<lambda>n. int (vn_workerIdx n)) (search_node r (HashIDSeed X p (r_seed r))))"

subsection \<open>Weighted ring\<close>

record weighted_ring =
  wr_Ring :: ring
  wr_workerWeights :: "string \<Rightarrow> i64" \<comment> \<open>0 for an absent key\<close>

definition NewWeighted ::
  "xxh3 \<Rightarrow> (virtual_node list \<Rightarrow> virtual_node list) \<Rightarrow> string list \<Rightarrow> nat \<Rightarrow> u64 \<Rightarrow> weighted_ring" where
  "NewWeighted X srt workers virtualNodesPerWorker seed =
     \<lparr>wr_Ring = NewRing X srt workers virtualNodesPerWorker seed, wr_workerWeights = (\<lambda>_. 0)\<rparr>"

definition findLightestWorker :: "weighted_ring \<Rightarrow> string" where
  "findLightestWorker wr =
     (case r_workers (wr_Ring wr) of
        [] \<Rightarrow> []
      | w # ws \<Rightarrow> foldl (\<lambda>m w'. if wr_workerWeights wr w' < wr_workerWeights wr m then w' else m) w ws)"

definition ring_weight :: "partition \<Rightarrow> i64" where
  "ring_weight p = (if Weight p = 0 then 100 else Weight p)"

fun assign_weighted ::
  "xxh3 \<Rightarrow> i64 \<Rightarrow> weighted_ring \<Rightarrow> (string, partition list) gomap \<Rightarrow> partition list
    \<Rightarrow> (weighted_ring \<times> (string, partition list) gomap) option" where
  "assign_weighted X maxWeight wr asg [] = Some (wr, asg)"
| "assign_weighted X maxWeight wr asg (p # ps) =
     (case GetNodeForPartition X (wr_Ring wr) p of
        None \<Rightarrow> None
      | Some w \<Rightarrow>
          let w' = (if wrap64 (wr_workerWeights wr w + ring_weight p) > maxWeight
                    then findLightestWorker wr else w)
          in assign_weighted X maxWeight
               (wr\<lparr>wr_workerWeights := (wr_workerWeights wr)
                  (w' := wrap64 (wr_workerWeights wr w' + ring_weight p))\<rparr>)
               (map_append w' [p] asg) ps)"

definition AssignPartitions ::
  "xxh3 \<Rightarrow> weighted_ring \<Rightarrow> partition list \<Rightarrow> (weighted_ring \<times> (string, partition list) gomap) option" where
  "AssignPartitions X wr partitions =
     (let wr = wr\<lparr>wr_workerWeights := \<lambda>_. 0\<rparr> in
      if partitions = [] then Some (wr, [])
      else
        let totalWeight = foldl (\<lambda>t p. wrap64 (t + ring_weight p)) 0 partitions;
            workers = r_workers (wr_Ring wr)
        in if workers = [] then Some (wr, [])
           else let avgWeight = wrap64 (go_div totalWeight (int (length workers)));
                    maxWeight = go_div (wrap64 (avgWeight * 115)) 100
                in assign_weighted X maxWeight wr [] partitions)"

section \<open>Structure of the ring\<close>

lemma uniq_workers_set: "set (uniq_workers seen ws) = set ws - set seen"
  by (induction seen ws rule: uniq_workers.induct) auto

lemma uniq_workers_distinct: "distinct (uniq_workers seen ws)"
  by (induction seen ws rule: uniq_workers.induct) (auto simp: uniq_workers_set)

lemma uniq_workers_id: "distinct ws \<Longrightarrow> set ws \<inter> set seen = {} \<Longrightarrow> uniq_workers seen ws = ws"
  by (induction seen ws rule: uniq_workers.induct) auto

lemma uniq_workers_length: "length (uniq_workers seen ws) \<le> length ws"
  by (induction seen ws rule: uniq_workers.induct) auto

abbreviation mk_node :: "xxh3 \<Rightarrow> u64 \<Rightarrow> string \<Rightarrow> nat \<Rightarrow> nat \<Rightarrow> virtual_node" where
  "mk_node X seed w i k \<equiv>
     \<lparr>vn_hash = vnode_hash X seed w k, vn_workerID = w, vn_workerIdx = i\<rparr>"

lemma foldl_addWorker:
  "foldl (\<lambda>r (i, w). addWorker X w i vn r) r iws =
     r\<lparr>r_nodes := r_nodes r @ concat (map (\<lambda>(i, w). map (mk_node X (r_seed r) w i) [0..<vn]) iws)\<rparr>"
  by (induction iws arbitrary: r) (auto simp: addWorker_def)

lemma NewRing_workers [simp]: "r_workers (NewRing X srt ws vn seed) = uniq_workers [] ws"
  by (simp add: NewRing_def foldl_addWorker Let_def)

lemma NewRing_seed [simp]: "r_seed (NewRing X srt ws vn seed) = seed"
  by (simp add: NewRing_def foldl_addWorker Let_def)

lemma NewRing_nodes:
  "r_nodes (NewRing X srt ws vn seed) =
     srt (concat (map (\<lambda>(i, w). map (mk_node X seed w i) [0..<vn]) (enumerate 0 (uniq_workers [] ws))))"
  by (simp add: NewRing_def foldl_addWorker Let_def)

lemma NewRing_node_iff:
  assumes "sort_contract cmp_node srt"
  shows "n \<in> set (r_nodes (NewRing X srt ws vn seed)) \<longleftrightarrow>
    (\<exists>i k. i < length (uniq_workers [] ws) \<and> k < vn \<and> n = mk_node X seed (uniq_workers [] ws ! i) i k)"
proof -
  let ?us = "uniq_workers [] ws"
  have "(i, w) \<in> set (enumerate 0 ?us) \<longleftrightarrow> i < length ?us \<and> w = ?us ! i" for i w
    by (auto simp: in_set_enumerate_eq)
  then have "n \<in> set (concat (map (\<lambda>(i, w). map (mk_node X seed w i) [0..<vn]) (enumerate 0 ?us))) \<longleftrightarrow>
    (\<exists>i k. i < length ?us \<and> k < vn \<and> n = mk_node X seed (?us ! i) i k)"
    unfolding set_concat set_map by (simp add: image_iff Bex_def) blast
  then show ?thesis
    by (simp only: NewRing_nodes sort_contract_set [OF assms])
qed

text \<open>The hash at which a target lands: the least one at or after it, or the least of all.\<close>

definition succ_hash :: "u64 set \<Rightarrow> u64 \<Rightarrow> u64" where
  "succ_hash H t = (if \<exists>h \<in> H. t \<le> h then Min {h \<in> H. t \<le> h} else Min H)"

lemma succ_hash_subset:
  assumes "finite H'" "H \<subseteq> H'" "H \<noteq> {}" "succ_hash H' t \<in> H"
  shows "succ_hash H t = succ_hash H' t"
proof (cases "\<exists>h \<in> H'. t \<le> h")
  case True
  let ?m = "Min {h \<in> H'. t \<le> h}"
  have m: "?m \<in> {h \<in> H'. t \<le> h}" using True assms(1) by (intro Min_in) auto
  have "?m \<in> H" using assms(4) True by (simp add: succ_hash_def)
  then have "Min {h \<in> H. t \<le> h} = ?m"
    using m assms(1,2) by (intro Min_eqI) (auto intro: finite_subset)
  moreover have "\<exists>h \<in> H. t \<le> h" using \<open>?m \<in> H\<close> m by auto
  ultimately show ?thesis using True by (simp add: succ_hash_def)
next
  case False
  then have "Min H' \<in> H" using assms(4) by (simp add: succ_hash_def)
  then have "Min H = Min H'"
    using assms(1,2) by (intro Min_eqI) (auto intro: finite_subset)
  moreover have "\<not> (\<exists>h \<in> H. t \<le> h)" using False assms(2) by auto
  ultimately show ?thesis using False by (simp add: succ_hash_def)
qed

lemma search_node_succ:
  assumes sorted: "sorted_wrt (\<lambda>a b. cmp_node a b \<le> 0) (r_nodes r)" and ne: "r_nodes r \<noteq> []"
  shows "\<exists>n. search_node r t = Some n \<and> n \<in> set (r_nodes r) \<and>
    vn_hash n = succ_hash (vn_hash ` set (r_nodes r)) t"
proof -
  let ?ns = "r_nodes r"
  let ?n = "length (takeWhile (\<lambda>x. vn_hash x < t) ?ns)"
  have le: "i \<le> j \<Longrightarrow> j < length ?ns \<Longrightarrow> vn_hash (?ns ! i) \<le> vn_hash (?ns ! j)" for i j
  proof (cases "i = j")
    case False
    assume "i \<le> j" "j < length ?ns"
    with False have "cmp_node (?ns ! i) (?ns ! j) \<le> 0"
      using sorted_wrt_nth_less [OF sorted, of i j] by simp
    then show ?thesis by (auto simp: cmp_node_def split: if_splits)
  qed simp
  have below: "cmp_target t x < 0 \<longleftrightarrow> vn_hash x < t" for x
    by (auto simp: cmp_target_def)
  have mono: "sorted_wrt (\<lambda>a b. cmp_target t b < 0 \<longrightarrow> cmp_target t a < 0) ?ns"
    unfolding below sorted_wrt_iff_nth_less
    using le by (meson order_le_less_trans less_imp_le_nat)
  have idx: "fst (BinarySearchFunc ?ns (cmp_target t)) = ?n"
    using BinarySearchFunc_fst [OF mono] by (simp add: below)
  have iff: "k < length ?ns \<Longrightarrow> vn_hash (?ns ! k) < t \<longleftrightarrow> k < ?n" for k
    using nth_takeWhile_iff [of "\<lambda>x. vn_hash x < t" ?ns k] mono by (simp add: below)
  have snd_fst: "snd (BinarySearchFunc ?ns (cmp_target t)) \<Longrightarrow> fst (BinarySearchFunc ?ns (cmp_target t)) < length ?ns"
    by (simp add: BinarySearchFunc_def Let_def)
  define j where "j = (if ?n < length ?ns then ?n else 0)"
  have j: "j < length ?ns" using ne by (simp add: j_def)
  have res: "search_node r t = Some (?ns ! j)"
    using idx snd_fst ne by (auto simp: search_node_def j_def case_prod_beta Let_def)
  have "vn_hash (?ns ! j) = succ_hash (vn_hash ` set ?ns) t"
  proof (cases "?n < length ?ns")
    case True
    then have ge: "t \<le> vn_hash (?ns ! ?n)" using iff [of ?n] by simp
    have least: "vn_hash (?ns ! ?n) \<le> vn_hash x" if "x \<in> set ?ns" "t \<le> vn_hash x" for x
      using that iff le True by (metis in_set_conv_nth leD le_less_linear)
    have "Min {h \<in> vn_hash ` set ?ns. t \<le> h} = vn_hash (?ns ! ?n)"
      using True ge least by (intro Min_eqI) auto
    moreover have "\<exists>h \<in> vn_hash ` set ?ns. t \<le> h" using True ge by (auto intro!: bexI [of _ "?ns ! ?n"])
    ultimately show ?thesis using True by (simp add: succ_hash_def j_def)
  next
    case False
    then have "?n = length ?ns" using length_takeWhile_le [of "\<lambda>x. vn_hash x < t" ?ns] by linarith
    then have none: "\<not> (\<exists>h \<in> vn_hash ` set ?ns. t \<le> h)"
      using iff by (auto simp: in_set_conv_nth) (metis leD)
    have "Min (vn_hash ` set ?ns) = vn_hash (?ns ! 0)"
    proof (rule Min_eqI)
      show "vn_hash (?ns ! 0) \<in> vn_hash ` set ?ns" using ne by simp
    qed (use le in \<open>auto simp: in_set_conv_nth\<close>)
    with none False show ?thesis by (simp add: succ_hash_def j_def)
  qed
  with res j show ?thesis by auto
qed

text \<open>What a lookup on a freshly built ring returns.\<close>

definition ring_hashes :: "xxh3 \<Rightarrow> u64 \<Rightarrow> string set \<Rightarrow> nat \<Rightarrow> u64 set" where
  "ring_hashes X seed W vn = {vnode_hash X seed w k | w k. w \<in> W \<and> k < vn}"

lemma finite_ring_hashes [simp]: "finite W \<Longrightarrow> finite (ring_hashes X seed W vn)"
proof -
  assume "finite W"
  then have "finite ((\<lambda>(w, k). vnode_hash X seed w k) ` (W \<times> {..<vn}))" by simp
  moreover have "ring_hashes X seed W vn = (\<lambda>(w, k). vnode_hash X seed w k) ` (W \<times> {..<vn})"
    by (auto simp: ring_hashes_def)
  ultimately show ?thesis by simp
qed

lemma ring_lookup:
  assumes srt: "sort_contract cmp_node srt" and ws: "ws \<noteq> []" and vn: "vn > 0"
  obtains i k where
    "search_node (NewRing X srt ws vn seed) t = Some (mk_node X seed (uniq_workers [] ws ! i) i k)"
    "i < length (uniq_workers [] ws)" "uniq_workers [] ws ! i \<in> set ws" "k < vn"
    "vnode_hash X seed (uniq_workers [] ws ! i) k = succ_hash (ring_hashes X seed (set ws) vn) t"
proof -
  let ?r = "NewRing X srt ws vn seed"
  let ?us = "uniq_workers [] ws"
  have us: "set ?us = set ws" by (simp add: uniq_workers_set)
  have hashes: "vn_hash ` set (r_nodes ?r) = ring_hashes X seed (set ws) vn"
  proof (intro equalityI subsetI)
    fix h assume "h \<in> vn_hash ` set (r_nodes ?r)"
    then obtain i k where "i < length ?us" "k < vn" "h = vnode_hash X seed (?us ! i) k"
      by (auto simp: NewRing_node_iff [OF srt])
    then show "h \<in> ring_hashes X seed (set ws) vn"
      using us nth_mem by (fastforce simp: ring_hashes_def)
  next
    fix h assume "h \<in> ring_hashes X seed (set ws) vn"
    then obtain w k where "w \<in> set ?us" "k < vn" "h = vnode_hash X seed w k"
      using us by (auto simp: ring_hashes_def)
    then obtain i where "i < length ?us" "h = vn_hash (mk_node X seed (?us ! i) i k)"
      by (auto simp: in_set_conv_nth)
    then show "h \<in> vn_hash ` set (r_nodes ?r)"
      using \<open>k < vn\<close> NewRing_node_iff [OF srt] by blast
  qed
  have "sorted_wrt (\<lambda>a b. cmp_node a b \<le> 0) (r_nodes ?r)"
    by (simp add: NewRing_nodes sort_contract_sorted [OF srt])
  moreover have "r_nodes ?r \<noteq> []"
  proof -
    have "?us \<noteq> []" using us ws by auto
    then have "mk_node X seed (?us ! 0) 0 0 \<in> set (r_nodes ?r)"
      using vn by (auto simp: NewRing_node_iff [OF srt])
    then show ?thesis by auto
  qed
  ultimately obtain n where n: "search_node ?r t = Some n" "n \<in> set (r_nodes ?r)"
    "vn_hash n = succ_hash (ring_hashes X seed (set ws) vn) t"
    using search_node_succ hashes by metis
  then obtain i k where ik: "i < length ?us" "k < vn" "n = mk_node X seed (?us ! i) i k"
    by (auto simp: NewRing_node_iff [OF srt])
  have "?us ! i \<in> set ws" using ik(1) us nth_mem by metis
  then show ?thesis
    using n ik by (intro that [of i k]) simp_all
qed

lemma search_node_single: "r_nodes r = [n] \<Longrightarrow> search_node r t = Some n"
  by (auto simp: search_node_def BinarySearchFunc_def bsearch_loop.simps Let_def)

lemma cmp_total_node: "cmp_total cmp_node"
  by (auto simp: cmp_total_def cmp_node_def)

end
