(* ===== verification/Go_Float.thy ===== *)
theory Go_Float
  imports Prelude "HOL-Library.Log_Nat"
begin

text \<open>
  The \<open>float64\<close> values the weighted strategy computes with: IEEE 754 binary64 with
  rounding to nearest, ties to even. Positive and negative zero are one value, which no
  operation used here distinguishes.
\<close>

datatype f64 = Fin rat | PInf | NInf | NaN

definition pow2 :: "int \<Rightarrow> rat" where
  "pow2 e = (if e \<ge> 0 then 2 ^ nat e else 1 / 2 ^ nat (- e))"

definition round_half_even :: "rat \<Rightarrow> int" where
  "round_half_even q =
     (let f = \<lfloor>q\<rfloor>; d = q - of_int f
      in if d < 1 / 2 then f else if d > 1 / 2 then f + 1 else if even f then f else f + 1)"

text \<open>The exponent of the leading bit of a positive rational.\<close>

definition rat_log2 :: "rat \<Rightarrow> int" where
  "rat_log2 q =
     (let (n, d) = quotient_of q; k = bitlen n - bitlen d
      in if q \<ge> pow2 k then k else k - 1)"

text \<open>Rounding a positive rational: 53 significant bits, exponent at least -1074.\<close>

definition round_pos :: "rat \<Rightarrow> f64" where
  "round_pos q =
     (let e = max (rat_log2 q - 52) (-1074);
          v = of_int (round_half_even (q / pow2 e)) * pow2 e
      in if v \<ge> pow2 1024 then PInf else Fin v)"

definition f64_neg :: "f64 \<Rightarrow> f64" where
  "f64_neg x = (case x of Fin q \<Rightarrow> Fin (- q) | PInf \<Rightarrow> NInf | NInf \<Rightarrow> PInf | NaN \<Rightarrow> NaN)"

definition f64_of_rat :: "rat \<Rightarrow> f64" where
  "f64_of_rat q = (if q = 0 then Fin 0 else if q > 0 then round_pos q else f64_neg (round_pos (- q)))"

definition f64_of_int :: "int \<Rightarrow> f64" where
  "f64_of_int n = f64_of_rat (of_int n)"

fun f64_lt :: "f64 \<Rightarrow> f64 \<Rightarrow> bool" where
  "f64_lt NaN _ = False"
| "f64_lt _ NaN = False"
| "f64_lt (Fin a) (Fin b) = (a < b)"
| "f64_lt PInf _ = False"
| "f64_lt _ NInf = False"
| "f64_lt _ _ = True"

fun f64_mul :: "f64 \<Rightarrow> f64 \<Rightarrow> f64" where
  "f64_mul NaN _ = NaN"
| "f64_mul _ NaN = NaN"
| "f64_mul (Fin a) (Fin b) = f64_of_rat (a * b)"
| "f64_mul (Fin a) y = (if a = 0 then NaN else if a > 0 then y else f64_neg y)"
| "f64_mul x (Fin b) = (if b = 0 then NaN else if b > 0 then x else f64_neg x)"
| "f64_mul PInf y = y"
| "f64_mul NInf y = f64_neg y"

fun f64_add :: "f64 \<Rightarrow> f64 \<Rightarrow> f64" where
  "f64_add NaN _ = NaN"
| "f64_add _ NaN = NaN"
| "f64_add (Fin a) (Fin b) = f64_of_rat (a + b)"
| "f64_add PInf NInf = NaN"
| "f64_add NInf PInf = NaN"
| "f64_add PInf _ = PInf"
| "f64_add _ PInf = PInf"
| "f64_add NInf _ = NInf"
| "f64_add _ NInf = NInf"

text \<open>\<open>Duration.Seconds\<close>: whole seconds plus the fraction, added as floating-point numbers.\<close>

definition duration_Seconds :: "duration \<Rightarrow> f64" where
  "duration_Seconds d =
     (let s = go_div d 1000000000; ns = d - s * 1000000000
      in f64_add (f64_of_int s) (f64_of_rat (of_int ns / 1000000000)))"

text \<open>Division is only used with a positive integer as divisor.\<close>

definition f64_div_int :: "f64 \<Rightarrow> f64 \<Rightarrow> f64" where
  "f64_div_int x y =
     (case (x, y) of
        (Fin a, Fin b) \<Rightarrow>
          (if b = 0 then (if a = 0 then NaN else if a > 0 then PInf else NInf) else f64_of_rat (a / b))
      | (Fin a, PInf) \<Rightarrow> Fin 0
      | (Fin a, NInf) \<Rightarrow> Fin 0
      | (PInf, Fin b) \<Rightarrow> (if b \<ge> 0 then PInf else NInf)
      | (NInf, Fin b) \<Rightarrow> (if b \<ge> 0 then NInf else PInf)
      | _ \<Rightarrow> NaN)"

text \<open>Conversion to \<open>int\<close> truncates towards zero; a value out of range converts to the least
  \<open>int64\<close>, as on amd64 (the language leaves it to the implementation).\<close>

definition f64_to_int :: "f64 \<Rightarrow> i64" where
  "f64_to_int x =
     (case x of
        Fin q \<Rightarrow> (let n = (if q \<ge> 0 then \<lfloor>q\<rfloor> else - \<lfloor>- q\<rfloor>) in if in_i64 n then n else - (2 ^ 63))
      | _ \<Rightarrow> - (2 ^ 63))"

lemma f64_lt_irrefl [simp]: "\<not> f64_lt x x"
  by (cases x) auto

lemma f64_lt_trans: "f64_lt x y \<Longrightarrow> f64_lt y z \<Longrightarrow> f64_lt x z"
  by (cases x; cases y; cases z) auto

text \<open>Integers of up to 53 bits are represented exactly.\<close>

lemma round_half_even_int [simp]: "round_half_even (of_int n) = n"
  by (simp add: round_half_even_def)

lemma rat_log2_int: "0 < n \<Longrightarrow> rat_log2 (of_int n) = bitlen n - 1"
proof -
  assume n: "0 < n"
  then have b: "1 \<le> bitlen n" using bitlen_nonneg[of n] bitlen_eq_zero_iff[of n] by linarith
  have "2 ^ nat (bitlen n - 1) \<le> n" using bitlen_bounds[OF n] by simp
  then have "(of_int (2 ^ nat (bitlen n - 1)) :: rat) \<le> of_int n" by (rule of_int_le_iff[THEN iffD2])
  then have "pow2 (bitlen n - 1) \<le> of_int n" using b by (simp add: pow2_def)
  moreover have "bitlen 1 = 1" by (simp add: bitlen_alt_def)
  ultimately show ?thesis by (simp add: rat_log2_def Let_def quotient_of_int)
qed

lemma f64_of_int_exact:
  assumes "0 \<le> n" "n < 2 ^ 53"
  shows "f64_of_int n = Fin (of_int n)"
proof (cases "n = 0")
  case False
  then have n: "0 < n" using assms by simp
  have bl: "bitlen n \<le> 53" using bitlen_le_iff_power[of n 53] assms(2) by simp
  define e where "e = max (bitlen n - 53) (-1074)"
  have e: "e = bitlen n - 53" "e \<le> 0" using bl bitlen_nonneg[of n] by (auto simp: e_def)
  define k where "k = nat (- e)"
  have pe: "pow2 e = 1 / 2 ^ k" using e by (cases "e = 0") (auto simp: pow2_def k_def)
  have "of_int n / pow2 e = of_int (n * 2 ^ k)" by (simp add: pe)
  then have v: "of_int (round_half_even (of_int n / pow2 e)) * pow2 e = of_int n"
    by (simp only: round_half_even_int) (simp add: pe)
  have "n < 2 ^ 1024" using assms(2) by (rule order_less_le_trans) (simp add: power_increasing)
  then have "(of_int n :: rat) < of_int (2 ^ 1024)" by (rule of_int_less_iff[THEN iffD2])
  then have "\<not> pow2 1024 \<le> (of_int n :: rat)" by (simp add: pow2_def)
  then show ?thesis using n v
    by (simp add: f64_of_int_def f64_of_rat_def round_pos_def rat_log2_int e_def[symmetric] Let_def)
qed (simp add: f64_of_int_def f64_of_rat_def)

end
