(* ===== verification/Strategy.thy ===== *)
theory Strategy
  imports Ring Go_Float "HOL-Library.Sublist"
begin

text \<open>
  The assignment strategies of \<^verbatim>\<open>strategy/\<close>: round robin, consistent hashing and
  weighted consistent hashing, and their common contract as the locale
  \<open>assignment_strategy\<close>, which the label pipeline relies on.
\<close>

type_synonym assignments = "(string, partition list) gomap"

datatype strategy_error = ErrNoWorkers | ErrEmptyWorker | StrategyPanic

section \<open>Round robin\<close>

definition empty_assignments :: "string list \<Rightarrow> assignments" where
  "empty_assignments ws = foldl (\<lambda>m w. AList.update w [] m) [] ws"

definition RoundRobin_Assign ::
  "(partition list \<Rightarrow> partition list) \<Rightarrow> string list \<Rightarrow> partition list \<Rightarrow> strategy_error + assignments" where
  "RoundRobin_Assign srt workers partitions =
     (if workers = [] then Inl ErrNoWorkers
      else
        let sortedWorkers = sort workers;
            sortedPartitions = srt partitions;
            assignments = empty_assignments sortedWorkers
        in Inr (foldl (\<lambda>m (i, p). map_append (sortedWorkers ! (i mod length sortedWorkers)) [p] m)
                  assignments (enumerate 0 sortedPartitions)))"

section \<open>Consistent hashing\<close>

record consistent_hash =
  ch_virtualNodes :: int
  ch_hashSeed :: u64

definition WithVirtualNodes :: "int \<Rightarrow> consistent_hash \<Rightarrow> consistent_hash" where
  "WithVirtualNodes nodes ch = ch\<lparr>ch_virtualNodes := (if nodes < 1 then 1 else nodes)\<rparr>"

definition WithHashSeed :: "u64 \<Rightarrow> consistent_hash \<Rightarrow> consistent_hash" where
  "WithHashSeed seed ch = ch\<lparr>ch_hashSeed := seed\<rparr>"

definition NewConsistentHash :: "(consistent_hash \<Rightarrow> consistent_hash) list \<Rightarrow> consistent_hash" where
  "NewConsistentHash opts = foldl (\<lambda>ch opt. opt ch) \<lparr>ch_virtualNodes = 150, ch_hashSeed = 0\<rparr> opts"

fun assign_by_ring :: "xxh3 \<Rightarrow> ring \<Rightarrow> assignments \<Rightarrow> partition list \<Rightarrow> strategy_error + assignments" where
  "assign_by_ring X r asg [] = Inr asg"
| "assign_by_ring X r asg (p # ps) =
     (case GetNodeForPartition X r p of
        None \<Rightarrow> Inl StrategyPanic
      | Some w \<Rightarrow>
          if w = [] then Inl ErrEmptyWorker
          else assign_by_ring X r (map_append w [p] asg) ps)"

definition ConsistentHash_Assign ::
  "xxh3 \<Rightarrow> (virtual_node list \<Rightarrow> virtual_node list) \<Rightarrow> consistent_hash \<Rightarrow> string list \<Rightarrow> partition list
    \<Rightarrow> strategy_error + assignments" where
  "ConsistentHash_Assign X srt ch workers partitions =
     (if workers = [] then Inl ErrNoWorkers
      else
        let r = NewRing X srt workers (nat (ch_virtualNodes ch)) (ch_hashSeed ch)
        in assign_by_ring X r (empty_assignments workers) partitions)"

section \<open>Weighted consistent hashing\<close>

record weighted_consistent_hash =
  wch_virtualNodes :: int
  wch_hashSeed :: u64
  wch_overloadThreshold :: f64
  wch_extremeThreshold :: f64
  wch_minPartitionCountFactor :: f64
  wch_defaultWeight :: i64
  wch_cachedWorkers :: "string list"
  wch_cachedVirtual :: int
  wch_cachedSeed :: u64
  wch_cachedRing :: "ring option"

record partition_entry =
  pe_partition :: partition
  pe_weight :: i64

record distribution_thresholds =
  extremeCutoff :: f64
  maxWorkerWeight :: f64

definition minOverloadThreshold :: f64 where "minOverloadThreshold = f64_of_rat (11 / 10)"
definition minExtremeThreshold :: f64 where "minExtremeThreshold = f64_of_rat (3 / 2)"

definition wch_default :: weighted_consistent_hash where
  "wch_default =
     \<lparr>wch_virtualNodes = 150, wch_hashSeed = 0, wch_overloadThreshold = f64_of_rat (6 / 5),
      wch_extremeThreshold = f64_of_rat 20, wch_minPartitionCountFactor = f64_of_rat (3 / 10),
      wch_defaultWeight = 1, wch_cachedWorkers = [], wch_cachedVirtual = 0, wch_cachedSeed = 0,
      wch_cachedRing = None\<rparr>"

definition normalizeConfig :: "weighted_consistent_hash \<Rightarrow> weighted_consistent_hash" where
  "normalizeConfig wch =
     (let wch = (if wch_virtualNodes wch < 1 then wch\<lparr>wch_virtualNodes := 1\<rparr> else wch);
          wch = (if f64_lt (wch_overloadThreshold wch) minOverloadThreshold
                 then wch\<lparr>wch_overloadThreshold := minOverloadThreshold\<rparr> else wch);
          wch = (if f64_lt (wch_extremeThreshold wch) minExtremeThreshold
                 then wch\<lparr>wch_extremeThreshold := minExtremeThreshold\<rparr> else wch)
      in (if wch_defaultWeight wch < 1 then wch\<lparr>wch_defaultWeight := 1\<rparr> else wch))"

definition NewWeightedConsistentHash ::
  "(weighted_consistent_hash \<Rightarrow> weighted_consistent_hash) list \<Rightarrow> weighted_consistent_hash" where
  "NewWeightedConsistentHash opts = normalizeConfig (foldl (\<lambda>w opt. opt w) wch_default opts)"

definition WithWeightedVirtualNodes :: "int \<Rightarrow> weighted_consistent_hash \<Rightarrow> weighted_consistent_hash" where
  "WithWeightedVirtualNodes nodes wch = wch\<lparr>wch_virtualNodes := nodes\<rparr>"

definition WithWeightedHashSeed :: "u64 \<Rightarrow> weighted_consistent_hash \<Rightarrow> weighted_consistent_hash" where
  "WithWeightedHashSeed seed wch = wch\<lparr>wch_hashSeed := seed\<rparr>"

definition WithOverloadThreshold :: "f64 \<Rightarrow> weighted_consistent_hash \<Rightarrow> weighted_consistent_hash" where
  "WithOverloadThreshold threshold wch = wch\<lparr>wch_overloadThreshold := threshold\<rparr>"

definition WithExtremeThreshold :: "f64 \<Rightarrow> weighted_consistent_hash \<Rightarrow> weighted_consistent_hash" where
  "WithExtremeThreshold threshold wch = wch\<lparr>wch_extremeThreshold := threshold\<rparr>"

definition WithDefaultWeight :: "i64 \<Rightarrow> weighted_consistent_hash \<Rightarrow> weighted_consistent_hash" where
  "WithDefaultWeight weight wch = wch\<lparr>wch_defaultWeight := weight\<rparr>"

definition WithMinPartitionCount :: "f64 \<Rightarrow> weighted_consistent_hash \<Rightarrow> weighted_consistent_hash" where
  "WithMinPartitionCount factor wch = wch\<lparr>wch_minPartitionCountFactor := factor\<rparr>"

definition effectiveWeight :: "weighted_consistent_hash \<Rightarrow> i64 \<Rightarrow> i64" where
  "effectiveWeight wch w = (if w > 0 then w else wch_defaultWeight wch)"

definition getOrBuildRing ::
  "xxh3 \<Rightarrow> (virtual_node list \<Rightarrow> virtual_node list) \<Rightarrow> weighted_consistent_hash \<Rightarrow> string list
    \<Rightarrow> ring \<times> weighted_consistent_hash" where
  "getOrBuildRing X srt wch sortedWorkers =
     (let newRing = NewRing X srt sortedWorkers (nat (wch_virtualNodes wch)) (wch_hashSeed wch);
          rebuilt = (newRing,
             wch\<lparr>wch_cachedWorkers := sortedWorkers, wch_cachedVirtual := wch_virtualNodes wch,
                 wch_cachedSeed := wch_hashSeed wch, wch_cachedRing := Some newRing\<rparr>)
      in case wch_cachedRing wch of
           None \<Rightarrow> rebuilt
         | Some cached \<Rightarrow>
             if wch_cachedVirtual wch = wch_virtualNodes wch \<and> wch_cachedSeed wch = wch_hashSeed wch
                \<and> wch_cachedWorkers wch = sortedWorkers
             then (cached, wch) else rebuilt)"

definition prepare :: "string list \<Rightarrow> string list \<times> i64 list \<times> partition list list" where
  "prepare workers =
     (let sortedWorkers = sort workers
      in (sortedWorkers, replicate (length sortedWorkers) 0, replicate (length sortedWorkers) []))"

definition analyzeWeights :: "weighted_consistent_hash \<Rightarrow> partition list \<Rightarrow> i64 \<times> bool" where
  "analyzeWeights wch partitions =
     (foldl (\<lambda>t p. wrap64 (t + effectiveWeight wch (Weight p))) 0 partitions,
      (case partitions of
         [] \<Rightarrow> True
       | p # ps \<Rightarrow>
           foldl (\<lambda>eq q. if effectiveWeight wch (Weight q) \<noteq> effectiveWeight wch (Weight p)
                          then False else eq) True ps))"

text \<open>\<open>buckets[i] = append(buckets[i], p)\<close>, a panic when the index is out of range.\<close>

definition put_bucket :: "nat \<Rightarrow> partition \<Rightarrow> partition list list \<Rightarrow> partition list list option" where
  "put_bucket i p buckets =
     (if i < length buckets then Some (buckets[i := buckets ! i @ [p]]) else None)"

fun assignEqualWeightPartitionsByRingIndex ::
  "xxh3 \<Rightarrow> ring \<Rightarrow> partition list list \<Rightarrow> partition list \<Rightarrow> strategy_error + partition list list" where
  "assignEqualWeightPartitionsByRingIndex X r buckets [] = Inr buckets"
| "assignEqualWeightPartitionsByRingIndex X r buckets (p # ps) =
     (case GetNodeIndexForPartition X r p of
        None \<Rightarrow> Inl StrategyPanic
      | Some idx \<Rightarrow>
          if idx < 0 then Inl ErrNoWorkers
          else case put_bucket (nat idx) p buckets of
                 None \<Rightarrow> Inl StrategyPanic
               | Some buckets' \<Rightarrow> assignEqualWeightPartitionsByRingIndex X r buckets' ps)"

definition computeThresholds :: "i64 \<Rightarrow> nat \<Rightarrow> nat \<Rightarrow> f64 \<Rightarrow> f64 \<Rightarrow> distribution_thresholds" where
  "computeThresholds totalWeight partitionCount workerCount extremeMultiplier overloadMultiplier =
     (let avgPartitionWeight =
            (if partitionCount > 0
             then f64_div_int (f64_of_int totalWeight) (f64_of_int (int partitionCount)) else Fin 0);
          avgWorkerWeight =
            (if workerCount > 0
             then f64_div_int (f64_of_int totalWeight) (f64_of_int (int workerCount)) else Fin 0)
      in \<lparr>extremeCutoff = f64_mul avgPartitionWeight extremeMultiplier,
          maxWorkerWeight = f64_mul avgWorkerWeight overloadMultiplier\<rparr>)"

definition is_extreme :: "f64 \<Rightarrow> i64 \<Rightarrow> bool" where
  "is_extreme cutoff w \<longleftrightarrow> f64_lt (Fin 0) cutoff \<and> f64_lt cutoff (f64_of_int w)"

definition splitPartitions ::
  "weighted_consistent_hash \<Rightarrow> partition list \<Rightarrow> f64 \<Rightarrow> partition_entry list \<times> partition_entry list" where
  "splitPartitions wch partitions cutoff =
     (let entries = map (\<lambda>p. \<lparr>pe_partition = p, pe_weight = effectiveWeight wch (Weight p)\<rparr>) partitions
      in (filter (\<lambda>e. is_extreme cutoff (pe_weight e)) entries,
          filter (\<lambda>e. \<not> is_extreme cutoff (pe_weight e)) entries))"

definition cmp_entry :: "partition_entry \<Rightarrow> partition_entry \<Rightarrow> int" where
  "cmp_entry a b =
     (if pe_weight a = pe_weight b then Compare (pe_partition a) (pe_partition b)
      else if pe_weight a > pe_weight b then -1 else 1)"

fun place_extremes ::
  "nat \<Rightarrow> nat \<Rightarrow> partition_entry list \<Rightarrow> partition list list \<Rightarrow> i64 list
    \<Rightarrow> (partition list list \<times> i64 list) option" where
  "place_extremes n i [] buckets workerLoad = Some (buckets, workerLoad)"
| "place_extremes n i (e # es) buckets workerLoad =
     (let widx = i mod n in
      case put_bucket widx (pe_partition e) buckets of
        None \<Rightarrow> None
      | Some buckets' \<Rightarrow>
          place_extremes n (Suc i) es buckets'
            (workerLoad[widx := wrap64 (workerLoad ! widx + pe_weight e)]))"

definition assignExtremePartitionsIndexed ::
  "(partition_entry list \<Rightarrow> partition_entry list) \<Rightarrow> partition_entry list \<Rightarrow> string list
    \<Rightarrow> partition list list \<Rightarrow> i64 list \<Rightarrow> (partition list list \<times> i64 list) option" where
  "assignExtremePartitionsIndexed srt extremes workers buckets workerLoad =
     (if extremes = [] then Some (buckets, workerLoad)
      else place_extremes (length workers) 0 (srt extremes) buckets workerLoad)"

fun lightest_loop :: "i64 list \<Rightarrow> nat \<Rightarrow> nat \<Rightarrow> i64 \<Rightarrow> nat" where
  "lightest_loop [] i lightestIdx minLoad = lightestIdx"
| "lightest_loop (load # ls) i lightestIdx minLoad =
     (if load < minLoad then lightest_loop ls (Suc i) i load
      else lightest_loop ls (Suc i) lightestIdx minLoad)"

definition findLightestWorkerIndexed :: "i64 list \<Rightarrow> nat" where
  "findLightestWorkerIndexed workerLoad = lightest_loop (tl workerLoad) 1 0 (hd workerLoad)"

definition over_cap :: "f64 \<Rightarrow> i64 \<Rightarrow> i64 \<Rightarrow> bool" where
  "over_cap cap load w \<longleftrightarrow> f64_lt (Fin 0) cap \<and> f64_lt cap (f64_of_int (wrap64 (load + w)))"

fun assignNormalPartitionsByRingIndex ::
  "xxh3 \<Rightarrow> partition_entry list \<Rightarrow> ring \<Rightarrow> partition list list \<Rightarrow> i64 list \<Rightarrow> f64 \<Rightarrow> i64 \<Rightarrow> nat
    \<Rightarrow> strategy_error + (partition list list \<times> i64 list \<times> nat)" where
  "assignNormalPartitionsByRingIndex X [] r buckets load cap minCount overflow = Inr (buckets, load, overflow)"
| "assignNormalPartitionsByRingIndex X (e # es) r buckets load cap minCount overflow =
     (case GetNodeIndexForPartition X r (pe_partition e) of
        None \<Rightarrow> Inl StrategyPanic
      | Some idx \<Rightarrow>
          if idx < 0 then Inl ErrNoWorkers
          else if nat idx \<ge> length buckets \<or> nat idx \<ge> length load then Inl StrategyPanic
          else
            let i = nat idx;
                isOverloaded = over_cap cap (load ! i) (pe_weight e);
                hasMinCount = int (length (buckets ! i)) \<ge> minCount;
                moved = isOverloaded \<and> hasMinCount;
                i' = (if moved then findLightestWorkerIndexed load else i);
                overflow' = (if moved \<and> over_cap cap (load ! i') (pe_weight e)
                             then Suc overflow else overflow)
            in case put_bucket i' (pe_partition e) buckets of
                 None \<Rightarrow> Inl StrategyPanic
               | Some buckets' \<Rightarrow>
                   assignNormalPartitionsByRingIndex X es r buckets'
                     (load[i' := wrap64 (load ! i' + pe_weight e)]) cap minCount overflow')"

definition convertBucketsToMap :: "string list \<Rightarrow> partition list list \<Rightarrow> assignments" where
  "convertBucketsToMap workers buckets =
     foldl (\<lambda>m (i, w). AList.update w (buckets ! i) m) [] (enumerate 0 workers)"

definition minPartitionCount :: "weighted_consistent_hash \<Rightarrow> nat \<Rightarrow> nat \<Rightarrow> i64" where
  "minPartitionCount wch workerCount partitionCount =
     (if f64_lt (Fin 0) (wch_minPartitionCountFactor wch) \<and> workerCount > 0
      then f64_to_int (f64_mul
             (f64_div_int (f64_of_int (int partitionCount)) (f64_of_int (int workerCount)))
             (wch_minPartitionCountFactor wch))
      else 0)"

definition WeightedConsistentHash_Assign ::
  "xxh3 \<Rightarrow> (virtual_node list \<Rightarrow> virtual_node list) \<Rightarrow> (partition_entry list \<Rightarrow> partition_entry list)
    \<Rightarrow> weighted_consistent_hash \<Rightarrow> string list \<Rightarrow> partition list
    \<Rightarrow> (strategy_error + assignments) \<times> weighted_consistent_hash" where
  "WeightedConsistentHash_Assign X srtN srtE wch workers partitions =
     (if workers = [] then (Inl ErrNoWorkers, wch)
      else
        let (sortedWorkers, workerLoad, buckets) = prepare workers in
        if partitions = [] then (Inr (convertBucketsToMap sortedWorkers buckets), wch)
        else
          let (totalWeight, allEqual) = analyzeWeights wch partitions;
              (r, wch') = getOrBuildRing X srtN wch sortedWorkers
          in if allEqual
             then (case assignEqualWeightPartitionsByRingIndex X r buckets partitions of
                     Inl e \<Rightarrow> (Inl e, wch')
                   | Inr buckets' \<Rightarrow> (Inr (convertBucketsToMap sortedWorkers buckets'), wch'))
             else
               let th = computeThresholds totalWeight (length partitions) (length sortedWorkers)
                          (wch_extremeThreshold wch) (wch_overloadThreshold wch);
                   (extremes, normals) = splitPartitions wch partitions (extremeCutoff th);
                   minCount = minPartitionCount wch (length workers) (length partitions)
               in case assignExtremePartitionsIndexed srtE extremes sortedWorkers buckets workerLoad of
                    None \<Rightarrow> (Inl StrategyPanic, wch')
                  | Some (buckets', load') \<Rightarrow>
                      (case assignNormalPartitionsByRingIndex X normals r buckets' load'
                              (maxWorkerWeight th) minCount 0 of
                         Inl e \<Rightarrow> (Inl e, wch')
                       | Inr (buckets'', _, _) \<Rightarrow>
                           (Inr (convertBucketsToMap sortedWorkers buckets''), wch')))"

section \<open>Contract\<close>

text \<open>An assignment that covers the partitions exactly: it is a well-formed map, its keys
  are the workers, and every partition is assigned as often as it is given.\<close>

definition assigns_exactly :: "string list \<Rightarrow> partition list \<Rightarrow> assignments \<Rightarrow> bool" where
  "assigns_exactly ws ps m \<longleftrightarrow> gomap_wf m \<and> fst ` set m = set ws \<and> mset (all_vals m) = mset ps"

definition workers_ok :: "string list \<Rightarrow> bool" where
  "workers_ok ws \<longleftrightarrow> ws \<noteq> [] \<and> distinct ws \<and> [] \<notin> set ws"

definition keyed :: "partition list \<Rightarrow> bool" where
  "keyed ps \<longleftrightarrow> (\<forall>p \<in> set ps. Keys p \<noteq> [])"

lemma keyed_simps [simp]:
  "keyed []" "keyed (p # ps) \<longleftrightarrow> Keys p \<noteq> [] \<and> keyed ps" "keyed (ps @ qs) \<longleftrightarrow> keyed ps \<and> keyed qs"
  by (auto simp: keyed_def)

lemma keyed_filter [simp]: "keyed ps \<Longrightarrow> keyed (filter P ps)"
  by (auto simp: keyed_def)

text \<open>The contract of the interface \<open>AssignmentStrategy\<close>: a strategy with a state (the
  ring cache of the weighted strategy) refuses an empty worker list and otherwise covers the
  partitions exactly, keeping its invariant.\<close>

locale assignment_strategy =
  fixes assign :: "'s \<Rightarrow> string list \<Rightarrow> partition list \<Rightarrow> (strategy_error + assignments) \<times> 's"
    and inv :: "'s \<Rightarrow> bool"
  assumes no_workers: "inv s \<Longrightarrow> assign s [] ps = (Inl ErrNoWorkers, s)"
    and exact: "inv s \<Longrightarrow> workers_ok ws \<Longrightarrow> keyed ps \<Longrightarrow>
      \<exists>m s'. assign s ws ps = (Inr m, s') \<and> assigns_exactly ws ps m \<and> inv s'"

section \<open>Round robin: lemmas\<close>

lemma empty_assignments_aux:
  "gomap_wf m \<Longrightarrow> mset (all_vals m) = {#} \<Longrightarrow>
   gomap_wf (foldl (\<lambda>m w. AList.update w [] m) m ws) \<and>
   fst ` set (foldl (\<lambda>m w. AList.update w [] m) m ws) = fst ` set m \<union> set ws \<and>
   mset (all_vals (foldl (\<lambda>m w. AList.update w [] m) m ws)) = {#}"
proof (induction ws arbitrary: m)
  case (Cons w ws)
  have "set (AList.update w [] m) \<subseteq> insert (w, []) (set m)"
    by (induction m) auto
  with Cons.prems(2) have "mset (all_vals (AList.update w [] m)) = {#}" by auto
  from Cons.IH[OF update_wf[OF Cons.prems(1)] this] show ?case by (auto simp: map_simps)
qed simp

lemma empty_assignments_props:
  "gomap_wf (empty_assignments ws)" "fst ` set (empty_assignments ws) = set ws"
  "mset (all_vals (empty_assignments ws)) = {#}"
  using empty_assignments_aux[of "[]" ws] by (auto simp: empty_assignments_def gomap_wf_def)

lemma empty_assignments_get [simp]: "map_get [] (empty_assignments ws) v = []"
  using map_get_vals_subset[of _ "empty_assignments ws" v] empty_assignments_props(3)[of ws]
  by (metis empty_iff list.set(1) mset_zero_iff set_empty2 subset_empty subsetI)

lemma fold_append_props:
  "gomap_wf m \<Longrightarrow> (\<forall>x \<in> set xs. f x \<in> W) \<Longrightarrow> fst ` set m = W \<Longrightarrow>
   gomap_wf (foldl (\<lambda>m x. map_append (f x) [g x] m) m xs) \<and>
   fst ` set (foldl (\<lambda>m x. map_append (f x) [g x] m) m xs) = W \<and>
   mset (all_vals (foldl (\<lambda>m x. map_append (f x) [g x] m) m xs)) = mset (all_vals m) + mset (map g xs)"
  by (induction xs arbitrary: m) (auto simp: map_simps map_append_mset insert_absorb)

lemma fold_append_get:
  "map_get [] (foldl (\<lambda>m x. map_append (f x) [g x] m) m xs) v =
   map_get [] m v @ map g (filter (\<lambda>x. f x = v) xs)"
  by (induction xs arbitrary: m) (auto simp: map_simps)

lemma RoundRobin_exact:
  assumes "sort_contract Compare srt" "ws \<noteq> []"
  shows "\<exists>m. RoundRobin_Assign srt ws ps = Inr m \<and> assigns_exactly ws ps m"
proof -
  let ?f = "\<lambda>(i, p). sort ws ! (i mod length (sort ws))"
  have "\<forall>x \<in> set (enumerate 0 (srt ps)). ?f x \<in> set ws"
    using assms(2) by (auto split: prod.split intro!: nth_mem[of _ "sort ws", simplified])
  from fold_append_props[OF empty_assignments_props(1)[of "sort ws"] this, of snd]
  show ?thesis using assms
    by (simp add: RoundRobin_Assign_def assigns_exactly_def Let_def case_prod_unfold
        empty_assignments_props sort_contract_mset)
qed

lemma length_filter_mod:
  assumes "j < k"
  shows "length (filter (\<lambda>i. i mod k = j) [0..<n]) = n div k + (if j < n mod k then 1 else 0)"
proof (induction n)
  case (Suc n)
  have "n mod k < k" using assms by simp
  then show ?case using Suc assms
    by (auto simp: div_Suc mod_Suc)
qed simp

lemma filter_enumerate_fst:
  "length (filter (\<lambda>(i, p). P i) (enumerate 0 xs)) = length (filter P [0..<length xs])"
proof -
  have "filter P [0..<length xs] = map fst (filter (P \<circ> fst) (enumerate 0 xs))"
    by (metis enumerate_eq_zip filter_map length_map map_fst_enumerate plus_nat.add_0)
  then show ?thesis by (simp add: comp_def case_prod_unfold)
qed

lemma RoundRobin_count:
  assumes "sort_contract Compare srt" "distinct ws" "RoundRobin_Assign srt ws ps = Inr m" "v \<in> set ws"
  obtains j where "j < length ws" "v = sort ws ! j"
    "length (map_get [] m v) = length ps div length ws + (if j < length ps mod length ws then 1 else 0)"
proof -
  let ?n = "length ws"
  obtain j where j: "j < ?n" "v = sort ws ! j" using assms(4) by (metis in_set_conv_nth length_sort set_sort)
  then have n: "0 < ?n" by auto
  have eq: "sort ws ! (i mod ?n) = v \<longleftrightarrow> i mod ?n = j" for i
    using j n assms(2) by (simp add: nth_eq_iff_index_eq)
  have "map_get [] m v = map snd (filter (\<lambda>(i, p). sort ws ! (i mod ?n) = v) (enumerate 0 (srt ps)))"
    using assms(3) n fold_append_get[of "\<lambda>(i, p). sort ws ! (i mod ?n)" snd "empty_assignments (sort ws)" "enumerate 0 (srt ps)" v]
    by (auto simp: RoundRobin_Assign_def Let_def case_prod_unfold)
  then have "length (map_get [] m v) = length (filter (\<lambda>i. i mod ?n = j) [0..<length (srt ps)])"
    by (simp add: eq filter_enumerate_fst del: length_filter_conv_card)
  with that[OF j] show thesis
    using length_filter_mod[OF j(1)] sort_contract_length[OF assms(1)] by simp
qed

section \<open>Consistent hashing: lemmas\<close>

lemma GetNodeForPartition_NewRing:
  assumes "sort_contract cmp_node srt" "ws \<noteq> []" "vn > 0" "Keys p \<noteq> []"
  obtains w k where "GetNodeForPartition X (NewRing X srt ws vn seed) p = Some w" "w \<in> set ws" "k < vn"
    "vnode_hash X seed w k = succ_hash (ring_hashes X seed (set ws) vn) (HashIDSeed X p seed)"
proof -
  obtain i k where *: "search_node (NewRing X srt ws vn seed) (HashIDSeed X p seed) =
      Some (mk_node X seed (uniq_workers [] ws ! i) i k)" "uniq_workers [] ws ! i \<in> set ws" "k < vn"
    "vnode_hash X seed (uniq_workers [] ws ! i) k = succ_hash (ring_hashes X seed (set ws) vn) (HashIDSeed X p seed)"
    by (rule ring_lookup[OF assms(1-3)])
  then show thesis
    using assms(4) by (intro that[OF _ *(2-4)]) (simp add: GetNodeForPartition_def getNodeByHash_def)
qed

lemma GetNodeIndexForPartition_NewRing:
  assumes "sort_contract cmp_node srt" "ws \<noteq> []" "vn > 0" "Keys p \<noteq> []"
  obtains i where "GetNodeIndexForPartition X (NewRing X srt ws vn seed) p = Some (int i)"
    "i < length (uniq_workers [] ws)"
    "GetNodeForPartition X (NewRing X srt ws vn seed) p = Some (uniq_workers [] ws ! i)"
proof -
  obtain i k where *: "search_node (NewRing X srt ws vn seed) (HashIDSeed X p seed) =
      Some (mk_node X seed (uniq_workers [] ws ! i) i k)" "i < length (uniq_workers [] ws)"
    using ring_lookup[OF assms(1-3)] by metis
  then have "r_nodes (NewRing X srt ws vn seed) \<noteq> []"
    by (auto simp: search_node_def Let_def split: prod.splits if_splits)
  with * assms(4) show thesis
    by (intro that[of i]) (auto simp: GetNodeIndexForPartition_def GetNodeForPartition_def getNodeByHash_def)
qed

lemma assign_by_ring_fold:
  assumes "\<forall>p \<in> set ps. GetNodeForPartition X r p = Some (own p) \<and> own p \<noteq> []"
  shows "assign_by_ring X r asg ps = Inr (foldl (\<lambda>m p. map_append (own p) [p] m) asg ps)"
  using assms by (induction ps arbitrary: asg) auto

text \<open>The result of \<open>ConsistentHash.Assign\<close> in terms of the owner of each partition on
  the ring.\<close>

definition ring_owner :: "xxh3 \<Rightarrow> (virtual_node list \<Rightarrow> virtual_node list) \<Rightarrow> consistent_hash \<Rightarrow> string list
    \<Rightarrow> partition \<Rightarrow> string" where
  "ring_owner X srt ch ws p =
     the (GetNodeForPartition X (NewRing X srt ws (nat (ch_virtualNodes ch)) (ch_hashSeed ch)) p)"

lemma ConsistentHash_Assign_eq:
  assumes "sort_contract cmp_node srt" "ch_virtualNodes ch \<ge> 1" "ws \<noteq> []" "[] \<notin> set ws" "keyed ps"
  shows "ConsistentHash_Assign X srt ch ws ps =
    Inr (foldl (\<lambda>m p. map_append (ring_owner X srt ch ws p) [p] m) (empty_assignments ws) ps)"
    and "\<forall>p \<in> set ps. ring_owner X srt ch ws p \<in> set ws"
proof -
  let ?r = "NewRing X srt ws (nat (ch_virtualNodes ch)) (ch_hashSeed ch)"
  have own: "GetNodeForPartition X ?r p = Some (ring_owner X srt ch ws p) \<and> ring_owner X srt ch ws p \<in> set ws"
    if "p \<in> set ps" for p
    using GetNodeForPartition_NewRing[OF assms(1,3), of "nat (ch_virtualNodes ch)" p] assms(2,5) that
    by (metis keyed_def option.sel ring_owner_def zero_less_nat_eq zless_add1_eq add_0 zle_add1_eq_le
        less_le_trans zero_less_one)
  then show "\<forall>p \<in> set ps. ring_owner X srt ch ws p \<in> set ws" by blast
  have "\<forall>p \<in> set ps. GetNodeForPartition X ?r p = Some (ring_owner X srt ch ws p) \<and> ring_owner X srt ch ws p \<noteq> []"
    using own assms(4) by metis
  from assign_by_ring_fold[OF this] show "ConsistentHash_Assign X srt ch ws ps =
    Inr (foldl (\<lambda>m p. map_append (ring_owner X srt ch ws p) [p] m) (empty_assignments ws) ps)"
    using assms(3) by (simp add: ConsistentHash_Assign_def Let_def)
qed

lemma ConsistentHash_exact:
  assumes "sort_contract cmp_node srt" "ch_virtualNodes ch \<ge> 1" "ws \<noteq> []" "[] \<notin> set ws" "keyed ps"
  shows "\<exists>m. ConsistentHash_Assign X srt ch ws ps = Inr m \<and> assigns_exactly ws ps m"
  using fold_append_props[where g = "\<lambda>p. p", OF empty_assignments_props(1)
      ConsistentHash_Assign_eq(2)[OF assms] empty_assignments_props(2)] ConsistentHash_Assign_eq(1)[OF assms]
  by (simp add: assigns_exactly_def empty_assignments_props)

text \<open>Adding a worker moves a partition only to the new worker.\<close>

definition no_collision :: "xxh3 \<Rightarrow> u64 \<Rightarrow> nat \<Rightarrow> string list \<Rightarrow> bool" where
  "no_collision X seed vn ws \<longleftrightarrow>
     (\<forall>v \<in> set ws. \<forall>w \<in> set ws. \<forall>i < vn. \<forall>j < vn.
        vnode_hash X seed v i = vnode_hash X seed w j \<longrightarrow> v = w)"

lemma ring_owner_scale:
  assumes srt: "sort_contract cmp_node srt" and vn: "ch_virtualNodes ch \<ge> 1" and ws: "ws \<noteq> []"
    and ws': "set ws' = insert w (set ws)" and p: "Keys p \<noteq> []"
    and nc: "no_collision X (ch_hashSeed ch) (nat (ch_virtualNodes ch)) ws'"
    and stay: "ring_owner X srt ch ws' p \<noteq> w"
  shows "ring_owner X srt ch ws p = ring_owner X srt ch ws' p"
proof -
  let ?vn = "nat (ch_virtualNodes ch)" and ?s = "ch_hashSeed ch"
  let ?t = "HashIDSeed X p ?s"
  let ?H = "ring_hashes X ?s (set ws) ?vn" and ?H' = "ring_hashes X ?s (set ws') ?vn"
  have vn0: "?vn > 0" and ws0': "ws' \<noteq> []" using vn ws' by auto
  obtain u k where u: "ring_owner X srt ch ws p = u" "u \<in> set ws" "k < ?vn"
    "vnode_hash X ?s u k = succ_hash ?H ?t"
    by (rule GetNodeForPartition_NewRing[OF srt ws vn0 p, of X ?s]) (simp add: ring_owner_def)
  obtain u' k' where u': "ring_owner X srt ch ws' p = u'" "u' \<in> set ws'" "k' < ?vn"
    "vnode_hash X ?s u' k' = succ_hash ?H' ?t"
    by (rule GetNodeForPartition_NewRing[OF srt ws0' vn0 p, of X ?s]) (simp add: ring_owner_def)
  have "u' \<in> set ws" using u' stay ws' by auto
  then have "succ_hash ?H' ?t \<in> ?H" using u'(3,4) by (force simp: ring_hashes_def)
  moreover have "?H \<subseteq> ?H'" using ws' by (auto simp: ring_hashes_def)
  ultimately have "succ_hash ?H ?t = succ_hash ?H' ?t"
    by (intro succ_hash_subset) auto
  with u u' have "vnode_hash X ?s u k = vnode_hash X ?s u' k'" by simp
  then have "u = u'" using nc u(2,3) u'(2,3) ws' unfolding no_collision_def by blast
  with u(1) u'(1) show ?thesis by simp
qed

section \<open>Weighted consistent hashing: lemmas\<close>

text \<open>The ring cache is coherent: a cached ring is the ring of the cached parameters.\<close>

definition wch_inv :: "xxh3 \<Rightarrow> (virtual_node list \<Rightarrow> virtual_node list) \<Rightarrow> weighted_consistent_hash \<Rightarrow> bool" where
  "wch_inv X srt wch \<longleftrightarrow> wch_virtualNodes wch \<ge> 1 \<and>
     (case wch_cachedRing wch of None \<Rightarrow> True
      | Some r \<Rightarrow> r = NewRing X srt (wch_cachedWorkers wch) (nat (wch_cachedVirtual wch)) (wch_cachedSeed wch))"

lemma getOrBuildRing_coherent:
  assumes "wch_inv X srt wch" "getOrBuildRing X srt wch ws = (r, wch')"
  shows "r = NewRing X srt ws (nat (wch_virtualNodes wch)) (wch_hashSeed wch)" "wch_inv X srt wch'"
  using assms by (auto simp: getOrBuildRing_def wch_inv_def Let_def split: option.splits if_splits)

lemma put_bucket_Some:
  "put_bucket i p b = Some b' \<longleftrightarrow> i < length b \<and> b' = b[i := b ! i @ [p]]"
  by (auto simp: put_bucket_def)

lemma mset_concat_update:
  "i < length b \<Longrightarrow> mset (concat (b[i := b ! i @ [p]])) = add_mset p (mset (concat b))"
  by (induction b arbitrary: i) (auto split: nat.splits)

text \<open>The load of a worker is the sum of the weights of its bucket.\<close>

definition ledger :: "weighted_consistent_hash \<Rightarrow> i64 list \<Rightarrow> partition list list \<Rightarrow> bool" where
  "ledger wch load b \<longleftrightarrow> length load = length b \<and>
     (\<forall>i < length b. load ! i = wrap64 (sum_list (map (\<lambda>p. effectiveWeight wch (Weight p)) (b ! i))))"

lemma wrap64_add: "wrap64 (wrap64 a + c) = wrap64 (a + c)"
proof -
  have "((a + 2 ^ 63) mod 2 ^ 64 - 2 ^ 63 + c + 2 ^ 63) mod 2 ^ 64 = ((a + 2 ^ 63) mod 2 ^ 64 + c) mod (2 ^ 64 :: int)"
    by (simp add: algebra_simps)
  also have "\<dots> = (a + c + 2 ^ 63) mod 2 ^ 64" by (subst mod_add_left_eq) (simp add: algebra_simps)
  finally show ?thesis by (simp add: wrap64_def)
qed

lemma ledger_put:
  assumes "ledger wch load b" "i < length b"
  shows "ledger wch (load[i := wrap64 (load ! i + effectiveWeight wch (Weight p))]) (b[i := b ! i @ [p]])"
  using assms by (auto simp: ledger_def nth_list_update wrap64_add)

lemma ledger_prepare: "ledger wch (replicate n 0) (replicate n [])"
  by (simp add: ledger_def wrap64_def)

abbreviation on_ring :: "xxh3 \<Rightarrow> ring \<Rightarrow> nat \<Rightarrow> partition \<Rightarrow> bool" where
  "on_ring X r n p \<equiv> (\<exists>i < n. GetNodeIndexForPartition X r p = Some (int i))"

lemma assignEqual_props:
  "\<forall>p \<in> set ps. on_ring X r (length b) p \<Longrightarrow>
   \<exists>b'. assignEqualWeightPartitionsByRingIndex X r b ps = Inr b' \<and> length b' = length b \<and>
     mset (concat b') = mset (concat b) + mset ps"
proof (induction ps arbitrary: b)
  case (Cons p ps)
  then obtain i where i: "i < length b" "GetNodeIndexForPartition X r p = Some (int i)" by auto
  from Cons.IH[of "b[i := b ! i @ [p]]"] Cons.prems i show ?case
    by (auto simp: put_bucket_def mset_concat_update)
qed simp

abbreviation entry_ok :: "weighted_consistent_hash \<Rightarrow> partition_entry \<Rightarrow> bool" where
  "entry_ok wch e \<equiv> pe_weight e = effectiveWeight wch (Weight (pe_partition e))"

lemma place_extremes_props:
  "n = length b \<Longrightarrow> b \<noteq> [] \<Longrightarrow> ledger wch l b \<Longrightarrow> \<forall>e \<in> set es. entry_ok wch e \<Longrightarrow>
   \<exists>b' l'. place_extremes n i es b l = Some (b', l') \<and> length b' = length b \<and> ledger wch l' b' \<and>
     mset (concat b') = mset (concat b) + mset (map pe_partition es)"
proof (induction es arbitrary: i b l)
  case (Cons e es)
  let ?j = "i mod n"
  have j: "?j < length b" using Cons.prems by (simp add: mod_less_divisor)
  have "ledger wch (l[?j := wrap64 (l ! ?j + pe_weight e)]) (b[?j := b ! ?j @ [pe_partition e]])"
    using ledger_put[OF Cons.prems(3) j] Cons.prems(4) by simp
  from Cons.IH[OF _ _ this, of "Suc i"] Cons.prems j show ?case
    by (auto simp: put_bucket_def mset_concat_update)
qed simp

lemma lightest_loop_bound:
  "lightest_loop ls i idx m < i + length ls \<or> lightest_loop ls i idx m = idx"
  by (induction ls i idx m rule: lightest_loop.induct) auto

lemma findLightestWorkerIndexed_bound: "l \<noteq> [] \<Longrightarrow> findLightestWorkerIndexed l < length l"
  using lightest_loop_bound[of "tl l" 1 0 "hd l"] by (cases l) (auto simp: findLightestWorkerIndexed_def)

text \<open>\<open>findLightestWorkerIndexed\<close> returns the first worker of minimal load.\<close>

lemma lightest_loop_min:
  "idx < i \<Longrightarrow> i = length pre \<Longrightarrow> pre ! idx = m \<Longrightarrow> \<forall>k < i. m \<le> pre ! k \<Longrightarrow> \<forall>k < idx. m < pre ! k \<Longrightarrow>
   (let j = lightest_loop ls i idx m in
     j < length (pre @ ls) \<and> (\<forall>k < length (pre @ ls). (pre @ ls) ! j \<le> (pre @ ls) ! k) \<and>
     (\<forall>k < j. (pre @ ls) ! j < (pre @ ls) ! k))"
proof (induction ls i idx m arbitrary: pre rule: lightest_loop.induct)
  case (1 i idx m)
  then show ?case by (auto simp: Let_def)
next
  case (2 load ls i idx m)
  show ?case
  proof (cases "load < m")
    case True
    have "\<forall>k < Suc i. load \<le> (pre @ [load]) ! k" "\<forall>k < i. load < (pre @ [load]) ! k"
      using 2(4-7) True by (auto simp: nth_append less_Suc_eq)
    with 2(1)[OF True, of "pre @ [load]"] 2(4) True show ?thesis by simp
  next
    case False
    have "\<forall>k < Suc i. m \<le> (pre @ [load]) ! k" "\<forall>k < idx. m < (pre @ [load]) ! k" "(pre @ [load]) ! idx = m"
      using 2(3-7) False by (auto simp: nth_append less_Suc_eq)
    with 2(2)[OF False, of "pre @ [load]"] 2(3,4) False show ?thesis by simp
  qed
qed

text \<open>One round of the loop over the normal partitions: the worker that is chosen.\<close>

definition chosen :: "f64 \<Rightarrow> i64 \<Rightarrow> partition list list \<Rightarrow> i64 list \<Rightarrow> nat \<Rightarrow> i64 \<Rightarrow> nat" where
  "chosen cap mc b l i w =
     (if over_cap cap (l ! i) w \<and> int (length (b ! i)) \<ge> mc then findLightestWorkerIndexed l else i)"

lemma chosen_bound: "length l = length b \<Longrightarrow> i < length b \<Longrightarrow> chosen cap mc b l i w < length b"
  using findLightestWorkerIndexed_bound[of l] by (cases "l = []") (auto simp: chosen_def)

lemma assignNormal_step:
  assumes "length l = length b" "i < length b" "GetNodeIndexForPartition X r (pe_partition e) = Some (int i)"
    and j: "j = chosen cap mc b l i (pe_weight e)"
  shows "assignNormalPartitionsByRingIndex X (e # es) r b l cap mc k =
    assignNormalPartitionsByRingIndex X es r (b[j := b ! j @ [pe_partition e]])
      (l[j := wrap64 (l ! j + pe_weight e)]) cap mc
      (if over_cap cap (l ! i) (pe_weight e) \<and> int (length (b ! i)) \<ge> mc \<and> over_cap cap (l ! j) (pe_weight e)
       then Suc k else k)"
proof -
  have "j < length b" using chosen_bound assms by simp
  with assms show ?thesis by (simp add: Let_def put_bucket_def chosen_def)
qed

lemma assignNormal_props:
  "ledger wch l b \<Longrightarrow> \<forall>e \<in> set es. entry_ok wch e \<and> on_ring X r (length b) (pe_partition e) \<Longrightarrow>
   \<exists>b' l' ov. assignNormalPartitionsByRingIndex X es r b l cap mc k = Inr (b', l', ov) \<and>
     length b' = length b \<and> ledger wch l' b' \<and> mset (concat b') = mset (concat b) + mset (map pe_partition es)"
proof (induction es arbitrary: b l k)
  case (Cons e es)
  then obtain i where i: "i < length b" "GetNodeIndexForPartition X r (pe_partition e) = Some (int i)" by auto
  define j where "j = chosen cap mc b l i (pe_weight e)"
  have len: "length l = length b" using Cons.prems(1) by (simp add: ledger_def)
  then have j: "j < length b" using i chosen_bound by (simp add: j_def)
  have led: "ledger wch (l[j := wrap64 (l ! j + pe_weight e)]) (b[j := b ! j @ [pe_partition e]])"
    using ledger_put[OF Cons.prems(1) j] Cons.prems(2) by simp
  show ?case
    unfolding assignNormal_step[OF len i j_def]
    using Cons.IH[OF led] Cons.prems(2) j by (auto simp: mset_concat_update)
qed simp

text \<open>The soft cap: when no overflow is counted, a worker above the cap holds at most the
  minimal number of partitions.\<close>

definition cap_ok :: "f64 \<Rightarrow> i64 \<Rightarrow> partition list list \<Rightarrow> i64 list \<Rightarrow> bool" where
  "cap_ok cap mc b l \<longleftrightarrow> (\<forall>i < length b. f64_lt (Fin 0) cap \<and> f64_lt cap (f64_of_int (l ! i)) \<longrightarrow>
     int (length (b ! i)) \<le> mc)"

lemma assignNormal_overflow_mono:
  "assignNormalPartitionsByRingIndex X es r b l cap mc k = Inr (b', l', ov) \<Longrightarrow> k \<le> ov"
  by (induction es arbitrary: b l k)
    (auto simp: Let_def split: option.splits if_splits dest: Suc_leD)

lemma assignNormal_cap:
  "length l = length b \<Longrightarrow> cap_ok cap mc b l \<Longrightarrow> \<forall>e \<in> set es. on_ring X r (length b) (pe_partition e) \<Longrightarrow>
   assignNormalPartitionsByRingIndex X es r b l cap mc 0 = Inr (b', l', 0) \<Longrightarrow> cap_ok cap mc b' l'"
proof (induction es arbitrary: b l)
  case (Cons e es)
  then obtain i where i: "i < length b" "GetNodeIndexForPartition X r (pe_partition e) = Some (int i)" by auto
  define j where "j = chosen cap mc b l i (pe_weight e)"
  have j: "j < length b" using i Cons.prems(1) chosen_bound by (simp add: j_def)
  let ?b = "b[j := b ! j @ [pe_partition e]]" and ?l = "l[j := wrap64 (l ! j + pe_weight e)]"
  let ?o = "over_cap cap (l ! i) (pe_weight e) \<and> int (length (b ! i)) \<ge> mc \<and> over_cap cap (l ! j) (pe_weight e)"
  note step = Cons.prems(4)[unfolded assignNormal_step[OF Cons.prems(1) i j_def]]
  have no: "\<not> ?o" using assignNormal_overflow_mono[OF step] by (auto split: if_splits)
  have "cap_ok cap mc ?b ?l"
    using Cons.prems(1,2) no j by (auto simp: cap_ok_def nth_list_update j_def chosen_def over_cap_def split: if_splits)
  moreover have "assignNormalPartitionsByRingIndex X es r ?b ?l cap mc 0 = Inr (b', l', 0)"
    using step no by simp
  ultimately show ?case using Cons.IH[of ?l ?b] Cons.prems(1,3) by simp
qed simp

lemma update_absent: "k \<notin> fst ` set m \<Longrightarrow> AList.update k v m = m @ [(k, v)]"
  by (induction m) auto

lemma convert_aux:
  "distinct ws \<Longrightarrow> set ws \<inter> fst ` set m = {} \<Longrightarrow>
   foldl (\<lambda>m (i, w). AList.update w (f i) m) m (enumerate n ws) = m @ map (\<lambda>(i, w). (w, f i)) (enumerate n ws)"
  by (induction ws arbitrary: m n) (auto simp: update_absent)

lemma convertBucketsToMap_zip:
  "distinct ws \<Longrightarrow> length b = length ws \<Longrightarrow> convertBucketsToMap ws b = zip ws b"
  unfolding convertBucketsToMap_def
  by (subst convert_aux) (auto intro!: nth_equalityI simp: nth_enumerate_eq)

lemma convertBucketsToMap_exact:
  "distinct ws \<Longrightarrow> length b = length ws \<Longrightarrow> mset (concat b) = mset ps \<Longrightarrow>
   assigns_exactly ws ps (convertBucketsToMap ws b)"
  by (simp add: convertBucketsToMap_zip assigns_exactly_def gomap_wf_def flip: set_map)

lemma splitPartitions_props:
  assumes "splitPartitions wch ps cutoff = (ex, no)"
  shows "mset (map pe_partition ex) + mset (map pe_partition no) = mset ps"
    and "e \<in> set ex \<union> set no \<Longrightarrow> entry_ok wch e \<and> pe_partition e \<in> set ps"
proof -
  let ?es = "map (\<lambda>p. \<lparr>pe_partition = p, pe_weight = effectiveWeight wch (Weight p)\<rparr>) ps"
  have *: "ex = filter (\<lambda>e. is_extreme cutoff (pe_weight e)) ?es"
    "no = filter (\<lambda>e. \<not> is_extreme cutoff (pe_weight e)) ?es"
    using assms by (auto simp: splitPartitions_def Let_def)
  have "mset ex + mset no = mset ?es"
    unfolding * mset_filter by (rule multiset_partition[symmetric])
  from arg_cong[OF this, of "image_mset pe_partition"]
  show "mset (map pe_partition ex) + mset (map pe_partition no) = mset ps"
    by (simp add: image_mset.compositionality comp_def)
  show "e \<in> set ex \<union> set no \<Longrightarrow> entry_ok wch e \<and> pe_partition e \<in> set ps"
    unfolding * by auto
qed

lemma NewRing_on_ring:
  assumes "sort_contract cmp_node srt" "ws \<noteq> []" "distinct ws" "vn > 0" "Keys p \<noteq> []"
  shows "on_ring X (NewRing X srt ws vn seed) (length ws) p"
  using GetNodeIndexForPartition_NewRing[OF assms(1,2,4,5), of X seed] assms(3)
  by (metis inf_bot_right list.set(1) uniq_workers_id)

lemma weighted_exact:
  assumes led: "ledger wch l b" and b: "length b = length ws" "ws \<noteq> []" "mset (concat b) = {#}"
    and srtE: "sort_contract cmp_entry srtE"
    and ring: "\<forall>p \<in> set ps. on_ring X r (length ws) p"
    and split: "splitPartitions wch ps cutoff = (ex, no)"
  obtains b1 l1 b2 l2 ov where "assignExtremePartitionsIndexed srtE ex ws b l = Some (b1, l1)"
    "assignNormalPartitionsByRingIndex X no r b1 l1 cap mc 0 = Inr (b2, l2, ov)"
    "length b2 = length ws" "mset (concat b2) = mset ps"
proof -
  note sp = splitPartitions_props[OF split]
  have ne: "b \<noteq> []" using b by auto
  have "\<forall>e \<in> set (srtE ex). entry_ok wch e" using sp(2) sort_contract_set[OF srtE] by auto
  from place_extremes_props[OF b(1)[symmetric] ne led this, of 0]
  obtain b1 l1 where 1: "assignExtremePartitionsIndexed srtE ex ws b l = Some (b1, l1)"
    "length b1 = length ws" "ledger wch l1 b1" "mset (concat b1) = mset (map pe_partition ex)"
    using b led sort_contract_mset[OF srtE, of ex]
    by (cases "ex = []") (auto simp: assignExtremePartitionsIndexed_def mset_map)
  have "\<forall>e \<in> set no. entry_ok wch e \<and> on_ring X r (length b1) (pe_partition e)"
    using sp(2) ring 1(2) by auto
  from assignNormal_props[OF 1(3) this, of cap mc 0] 1 sp(1) show thesis
    by (metis that)
qed

lemma prepare_props:
  "prepare ws = (sort ws, replicate (length ws) 0, replicate (length ws) [])"
  by (simp add: prepare_def Let_def)

lemma WeightedConsistentHash_exact:
  assumes srtN: "sort_contract cmp_node srtN" and srtE: "sort_contract cmp_entry srtE"
    and inv: "wch_inv X srtN wch" and ws: "workers_ok ws" and ps: "keyed ps"
  shows "\<exists>m wch'. WeightedConsistentHash_Assign X srtN srtE wch ws ps = (Inr m, wch') \<and>
    assigns_exactly ws ps m \<and> wch_inv X srtN wch'"
proof -
  let ?ws = "sort ws" and ?b = "replicate (length ws) []" and ?l = "replicate (length ws) 0"
  have w: "?ws \<noteq> []" "distinct ?ws" "ws \<noteq> []" using ws by (auto simp: workers_ok_def)
  have conv: "assigns_exactly ws ps (convertBucketsToMap ?ws b)"
    if "length b = length ?ws" "mset (concat b) = mset ps" for b
    using convertBucketsToMap_exact[OF w(2) that] by (simp add: assigns_exactly_def)
  obtain r wch' where r: "getOrBuildRing X srtN wch ?ws = (r, wch')" by fastforce
  note coh = getOrBuildRing_coherent[OF inv r]
  have "wch_virtualNodes wch \<ge> 1" using inv by (simp add: wch_inv_def)
  then have ring: "\<forall>p \<in> set ps. on_ring X r (length ?ws) p"
    using NewRing_on_ring[OF srtN w(1,2)] ps by (simp add: coh(1) keyed_def)
  show ?thesis
  proof (cases "ps = [] \<or> snd (analyzeWeights wch ps)")
    case True
    obtain b' where "assignEqualWeightPartitionsByRingIndex X r ?b ps = Inr b'"
      "length b' = length ?ws" "mset (concat b') = mset ps"
      using assignEqual_props[where b = ?b and ps = ps and X = X and r = r] ring by auto
    then show ?thesis using True w inv coh(2) r conv conv[of ?b]
      by (auto simp: WeightedConsistentHash_Assign_def prepare_props Let_def case_prod_unfold)
  next
    case False
    let ?th = "computeThresholds (fst (analyzeWeights wch ps)) (length ps) (length ?ws)
      (wch_extremeThreshold wch) (wch_overloadThreshold wch)"
    obtain ex no where sp: "splitPartitions wch ps (extremeCutoff ?th) = (ex, no)" by fastforce
    have len: "length ?b = length ?ws" and emp: "mset (concat ?b) = {#}" by auto
    obtain b1 l1 b2 l2 ov where
      "assignExtremePartitionsIndexed srtE ex ?ws ?b ?l = Some (b1, l1)"
      "assignNormalPartitionsByRingIndex X no r b1 l1 (maxWorkerWeight ?th)
        (minPartitionCount wch (length ws) (length ps)) 0 = Inr (b2, l2, ov)"
      "length b2 = length ?ws" "mset (concat b2) = mset ps"
      by (rule weighted_exact[where cap = "maxWorkerWeight ?th" and
            mc = "minPartitionCount wch (length ws) (length ps)",
            OF ledger_prepare len w(1) emp srtE ring sp])
    then show ?thesis using False w(3) coh(2) r sp conv
      by (simp add: WeightedConsistentHash_Assign_def prepare_props Let_def case_prod_unfold)
  qed
qed

section \<open>The strategies satisfy the contract\<close>

interpretation rr: assignment_strategy
  "\<lambda>(_ :: unit) ws ps. (RoundRobin_Assign srt ws ps, ())" "\<lambda>_. sort_contract Compare srt" for srt
  by unfold_locales (use RoundRobin_exact in \<open>auto simp: RoundRobin_Assign_def workers_ok_def\<close>)

interpretation ch: assignment_strategy
  "\<lambda>ch ws ps. (ConsistentHash_Assign X srt ch ws ps, ch)"
  "\<lambda>ch. sort_contract cmp_node srt \<and> ch_virtualNodes ch \<ge> 1" for X srt
  by unfold_locales (use ConsistentHash_exact in \<open>auto simp: ConsistentHash_Assign_def workers_ok_def\<close>)

interpretation wch: assignment_strategy
  "WeightedConsistentHash_Assign X srtN srtE"
  "\<lambda>wch. sort_contract cmp_node srtN \<and> sort_contract cmp_entry srtE \<and> wch_inv X srtN wch" for X srtN srtE
  by unfold_locales (use WeightedConsistentHash_exact in \<open>auto simp: WeightedConsistentHash_Assign_def\<close>)

lemma cmp_total_entry: "cmp_total cmp_entry"
  using cmp_total_Compare by (auto simp: cmp_total_def cmp_entry_def)

lemma WithVirtualNodes_ge: "ch_virtualNodes (WithVirtualNodes n ch) \<ge> 1"
  by (simp add: WithVirtualNodes_def)

lemma NewWeightedConsistentHash_inv:
  "\<forall>opt \<in> set opts. \<forall>w. wch_cachedRing w = None \<longrightarrow> wch_cachedRing (opt w) = None \<Longrightarrow>
   wch_inv X srt (NewWeightedConsistentHash opts)"
proof -
  assume "\<forall>opt \<in> set opts. \<forall>w. wch_cachedRing w = None \<longrightarrow> wch_cachedRing (opt w) = None"
  then have "wch_cachedRing w = None \<Longrightarrow> wch_cachedRing (foldl (\<lambda>w opt. opt w) w opts) = None" for w
    by (induction opts arbitrary: w) auto
  then have "wch_cachedRing (foldl (\<lambda>w opt. opt w) wch_default opts) = None"
    by (simp add: wch_default_def)
  then show ?thesis by (simp add: wch_inv_def NewWeightedConsistentHash_def normalizeConfig_def Let_def)
qed

section \<open>Properties\<close>

text \<open>Round robin assigns every partition exactly once, gives every worker an entry, and
  the numbers of partitions of any two workers differ by at most one, for any order in which the
  sort leaves equal partitions.\<close>

lemma round_robin_balanced:
  assumes "sort_contract Compare srt" "workers_ok ws"
  shows "\<exists>m. RoundRobin_Assign srt ws ps = Inr m \<and> assigns_exactly ws ps m \<and>
    (\<forall>u \<in> set ws. \<forall>v \<in> set ws. length (map_get [] m u) \<le> length (map_get [] m v) + 1)"
proof -
  obtain m where m: "RoundRobin_Assign srt ws ps = Inr m" "assigns_exactly ws ps m"
    using RoundRobin_exact assms by (metis workers_ok_def)
  have "length (map_get [] m u) \<le> length (map_get [] m v) + 1" if "u \<in> set ws" "v \<in> set ws" for u v
  proof -
    have "distinct ws" using assms(2) by (simp add: workers_ok_def)
    note count = RoundRobin_count[OF assms(1) this m(1)]
    have "length (map_get [] m u) \<le> length ps div length ws + 1" by (rule count[OF that(1)]) simp
    moreover have "length ps div length ws \<le> length (map_get [] m v)" by (rule count[OF that(2)]) simp
    ultimately show ?thesis by simp
  qed
  with m show ?thesis by blast
qed

text \<open>Consistent hashing, run on non-empty worker names and partitions with keys, succeeds,
  assigns every partition exactly once and gives every worker an entry, even when a worker is
  listed twice.\<close>

lemma consistent_hash_exact:
  assumes "sort_contract cmp_node srt" "ws \<noteq> []" "[] \<notin> set ws" "keyed ps"
  shows "\<exists>m. ConsistentHash_Assign X srt (WithVirtualNodes n ch) ws ps = Inr m \<and> assigns_exactly ws ps m"
  using ConsistentHash_exact[OF assms(1) WithVirtualNodes_ge assms(2-4)] .

text \<open>C23: Consistent hashing moves a minimum of partitions: when a worker \<open>w\<close> joins (or, read
  from right to left, leaves), the partitions of every other worker afterwards are a
  subsequence of those it had before, so a partition changes its worker only to or from \<open>w\<close>.
  The hypothesis is that the hashes of virtual nodes of different workers differ.\<close>

theorem consistent_hash_scale:
  assumes "sort_contract cmp_node srt" "ch_virtualNodes ch \<ge> 1" "ws \<noteq> []" "[] \<notin> set ws'" "keyed ps"
    and "set ws' = insert w (set ws)"
    and "no_collision X (ch_hashSeed ch) (nat (ch_virtualNodes ch)) ws'"
    and "ConsistentHash_Assign X srt ch ws ps = Inr m" "ConsistentHash_Assign X srt ch ws' ps = Inr m'"
    and "v \<noteq> w"
  shows "subseq (map_get [] m' v) (map_get [] m v)"
proof -
  have ne: "ws' \<noteq> []" using assms(6) by (metis insert_not_empty set_empty)
  have nn: "[] \<notin> set ws" using assms(4,6) by blast
  note eq = ConsistentHash_Assign_eq(1)[OF assms(1-3) nn assms(5), of X]
    ConsistentHash_Assign_eq(1)[OF assms(1,2) ne assms(4,5), of X]
  have m: "map_get [] m v = filter (\<lambda>p. ring_owner X srt ch ws p = v) ps"
    and m': "map_get [] m' v = filter (\<lambda>p. ring_owner X srt ch ws' p = v) ps"
    using assms(8,9) eq by (auto simp: fold_append_get[where g = "\<lambda>p. p"])
  have "filter (\<lambda>p. ring_owner X srt ch ws' p = v) ps =
    filter (\<lambda>p. ring_owner X srt ch ws' p = v) (filter (\<lambda>p. ring_owner X srt ch ws p = v) ps)"
    using ring_owner_scale[OF assms(1-3,6) _ assms(7)] assms(5,10)
    by (auto intro!: filter_cong simp: keyed_def)
  then show ?thesis by (simp only: m m' subseq_filter_left)
qed

lemma all_less_2: "(\<forall>i < 2. P i) \<longleftrightarrow> P 0 \<and> P (1 :: nat)"
  by (auto simp: less_2_cases_iff)

theorem consistent_hash_scale_witness:
  "\<exists>m m'. ConsistentHash_Assign poly_xxh3 (sort_by cmp_node) \<lparr>ch_virtualNodes = 2, ch_hashSeed = 0\<rparr>
       [''a''] [\<lparr>Keys = [''x''], Weight = 1, Label = []\<rparr>] = Inr m \<and>
     ConsistentHash_Assign poly_xxh3 (sort_by cmp_node) \<lparr>ch_virtualNodes = 2, ch_hashSeed = 0\<rparr>
       [''a'', ''b''] [\<lparr>Keys = [''x''], Weight = 1, Label = []\<rparr>] = Inr m' \<and>
     subseq (map_get [] m' ''a'') (map_get [] m ''a'')"
proof -
  let ?ch = "\<lparr>ch_virtualNodes = 2, ch_hashSeed = 0\<rparr>" and ?ps = "[\<lparr>Keys = [''x''], Weight = 1, Label = []\<rparr>]"
  note srt = sort_by_contract[OF cmp_total_node]
  obtain m where m: "ConsistentHash_Assign poly_xxh3 (sort_by cmp_node) ?ch [''a''] ?ps = Inr m"
    using ConsistentHash_exact[OF srt, of ?ch "[''a'']" ?ps] by auto
  obtain m' where m': "ConsistentHash_Assign poly_xxh3 (sort_by cmp_node) ?ch [''a'', ''b''] ?ps = Inr m'"
    using ConsistentHash_exact[OF srt, of ?ch "[''a'', ''b'']" ?ps] by auto
  have "no_collision poly_xxh3 0 2 [''a'', ''b'']"
    by (simp add: no_collision_def all_less_2 vnode_hash_def poly_xxh3_def le_bytes_def upt_rec)
  with consistent_hash_scale[OF srt _ _ _ _ _ _ m m', of "''b''" "''a''"]
  show ?thesis using m m' by (simp add: insert_commute)
qed

text \<open>C24: The weighted strategy, on distinct non-empty worker names and partitions with keys,
  assigns every partition exactly once whatever the weights and thresholds are, and keeps the
  ring cache coherent, so the next call may use it.\<close>

theorem weighted_hash_exact:
  assumes "sort_contract cmp_node srtN" "sort_contract cmp_entry srtE" "wch_inv X srtN wch"
    and "workers_ok ws" "keyed ps"
  shows "\<exists>m wch'. WeightedConsistentHash_Assign X srtN srtE wch ws ps = (Inr m, wch') \<and>
    assigns_exactly ws ps m \<and> wch_inv X srtN wch'"
  using wch.exact assms by blast

theorem weighted_hash_exact_witness:
  "\<exists>m wch'. WeightedConsistentHash_Assign poly_xxh3 (sort_by cmp_node) (sort_by cmp_entry)
       (NewWeightedConsistentHash [WithWeightedVirtualNodes 3]) [''w1'', ''w0'']
       [\<lparr>Keys = [''a''], Weight = 900, Label = []\<rparr>, \<lparr>Keys = [''b''], Weight = 1, Label = []\<rparr>] = (Inr m, wch') \<and>
     assigns_exactly [''w1'', ''w0'']
       [\<lparr>Keys = [''a''], Weight = 900, Label = []\<rparr>, \<lparr>Keys = [''b''], Weight = 1, Label = []\<rparr>] m \<and>
     wch_inv poly_xxh3 (sort_by cmp_node) wch'"
  by (rule weighted_hash_exact[OF sort_by_contract[OF cmp_total_node] sort_by_contract[OF cmp_total_entry]
        NewWeightedConsistentHash_inv])
    (auto simp: workers_ok_def WithWeightedVirtualNodes_def)



end
