(* ===== verification/Labels.thy ===== *)
theory Labels
  imports Strategy
begin

text \<open>
  The label pipeline of \<^verbatim>\<open>internal/assignment/labels.go\<close> and
  \<^verbatim>\<open>labels_state.go\<close>: worker pools and partition groups by label, one strategy call
  per group, and the grace clocks that decide whether the partitions of an empty pool are parked
  or spilled. The strategy is the parameter \<open>assign\<close>; its contract is the locale
  \<open>assignment_strategy\<close>, in which the pipeline is verified. A Go map that is only read by key is a
  total function with the zero value for absent keys.
\<close>

section \<open>Topology\<close>

record topology_input =
  ti_Workers :: "string list"
  ti_Labels :: "string \<Rightarrow> string list"
  ti_Unknown :: "(string, bool) gomap"
  ti_Partitions :: "partition list"
  ti_Policy :: string

record label_topology =
  Pools :: "(string, string list) gomap"
  Groups :: "(string, partition list) gomap"
  SortedLabels :: "string list"
  EmptyLabels :: "string list"
  GeneralPool :: "string list"
  FallbackPool :: "string list"
  AllWorkers :: "string list"
  UnknownSet :: "(string, bool) gomap"

datatype emptyPoolAction = emptyPoolPark | emptyPoolSpill

definition add_worker :: "topology_input \<Rightarrow> label_topology \<Rightarrow> string \<Rightarrow> label_topology" where
  "add_worker inp topo w =
     (if map_get False (ti_Unknown inp) w then topo
      else
        let labels = ti_Labels inp w;
            topo = topo\<lparr>AllWorkers := AllWorkers topo @ [w]\<rparr>;
            topo = (if labels = [] then topo\<lparr>FallbackPool := FallbackPool topo @ [w]\<rparr> else topo)
        in topo\<lparr>Pools := foldl (\<lambda>pools l. map_append l [w] pools) (Pools topo) labels\<rparr>)"

definition empty_topology :: "(string, bool) gomap \<Rightarrow> label_topology" where
  "empty_topology unknown =
     \<lparr>Pools = [], Groups = [], SortedLabels = [], EmptyLabels = [], GeneralPool = [], FallbackPool = [],
      AllWorkers = [], UnknownSet = unknown\<rparr>"

definition buildLabelTopology :: "topology_input \<Rightarrow> label_topology" where
  "buildLabelTopology inp =
     (let topo = foldl (add_worker inp) (empty_topology (ti_Unknown inp)) (ti_Workers inp);
          topo = topo\<lparr>AllWorkers := sort (AllWorkers topo), FallbackPool := sort (FallbackPool topo),
                      Pools := map (\<lambda>(l, ws). (l, sort ws)) (Pools topo)\<rparr>;
          topo = topo\<lparr>GeneralPool := (if ti_Policy inp = ''shared'' then AllWorkers topo else FallbackPool topo)\<rparr>;
          topo = topo\<lparr>Groups := foldl (\<lambda>g p. map_append (Label p) [p] g) [] (ti_Partitions inp)\<rparr>;
          labels = filter (\<lambda>l. l \<noteq> []) (map fst (Groups topo))
      in topo\<lparr>SortedLabels := sort labels,
              EmptyLabels := sort (filter (\<lambda>l. map_get [] (Pools topo) l = []) labels)\<rparr>)"

section \<open>Assignment by label\<close>

datatype label_error = NoWorkersFor string | StrategyFailed string strategy_error

type_synonym 's strategy_fn = "'s \<Rightarrow> string list \<Rightarrow> partition list \<Rightarrow> (strategy_error + assignments) \<times> 's"

definition merge_out :: "assignments \<Rightarrow> assignments \<Rightarrow> assignments" where
  "merge_out merged out =
     foldl (\<lambda>m (w, ps). case map_of m w of
              Some cur \<Rightarrow> AList.update w (cur @ ps) m
            | None \<Rightarrow> AList.update w ps m) merged out"

definition assignGroup ::
  "'s strategy_fn \<Rightarrow> label_topology \<Rightarrow> string list \<Rightarrow> partition list \<Rightarrow> string \<Rightarrow> assignments \<Rightarrow> 's
    \<Rightarrow> (label_error + assignments) \<times> 's" where
  "assignGroup assign topo pool grp what merged s =
     (if grp = [] then (Inr merged, s)
      else
        let pool = (if pool = [] then AllWorkers topo else pool) in
        if pool = [] then (Inl (NoWorkersFor what), s)
        else case assign s pool grp of
               (Inl e, s') \<Rightarrow> (Inl (StrategyFailed what e), s')
             | (Inr out, s') \<Rightarrow> (Inr (merge_out merged out), s'))"

fun assign_labels ::
  "'s strategy_fn \<Rightarrow> label_topology \<Rightarrow> (string \<Rightarrow> emptyPoolAction) \<Rightarrow> string list
    \<Rightarrow> assignments \<Rightarrow> partition list \<Rightarrow> 's \<Rightarrow> (label_error + assignments \<times> partition list) \<times> 's" where
  "assign_labels assign topo actions [] merged parked s = (Inr (merged, parked), s)"
| "assign_labels assign topo actions (l # ls) merged parked s =
     (let pool = map_get [] (Pools topo) l; grp = map_get [] (Groups topo) l in
      if pool \<noteq> [] then
        (case assignGroup assign topo pool grp (''label '' @ l) merged s of
           (Inl e, s') \<Rightarrow> (Inl e, s')
         | (Inr m, s') \<Rightarrow> assign_labels assign topo actions ls m parked s')
      else
        (case actions l of
           emptyPoolSpill \<Rightarrow>
             (case assignGroup assign topo (FallbackPool topo) grp (''spilled label '' @ l) merged s of
                (Inl e, s') \<Rightarrow> (Inl e, s')
              | (Inr m, s') \<Rightarrow> assign_labels assign topo actions ls m parked s')
         | emptyPoolPark \<Rightarrow> assign_labels assign topo actions ls merged (parked @ grp) s))"

definition computeLabelAssignments ::
  "'s strategy_fn \<Rightarrow> label_topology \<Rightarrow> (string \<Rightarrow> emptyPoolAction) \<Rightarrow> 's
    \<Rightarrow> (label_error + assignments \<times> partition list) \<times> 's" where
  "computeLabelAssignments assign topo actions s =
     (case assignGroup assign topo (GeneralPool topo) (map_get [] (Groups topo) []) ''unlabeled group'' [] s of
        (Inl e, s') \<Rightarrow> (Inl e, s')
      | (Inr m, s') \<Rightarrow>
          (case assign_labels assign topo actions (SortedLabels topo) m [] s' of
             (Inl e, s'') \<Rightarrow> (Inl e, s'')
           | (Inr (m', parked), s'') \<Rightarrow>
               let m' = foldl (\<lambda>m w. if has_key m w then m else AList.update w [] m) m' (AllWorkers topo);
                   m' = foldl (\<lambda>m w. AList.update w [] m) m' (map fst (UnknownSet topo))
               in (Inr (m', parked), s'')))"

section \<open>Grace clocks\<close>

record label_state =
  ls_grace :: duration
  ls_emptySince :: "(string, time) gomap"
  ls_emptyStreak :: "string \<Rightarrow> int"
  ls_unknownStreak :: "(string, int) gomap"

definition newLabelState :: "duration \<Rightarrow> label_state" where
  "newLabelState grace = \<lparr>ls_grace = grace, ls_emptySince = [], ls_emptyStreak = (\<lambda>_. 0), ls_unknownStreak = []\<rparr>"

definition observe_empty ::
  "time \<Rightarrow> label_state \<times> (string, emptyPoolAction) gomap \<times> bool \<Rightarrow> string
    \<Rightarrow> label_state \<times> (string, emptyPoolAction) gomap \<times> bool" where
  "observe_empty now acc l =
     (let (s, actions, deferred) = acc;
          s = (if has_key (ls_emptySince s) l then s
               else s\<lparr>ls_emptySince := AList.update l now (ls_emptySince s)\<rparr>);
          s = s\<lparr>ls_emptyStreak := (ls_emptyStreak s)(l := ls_emptyStreak s l + 1)\<rparr>
      in if ls_emptyStreak s l < 2 then (s, actions, True)
         else if time_sub now (map_get 0 (ls_emptySince s) l) < ls_grace s
              then (s, AList.update l emptyPoolPark actions, deferred)
              else (s, AList.update l emptyPoolSpill actions, deferred))"

definition observeEmptyPools ::
  "time \<Rightarrow> string list \<Rightarrow> label_state \<Rightarrow> label_state \<times> (string, emptyPoolAction) gomap \<times> bool" where
  "observeEmptyPools now empties s = foldl (observe_empty now) (s, [], False) empties"

definition observeNonEmpty :: "string list \<Rightarrow> label_state \<Rightarrow> label_state" where
  "observeNonEmpty labels s =
     foldl (\<lambda>s l. s\<lparr>ls_emptySince := AList.delete l (ls_emptySince s),
                     ls_emptyStreak := (ls_emptyStreak s)(l := 0)\<rparr>) s labels"

definition observeUnknownWorkers :: "string list \<Rightarrow> label_state \<Rightarrow> label_state \<times> bool" where
  "observeUnknownWorkers unknown s =
     (if unknown = [] then (s\<lparr>ls_unknownStreak := []\<rparr>, False)
      else
        let (streak, deferred) =
              foldl (\<lambda>(m, d) w. let n = map_get 0 m w + 1 in (AList.update w n m, d \<or> n < 2))
                (ls_unknownStreak s, False) unknown
        in (s\<lparr>ls_unknownStreak := filter (\<lambda>(w, _). w \<in> set unknown) streak\<rparr>, deferred))"

definition prune :: "(string \<Rightarrow> bool) \<Rightarrow> label_state \<Rightarrow> label_state" where
  "prune currentLabels s =
     foldl (\<lambda>s l. if currentLabels l then s
                   else s\<lparr>ls_emptySince := AList.delete l (ls_emptySince s),
                          ls_emptyStreak := (ls_emptyStreak s)(l := 0)\<rparr>)
       s (map fst (ls_emptySince s))"

definition minRemainingGrace :: "time \<Rightarrow> label_state \<Rightarrow> duration \<times> bool" where
  "minRemainingGrace now s =
     foldl (\<lambda>(minLeft, found) (_, since).
              let left = wrap64 (ls_grace s - time_sub now since);
                  left = (if left < 0 then 0 else left)
              in if \<not> found \<or> left < minLeft then (left, True) else (minLeft, found))
       (0, False) (ls_emptySince s)"

section \<open>Lemmas on the topology\<close>

definition topology_ok :: "topology_input \<Rightarrow> bool" where
  "topology_ok inp \<longleftrightarrow> distinct (ti_Workers inp) \<and> [] \<notin> set (ti_Workers inp) \<and>
     (\<forall>w. distinct (ti_Labels inp w)) \<and> gomap_wf (ti_Unknown inp) \<and> (\<forall>(w, b) \<in> set (ti_Unknown inp). b) \<and>
     keyed (ti_Partitions inp)"

definition known_workers :: "topology_input \<Rightarrow> string list" where
  "known_workers inp = filter (\<lambda>w. \<not> map_get False (ti_Unknown inp) w) (ti_Workers inp)"

lemma pools_fold:
  "map_get [] (foldl (\<lambda>pools l. map_append l [w] pools) pools ls) l =
     map_get [] pools l @ replicate (count_list ls l) w"
  by (induction ls arbitrary: pools) (auto simp: map_simps simp flip: replicate_append_same)

lemma add_worker_fields [simp]:
  "Groups (add_worker inp t w) = Groups t" "UnknownSet (add_worker inp t w) = UnknownSet t"
  "SortedLabels (add_worker inp t w) = SortedLabels t"
  by (simp_all add: add_worker_def Let_def)

lemma fold_add_worker:
  fixes inp :: topology_input
  defines "kn \<equiv> filter (\<lambda>w. \<not> map_get False (ti_Unknown inp) w)"
  shows "AllWorkers (foldl (add_worker inp) t ws) = AllWorkers t @ kn ws"
    and "FallbackPool (foldl (add_worker inp) t ws) = FallbackPool t @ filter (\<lambda>w. ti_Labels inp w = []) (kn ws)"
    and "map_get [] (Pools (foldl (add_worker inp) t ws)) l =
      map_get [] (Pools t) l @ concat (map (\<lambda>w. replicate (count_list (ti_Labels inp w) l) w) (kn ws))"
    and "UnknownSet (foldl (add_worker inp) t ws) = UnknownSet t"
  unfolding kn_def
  by (induction ws arbitrary: t) (auto simp: add_worker_def Let_def pools_fold)

lemma map_get_map_snd: "map_get [] (map (\<lambda>(l, ws). (l, sort ws)) m) l = sort (map_get [] m l)"
  by (induction m) (auto simp: map_get_def)

lemma count_list_distinct: "distinct xs \<Longrightarrow> count_list xs x = (if x \<in> set xs then 1 else 0)"
  by (induction xs) auto

lemma replicate_pool:
  "(\<And>w. distinct (f w)) \<Longrightarrow> concat (map (\<lambda>w. replicate (count_list (f w) l) w) ws) = filter (\<lambda>w. l \<in> set (f w)) ws"
  by (induction ws) (auto simp: count_list_distinct)

lemma topology_pools:
  assumes "topology_ok inp"
  shows "AllWorkers (buildLabelTopology inp) = sort (known_workers inp)"
    and "FallbackPool (buildLabelTopology inp) = sort (filter (\<lambda>w. ti_Labels inp w = []) (known_workers inp))"
    and "GeneralPool (buildLabelTopology inp) = (if ti_Policy inp = ''shared''
      then AllWorkers (buildLabelTopology inp) else FallbackPool (buildLabelTopology inp))"
    and "map_get [] (Pools (buildLabelTopology inp)) l = sort (filter (\<lambda>w. l \<in> set (ti_Labels inp w)) (known_workers inp))"
    and "UnknownSet (buildLabelTopology inp) = ti_Unknown inp"
proof -
  have "\<And>w. distinct (ti_Labels inp w)" using assms by (simp add: topology_ok_def)
  from replicate_pool[of "ti_Labels inp", OF this]
  show "map_get [] (Pools (buildLabelTopology inp)) l = sort (filter (\<lambda>w. l \<in> set (ti_Labels inp w)) (known_workers inp))"
    by (simp add: buildLabelTopology_def Let_def map_get_map_snd fold_add_worker known_workers_def empty_topology_def)
       (simp add: map_get_def)
qed (simp_all add: buildLabelTopology_def Let_def fold_add_worker known_workers_def empty_topology_def)

lemma topology_groups:
  shows "map_get [] (Groups (buildLabelTopology inp)) l = filter (\<lambda>p. Label p = l) (ti_Partitions inp)"
    and "gomap_wf (Groups (buildLabelTopology inp))"
    and "mset (all_vals (Groups (buildLabelTopology inp))) = mset (ti_Partitions inp)"
    and "SortedLabels (buildLabelTopology inp) = sort (filter (\<lambda>l. l \<noteq> []) (map fst (Groups (buildLabelTopology inp))))"
proof -
  have wf: "gomap_wf (foldl (\<lambda>g p. map_append (Label p) [p] g) m ps) \<longleftrightarrow> gomap_wf m" for m ps
    by (induction ps arbitrary: m) (auto simp: map_simps)
  have ms: "mset (all_vals (foldl (\<lambda>g p. map_append (Label p) [p] g) m ps)) = mset (all_vals m) + mset ps"
    for m :: "(string, partition list) gomap" and ps
    by (induction ps arbitrary: m) (auto simp: map_append_mset)
  show "map_get [] (Groups (buildLabelTopology inp)) l = filter (\<lambda>p. Label p = l) (ti_Partitions inp)"
    using fold_append_get[where g = "\<lambda>p. p" and f = Label and m = "[]" and xs = "ti_Partitions inp"]
    by (simp add: buildLabelTopology_def Let_def map_get_def)
  show "gomap_wf (Groups (buildLabelTopology inp))"
    by (simp add: buildLabelTopology_def Let_def wf) (simp add: gomap_wf_def)
  show "mset (all_vals (Groups (buildLabelTopology inp))) = mset (ti_Partitions inp)"
    unfolding buildLabelTopology_def Let_def by (simp add: ms del: mset_concat)
qed (simp add: buildLabelTopology_def Let_def)

text \<open>The groups, the unlabeled one first and then in label order, are the partitions.\<close>

lemma sum_groups:
  assumes "gomap_wf m"
  shows "mset (all_vals m) = (\<Sum>k \<in> fst ` set m. mset (map_get [] m k))"
  using assms
proof (induction m)
  case (Cons kv m)
  obtain k v where kv: "kv = (k, v)" by (cases kv)
  have k: "k \<notin> fst ` set m" using Cons.prems kv by (auto simp: gomap_wf_def)
  have "(\<Sum>k' \<in> fst ` set m. mset (map_get [] ((k, v) # m) k')) = (\<Sum>k' \<in> fst ` set m. mset (map_get [] m k'))"
    using k by (intro sum.cong) (auto simp: map_get_def)
  with Cons k kv show ?case by (simp add: gomap_wf_def) (simp add: map_get_def)
qed simp

lemma groups_sum:
  "mset (map_get [] (Groups (buildLabelTopology inp)) []) +
     (\<Sum>l \<leftarrow> SortedLabels (buildLabelTopology inp). mset (map_get [] (Groups (buildLabelTopology inp)) l)) =
   mset (ti_Partitions inp)"
proof -
  let ?g = "Groups (buildLabelTopology inp)" and ?f = "\<lambda>l. mset (map_get [] (Groups (buildLabelTopology inp)) l)"
  let ?L = "SortedLabels (buildLabelTopology inp)"
  have d: "distinct ?L" and L: "set ?L = fst ` set ?g - {[]}"
    using topology_groups(2)[of inp] by (auto simp: topology_groups(4) gomap_wf_def)
  have "?f [] = {#}" if "[] \<notin> fst ` set ?g"
    using that by (metis has_key_def has_key_lookup map_get_def mset_zero_iff option.simps(4))
  then have "(\<Sum>k \<in> fst ` set ?g. ?f k) = ?f [] + (\<Sum>k \<in> set ?L. ?f k)"
    unfolding L by (cases "[] \<in> fst ` set ?g") (simp_all add: sum.remove)
  with d show ?thesis
    using sum_groups[OF topology_groups(2)[of inp]] by (simp add: sum_list_distinct_conv_sum_set topology_groups(3))
qed

section \<open>The pipeline over any strategy that meets the contract\<close>

text \<open>The pool that serves a label: \<open>None\<close> when its partitions are parked.\<close>

definition rung :: "label_topology \<Rightarrow> string list \<Rightarrow> string list" where
  "rung topo pool = (if pool = [] then AllWorkers topo else pool)"

definition target_pool :: "label_topology \<Rightarrow> (string \<Rightarrow> emptyPoolAction) \<Rightarrow> string \<Rightarrow> string list option" where
  "target_pool topo actions l =
     (if l = [] then Some (rung topo (GeneralPool topo))
      else if map_get [] (Pools topo) l \<noteq> [] then Some (map_get [] (Pools topo) l)
      else case actions l of emptyPoolSpill \<Rightarrow> Some (rung topo (FallbackPool topo)) | emptyPoolPark \<Rightarrow> None)"

text \<open>Every pool that serves a label is a set of active workers.\<close>

definition pools_ok :: "label_topology \<Rightarrow> (string \<Rightarrow> emptyPoolAction) \<Rightarrow> bool" where
  "pools_ok topo actions \<longleftrightarrow>
     (\<forall>l pool. target_pool topo actions l = Some pool \<longrightarrow> workers_ok pool \<and> set pool \<subseteq> set (AllWorkers topo))"

text \<open>What one or several strategy calls add to the merged map.\<close>

definition extends :: "assignments \<Rightarrow> assignments \<Rightarrow> partition multiset \<Rightarrow> (string \<Rightarrow> partition \<Rightarrow> bool) \<Rightarrow> string set \<Rightarrow> bool" where
  "extends m m' added place W \<longleftrightarrow> gomap_wf m' \<and> mset (all_vals m') = mset (all_vals m) + added \<and>
     fst ` set m' \<subseteq> fst ` set m \<union> W \<and>
     (\<forall>w p. p \<in> set (map_get [] m' w) \<longrightarrow> p \<in> set (map_get [] m w) \<or> place w p)"

lemma extends_refl: "gomap_wf m \<Longrightarrow> extends m m {#} place W"
  by (simp add: extends_def)

lemma extendsD:
  assumes "extends m m' a P W"
  shows "gomap_wf m'" "mset (all_vals m') = mset (all_vals m) + a" "fst ` set m' \<subseteq> fst ` set m \<union> W"
    "p \<in> set (map_get [] m' w) \<Longrightarrow> p \<in> set (map_get [] m w) \<or> P w p"
  using assms unfolding extends_def by blast+

lemma extends_trans:
  assumes "extends m m' a P W" "extends m' m'' b Q W"
  shows "extends m m'' (a + b) (\<lambda>w p. P w p \<or> Q w p) W"
  unfolding extends_def
proof (intro conjI allI impI)
  show "gomap_wf m''" by (rule extendsD(1)[OF assms(2)])
  show "mset (all_vals m'') = mset (all_vals m) + (a + b)"
    unfolding extendsD(2)[OF assms(2)] extendsD(2)[OF assms(1)] by (simp only: add.assoc)
  show "fst ` set m'' \<subseteq> fst ` set m \<union> W"
    using extendsD(3)[OF assms(1)] extendsD(3)[OF assms(2)] by blast
  show "p \<in> set (map_get [] m w) \<or> P w p \<or> Q w p" if "p \<in> set (map_get [] m'' w)" for w p
    using extendsD(4)[OF assms(1), of p w] extendsD(4)[OF assms(2) that] by blast
qed

lemma extends_mono:
  assumes "extends m m' a P W" "\<And>w p. P w p \<Longrightarrow> Q w p" "W \<subseteq> W'"
  shows "extends m m' a Q W'"
  unfolding extends_def
proof (intro conjI allI impI)
  show "fst ` set m' \<subseteq> fst ` set m \<union> W'" using extendsD(3)[OF assms(1)] assms(3) by blast
  show "p \<in> set (map_get [] m w) \<or> Q w p" if "p \<in> set (map_get [] m' w)" for w p
    using extendsD(4)[OF assms(1) that] assms(2)[of w p] by blast
qed (fact extendsD(1,2)[OF assms(1)])+

lemma update_append_step:
  "(case map_of m w of Some cur \<Rightarrow> AList.update w (cur @ ps) m | None \<Rightarrow> AList.update w ps m) = map_append w ps m"
  by (induction m) (auto split: option.splits)

lemma merge_out_fold: "merge_out m out = foldl (\<lambda>m (w, ps). map_append w ps m) m out"
  unfolding merge_out_def update_append_step ..

lemma merge_out_props:
  "gomap_wf m \<Longrightarrow> gomap_wf (merge_out m out)"
  "mset (all_vals (merge_out m out)) = mset (all_vals m) + mset (all_vals out)"
  "fst ` set (merge_out m out) = fst ` set m \<union> fst ` set out"
  "p \<in> set (map_get [] (merge_out m out) w) \<Longrightarrow> p \<in> set (map_get [] m w) \<or> (\<exists>ps. (w, ps) \<in> set out \<and> p \<in> set ps)"
  unfolding merge_out_fold
proof (induction out arbitrary: m)
  case (Cons x out)
  {
    case 1 then show ?case using Cons.IH(1) by (cases x) (simp add: map_simps)
  next
    case 2 then show ?case using Cons.IH(2) by (cases x) (simp add: map_append_mset del: mset_concat)
  next
    case 3 then show ?case using Cons.IH(3) by (cases x) (auto simp: map_simps)
  next
    case 4 then show ?case using Cons.IH(4) by (cases x) (fastforce simp: map_simps split: if_splits)
  }
qed auto

lemma merge_out_extends:
  assumes "gomap_wf m" "assigns_exactly ws ps out" "set ws \<subseteq> W"
  shows "extends m (merge_out m out) (mset ps) (\<lambda>w p. w \<in> set ws \<and> p \<in> set ps) W"
proof -
  have out: "fst ` set out = set ws" "mset (all_vals out) = mset ps"
    using assms(2) by (simp_all only: assigns_exactly_def)
  have vals: "p \<in> set ps" if "(w, qs) \<in> set out" "p \<in> set qs" for w qs p
    using mset_eq_setD[OF out(2)] that by (force simp: set_eq_iff)
  have keys: "w \<in> set ws" if "(w, qs) \<in> set out" for w qs
    using out(1) that by force
  show ?thesis
    unfolding extends_def
  proof (intro conjI allI impI)
    show "gomap_wf (merge_out m out)" by (rule merge_out_props(1)[OF assms(1)])
    show "mset (all_vals (merge_out m out)) = mset (all_vals m) + mset ps"
      unfolding merge_out_props(2) out(2) ..
    show "fst ` set (merge_out m out) \<subseteq> fst ` set m \<union> W"
      unfolding merge_out_props(3) out(1) using assms(3) by blast
    show "p \<in> set (map_get [] m w) \<or> w \<in> set ws \<and> p \<in> set ps" if "p \<in> set (map_get [] (merge_out m out) w)" for w p
      using merge_out_props(4)[OF that] vals keys by blast
  qed
qed

text \<open>The explicit empty entries added at the end change no assignment.\<close>

lemma update_nil:
  assumes "map_get [] m w = []"
  shows "mset (all_vals (AList.update w [] m)) = mset (all_vals m)"
    and "map_get [] (AList.update w [] m) v = map_get [] m v"
proof -
  show "mset (all_vals (AList.update w [] m)) = mset (all_vals m)"
    using assms by (induction m) (auto simp: map_get_def)
  show "map_get [] (AList.update w [] m) v = map_get [] m v"
    using assms by (auto simp: map_get_def map_simps)
qed

lemma fill_missing:
  "gomap_wf m \<Longrightarrow> extends m (foldl (\<lambda>m w. if has_key m w then m else AList.update w [] m) m ws) {#} P (set ws) \<and>
   fst ` set (foldl (\<lambda>m w. if has_key m w then m else AList.update w [] m) m ws) = fst ` set m \<union> set ws"
proof (induction ws arbitrary: m)
  case (Cons w ws)
  let ?m = "if has_key m w then m else AList.update w [] m"
  have nil: "\<not> has_key m w \<Longrightarrow> map_get [] m w = []"
    by (simp add: has_key_lookup map_get_def)
  have 1: "extends m ?m {#} P (set (w # ws))" "fst ` set ?m = insert w (fst ` set m)"
    using Cons.prems update_nil[OF nil] by (auto simp: extends_def map_simps has_key_def)
  have 2: "extends ?m (foldl (\<lambda>m w. if has_key m w then m else AList.update w [] m) ?m ws) {#} P (set (w # ws))"
    by (rule extends_mono[OF conjunct1[OF Cons.IH[OF extendsD(1)[OF 1(1)]]]]) auto
  from extends_trans[OF 1(1) 2] show ?case
    unfolding foldl_Cons conjunct2[OF Cons.IH[OF extendsD(1)[OF 1(1)]]] 1(2)
    by (simp only: disj_absorb add_0) auto
qed (simp add: extends_refl)

lemma fill_unknown:
  "gomap_wf m \<Longrightarrow> (\<forall>w \<in> set ws. map_get [] m w = []) \<Longrightarrow>
   extends m (foldl (\<lambda>m w. AList.update w [] m) m ws) {#} P (set ws) \<and>
   fst ` set (foldl (\<lambda>m w. AList.update w [] m) m ws) = fst ` set m \<union> set ws"
proof (induction ws arbitrary: m)
  case (Cons w ws)
  let ?m = "AList.update w [] m"
  have nil: "map_get [] m w = []" and rest: "\<forall>v \<in> set ws. map_get [] ?m v = []"
    using Cons.prems(2) update_nil(2)[of m w] by auto
  have 1: "extends m ?m {#} P (set (w # ws))" "fst ` set ?m = insert w (fst ` set m)"
    using Cons.prems(1) update_nil[OF nil] by (auto simp: extends_def map_simps)
  note ih = Cons.IH[OF extendsD(1)[OF 1(1)] rest]
  have 2: "extends ?m (foldl (\<lambda>m w. AList.update w [] m) ?m ws) {#} P (set (w # ws))"
    by (rule extends_mono[OF conjunct1[OF ih]]) auto
  from extends_trans[OF 1(1) 2] show ?case
    unfolding foldl_Cons conjunct2[OF ih] 1(2) by (simp only: disj_absorb add_0) auto
qed (simp add: extends_refl)

text \<open>The topology meets what the pipeline needs.\<close>

lemma workers_ok_sort_filter:
  "topology_ok inp \<Longrightarrow> filter P (known_workers inp) \<noteq> [] \<Longrightarrow> workers_ok (sort (filter P (known_workers inp)))"
  by (auto simp: workers_ok_def topology_ok_def known_workers_def)

lemma topology_pools_ok:
  assumes "topology_ok inp" "known_workers inp \<noteq> []"
  shows "pools_ok (buildLabelTopology inp) actions"
proof -
  have all: "workers_ok (sort (known_workers inp))"
    using workers_ok_sort_filter[OF assms(1), of "\<lambda>_. True"] assms(2) by simp
  note tp = topology_pools[OF assms(1)]
  show ?thesis
    unfolding pools_ok_def target_pool_def rung_def tp
    using all workers_ok_sort_filter[OF assms(1)]
    by (auto split: if_splits emptyPoolAction.splits)
qed

lemma topology_unknown_disjoint:
  "topology_ok inp \<Longrightarrow> (w, b) \<in> set (ti_Unknown inp) \<Longrightarrow> w \<notin> set (known_workers inp)"
  by (auto simp: topology_ok_def known_workers_def map_get_def gomap_wf_def)

context assignment_strategy
begin

lemma assignGroup_exact:
  assumes "inv s" "keyed grp" "grp \<noteq> [] \<Longrightarrow> workers_ok (rung topo pool)" "set (rung topo pool) \<subseteq> W" "gomap_wf m"
  shows "\<exists>m' s'. assignGroup assign topo pool grp what m s = (Inr m', s') \<and> inv s' \<and>
    extends m m' (mset grp) (\<lambda>w p. w \<in> set (rung topo pool) \<and> p \<in> set grp) W"
proof (cases "grp = []")
  case False
  note ok = assms(3)[OF False]
  obtain out s' where "assign s (rung topo pool) grp = (Inr out, s')" "assigns_exactly (rung topo pool) grp out" "inv s'"
    using exact[OF assms(1) ok assms(2)] by blast
  then show ?thesis
    using False ok merge_out_extends[OF assms(5) _ assms(4)]
    by (auto simp: assignGroup_def rung_def[symmetric] workers_ok_def Let_def)
qed (use assms in \<open>auto simp: assignGroup_def extends_refl\<close>)

lemma assign_labels_exact:
  assumes "inv s" "gomap_wf m" "pools_ok topo actions" "[] \<notin> set ls"
    and "\<And>l. keyed (map_get [] (Groups topo) l)"
  shows "\<exists>m' pk' s' a. assign_labels assign topo actions ls m pk s = (Inr (m', pk @ pk'), s') \<and> inv s' \<and>
    extends m m' a (\<lambda>w p. \<exists>l pool. l \<in> set ls \<and> p \<in> set (map_get [] (Groups topo) l) \<and>
      target_pool topo actions l = Some pool \<and> w \<in> set pool) (set (AllWorkers topo)) \<and>
    a + mset pk' = (\<Sum>l \<leftarrow> ls. mset (map_get [] (Groups topo) l)) \<and>
    (\<forall>p \<in> set pk'. \<exists>l \<in> set ls. p \<in> set (map_get [] (Groups topo) l) \<and> target_pool topo actions l = None)"
  using assms(1,2,4)
proof (induction ls arbitrary: m pk s)
  case (Cons l ls)
  let ?g = "map_get [] (Groups topo) l" and ?t = "target_pool topo actions l"
  let ?P = "\<lambda>ls w p. \<exists>l pool. l \<in> set ls \<and> p \<in> set (map_get [] (Groups topo) l) \<and>
      target_pool topo actions l = Some pool \<and> w \<in> set pool"
  have l: "l \<noteq> []" using Cons.prems(3) by auto
  show ?case
  proof (cases ?t)
    case None
    then have st: "assign_labels assign topo actions (l # ls) m pk s = assign_labels assign topo actions ls m (pk @ ?g) s"
      using l by (auto simp: target_pool_def split: if_splits emptyPoolAction.splits)
    obtain m' pk' s' a where "assign_labels assign topo actions ls m (pk @ ?g) s = (Inr (m', (pk @ ?g) @ pk'), s')" "inv s'"
      "extends m m' a (?P ls) (set (AllWorkers topo))" "a + mset pk' = (\<Sum>l \<leftarrow> ls. mset (map_get [] (Groups topo) l))"
      "\<forall>p \<in> set pk'. \<exists>l \<in> set ls. p \<in> set (map_get [] (Groups topo) l) \<and> target_pool topo actions l = None"
      using Cons.IH[of s m "pk @ ?g"] Cons.prems by auto
    with None show ?thesis unfolding st
      by (intro exI[of _ m'] exI[of _ "?g @ pk'"] exI[of _ s'] exI[of _ a])
        (auto simp: add_ac intro: extends_mono)
  next
    case (Some pool)
    then have ok: "workers_ok pool" "set pool \<subseteq> set (AllWorkers topo)" using assms(3) by (auto simp: pools_ok_def)
    obtain pool' what where pw: "pool = rung topo pool'" "\<And>m pk s.
      assign_labels assign topo actions (l # ls) m pk s =
        (case assignGroup assign topo pool' ?g what m s of (Inl e, s') \<Rightarrow> (Inl e, s')
         | (Inr m, s') \<Rightarrow> assign_labels assign topo actions ls m pk s')"
    proof (cases "map_get [] (Pools topo) l = []")
      case True
      with Some l have "actions l = emptyPoolSpill" "pool = rung topo (FallbackPool topo)"
        by (auto simp: target_pool_def split: if_splits emptyPoolAction.splits)
      with True show thesis by (intro that[of "FallbackPool topo" "''spilled label '' @ l"]) simp_all
    next
      case False
      with Some l have "pool = rung topo (map_get [] (Pools topo) l)" by (simp add: target_pool_def rung_def)
      with False show thesis by (intro that[of "map_get [] (Pools topo) l" "''label '' @ l"]) simp_all
    qed
    obtain m1 s1 where 1: "assignGroup assign topo pool' ?g what m s = (Inr m1, s1)" "inv s1"
      "extends m m1 (mset ?g) (\<lambda>w p. w \<in> set pool \<and> p \<in> set ?g) (set (AllWorkers topo))"
      using assignGroup_exact[OF Cons.prems(1) assms(5)] ok Cons.prems(2) pw(1) by metis
    obtain m' pk' s' a where 2: "assign_labels assign topo actions ls m1 pk s1 = (Inr (m', pk @ pk'), s')" "inv s'"
      "extends m1 m' a (?P ls) (set (AllWorkers topo))" "a + mset pk' = (\<Sum>l \<leftarrow> ls. mset (map_get [] (Groups topo) l))"
      "\<forall>p \<in> set pk'. \<exists>l \<in> set ls. p \<in> set (map_get [] (Groups topo) l) \<and> target_pool topo actions l = None"
      using Cons.IH[of s1 m1 pk] Cons.prems 1 by (auto simp: extends_def)
    have "extends m m' (mset ?g + a) (?P (l # ls)) (set (AllWorkers topo))"
      by (rule extends_mono[OF extends_trans[OF 1(3) 2(3)]]) (use Some in auto)
    with 1 2 show ?thesis unfolding pw(2)
      by (intro exI[of _ m'] exI[of _ pk'] exI[of _ s'] exI[of _ "mset ?g + a"]) (auto simp: add_ac)
  qed
qed (use extends_refl in auto)

lemma computeLabelAssignments_exact:
  assumes inv: "inv s" and ok: "topology_ok inp" and kn: "known_workers inp \<noteq> []"
    and topo: "topo = buildLabelTopology inp"
  shows "\<exists>m parked s'. computeLabelAssignments assign topo actions s = (Inr (m, parked), s') \<and> inv s' \<and>
    gomap_wf m \<and> fst ` set m = set (known_workers inp) \<union> fst ` set (ti_Unknown inp) \<and>
    mset (all_vals m) + mset parked = mset (ti_Partitions inp) \<and>
    (\<forall>w. \<forall>p \<in> set (map_get [] m w). \<exists>pool. target_pool topo actions (Label p) = Some pool \<and> w \<in> set pool) \<and>
    (\<forall>p \<in> set parked. target_pool topo actions (Label p) = None)"
proof -
  let ?G = "\<lambda>l. map_get [] (Groups topo) l" and ?W = "set (AllWorkers topo)" and ?t = "target_pool topo actions"
  let ?placed = "\<lambda>w p. \<exists>pool. ?t (Label p) = Some pool \<and> w \<in> set pool"
  have pok: "pools_ok topo actions" using topology_pools_ok[OF ok kn] topo by simp
  have grp: "?G l = filter (\<lambda>p. Label p = l) (ti_Partitions inp)" for l by (simp add: topo topology_groups(1))
  then have key: "keyed (?G l)" for l using ok by (simp add: topology_ok_def)
  have W: "?W = set (known_workers inp)" by (simp add: topo topology_pools(1)[OF ok])
  have "?t [] = Some (rung topo (GeneralPool topo))" by (simp add: target_pool_def)
  then have gen: "workers_ok (rung topo (GeneralPool topo))" "set (rung topo (GeneralPool topo)) \<subseteq> ?W"
    using pok by (auto simp: pools_ok_def)
  obtain m1 s1 where 1: "assignGroup assign topo (GeneralPool topo) (?G []) ''unlabeled group'' [] s = (Inr m1, s1)"
    "inv s1" "extends [] m1 (mset (?G [])) (\<lambda>w p. w \<in> set (rung topo (GeneralPool topo)) \<and> p \<in> set (?G [])) ?W"
    using assignGroup_exact[OF inv key gen, of "[]" "[]" "''unlabeled group''"] by (auto simp: gomap_wf_def)
  have ne: "[] \<notin> set (SortedLabels topo)" by (simp add: topo topology_groups(4))
  obtain m2 parked s2 a where 2: "assign_labels assign topo actions (SortedLabels topo) m1 [] s1 = (Inr (m2, parked), s2)"
    "inv s2" "extends m1 m2 a (\<lambda>w p. \<exists>l pool. l \<in> set (SortedLabels topo) \<and> p \<in> set (?G l) \<and> ?t l = Some pool \<and> w \<in> set pool) ?W"
    "a + mset parked = (\<Sum>l \<leftarrow> SortedLabels topo. mset (?G l))"
    "\<forall>p \<in> set parked. \<exists>l \<in> set (SortedLabels topo). p \<in> set (?G l) \<and> ?t l = None"
    using assign_labels_exact[OF 1(2) extendsD(1)[OF 1(3)] pok ne key, of "[]"] by auto
  have 12: "extends [] m2 (mset (?G []) + a) ?placed ?W"
    by (rule extends_mono[OF extends_trans[OF 1(3) 2(3)]]) (auto simp: grp target_pool_def)
  define m3 where "m3 = foldl (\<lambda>m w. if has_key m w then m else AList.update w [] m) m2 (AllWorkers topo)"
  have 3: "extends m2 m3 {#} ?placed ?W" "fst ` set m3 = ?W"
    using fill_missing[OF extendsD(1)[OF 12], of "AllWorkers topo" ?placed] extendsD(3)[OF 12] by (auto simp: m3_def)
  have "map_get [] m3 w = []" if "w \<in> set (map fst (ti_Unknown inp))" for w
  proof -
    have "w \<notin> fst ` set m3" using that topology_unknown_disjoint[OF ok, of w] W 3(2) by auto
    then show ?thesis by (simp add: map_get_def map_of_eq_None_iff[THEN iffD2])
  qed
  then have 4: "extends m3 (foldl (\<lambda>m w. AList.update w [] m) m3 (map fst (ti_Unknown inp))) {#} ?placed (set (map fst (ti_Unknown inp)))"
    "fst ` set (foldl (\<lambda>m w. AList.update w [] m) m3 (map fst (ti_Unknown inp))) = ?W \<union> fst ` set (ti_Unknown inp)"
    using fill_unknown[OF extendsD(1)[OF 3(1)], of "map fst (ti_Unknown inp)" ?placed] 3(2) by auto
  let ?m4 = "foldl (\<lambda>m w. AList.update w [] m) m3 (map fst (ti_Unknown inp))"
  have tot: "mset (all_vals ?m4) + mset parked = mset (ti_Partitions inp)"
    using extendsD(2)[OF 4(1)] extendsD(2)[OF 3(1)] extendsD(2)[OF 12] 2(4) groups_sum[of inp]
    by (simp add: topo add.assoc)
  have pl: "?placed w p" if "p \<in> set (map_get [] ?m4 w)" for w p
    using extendsD(4)[OF 4(1) that] extendsD(4)[OF 3(1), of p w] extendsD(4)[OF 12, of p w] by (auto simp: map_get_def)
  have "computeLabelAssignments assign topo actions s = (Inr (?m4, parked), s2)"
    using 1(1) 2(1) by (simp add: computeLabelAssignments_def Let_def m3_def topo topology_pools(5)[OF ok])
  moreover have "\<forall>p \<in> set parked. ?t (Label p) = None" using 2(5) by (auto simp: grp)
  ultimately show ?thesis
    using 2(2) extendsD(1)[OF 4(1)] 4(2)[unfolded W] tot pl
    by (intro exI[of _ ?m4] exI[of _ parked] exI[of _ s2] conjI allI ballI) blast+
qed

end

section \<open>Lemmas on the grace clocks\<close>

text \<open>The calls of one leader term, latest first, and the reference semantics of the clocks: a
  label's clock starts at its first empty observation and runs until the pool is seen non-empty
  or the label leaves the snapshot.\<close>

datatype label_event = ObserveEmpty time "string list" | ObserveNonEmpty "string list" | Prune "string \<Rightarrow> bool"

primrec ls_run :: "duration \<Rightarrow> label_event list \<Rightarrow> label_state" where
  "ls_run grace [] = newLabelState grace"
| "ls_run grace (e # h) =
     (case e of
        ObserveEmpty now empties \<Rightarrow> fst (observeEmptyPools now empties (ls_run grace h))
      | ObserveNonEmpty labels \<Rightarrow> observeNonEmpty labels (ls_run grace h)
      | Prune cur \<Rightarrow> prune cur (ls_run grace h))"

primrec empty_times :: "string \<Rightarrow> label_event list \<Rightarrow> time list" where
  "empty_times l [] = []"
| "empty_times l (e # h) =
     (case e of
        ObserveEmpty now empties \<Rightarrow> if l \<in> set empties then empty_times l h @ [now] else empty_times l h
      | ObserveNonEmpty labels \<Rightarrow> if l \<in> set labels then [] else empty_times l h
      | Prune cur \<Rightarrow> if cur l then empty_times l h else [])"

text \<open>The state after a history shows, for every label, the empty observations of the current
  run: their number and the time of the first one.\<close>

definition first_of :: "'a list \<Rightarrow> 'a option" where
  "first_of xs = (case xs of [] \<Rightarrow> None | x # _ \<Rightarrow> Some x)"

lemma first_of_simps [simp]:
  "first_of [] = None" "first_of (x # xs) = Some x" "first_of xs = None \<longleftrightarrow> xs = []"
  "xs \<noteq> [] \<Longrightarrow> first_of (xs @ ys) = first_of xs"
  by (auto simp: first_of_def split: list.splits)

definition tracks :: "label_state \<Rightarrow> (string \<Rightarrow> time list) \<Rightarrow> bool" where
  "tracks s ts \<longleftrightarrow> (\<forall>l. ls_emptyStreak s l = int (length (ts l)) \<and> map_of (ls_emptySince s) l = first_of (ts l))"

lemma tracks_has_key: "tracks s ts \<Longrightarrow> has_key (ls_emptySince s) l \<longleftrightarrow> ts l \<noteq> []"
  by (auto simp: tracks_def has_key_lookup)

definition action_for :: "duration \<Rightarrow> time \<Rightarrow> time list \<Rightarrow> emptyPoolAction option" where
  "action_for grace now ts =
     map_option (\<lambda>t. if time_sub now t < grace then emptyPoolPark else emptyPoolSpill) (first_of ts)"

lemma observe_empty_step:
  assumes "tracks s ts" "observe_empty now (s, acts, d) l = (s', acts', d')"
  shows "tracks s' (ts(l := ts l @ [now]))" "ls_grace s' = ls_grace s" "d' \<longleftrightarrow> d \<or> ts l = []"
    "ts l = [] \<Longrightarrow> acts' = acts"
    "ts l \<noteq> [] \<Longrightarrow> acts' = AList.update l (the (action_for (ls_grace s) now (ts l))) acts"
proof -
  have s: "ls_emptyStreak s k = int (length (ts k))" "map_of (ls_emptySince s) k = first_of (ts k)" for k
    using assms(1) by (auto simp: tracks_def)
  have "tracks s' (ts(l := ts l @ [now])) \<and> ls_grace s' = ls_grace s \<and> (d' \<longleftrightarrow> d \<or> ts l = []) \<and>
    (if ts l = [] then acts' = acts else acts' = AList.update l (the (action_for (ls_grace s) now (ts l))) acts)"
  proof (cases "first_of (ts l)")
    case None
    with assms(2) tracks_has_key[OF assms(1), of l] show ?thesis
      by (auto simp: observe_empty_def tracks_def Let_def map_simps s)
  next
    case (Some t)
    then have ne: "ts l \<noteq> []" by auto
    then have "int (length (ts l)) + 1 \<ge> 2" by (cases "ts l") auto
    with ne Some assms(2) tracks_has_key[OF assms(1), of l] show ?thesis
      by (auto simp: observe_empty_def tracks_def action_for_def Let_def s map_get_def split: if_splits)
  qed
  then show "tracks s' (ts(l := ts l @ [now]))" "ls_grace s' = ls_grace s" "d' \<longleftrightarrow> d \<or> ts l = []"
    "ts l = [] \<Longrightarrow> acts' = acts"
    "ts l \<noteq> [] \<Longrightarrow> acts' = AList.update l (the (action_for (ls_grace s) now (ts l))) acts"
    by (auto split: if_splits)
qed

lemma observeEmptyPools_tracks:
  assumes "tracks s ts" "distinct empties" "foldl (observe_empty now) (s, acts, d) empties = (s', acts', d')"
  shows "tracks s' (\<lambda>l. if l \<in> set empties then ts l @ [now] else ts l) \<and> ls_grace s' = ls_grace s \<and>
    (d' \<longleftrightarrow> d \<or> (\<exists>l \<in> set empties. ts l = [])) \<and>
    (\<forall>l. map_of acts' l = (if l \<in> set empties \<and> ts l \<noteq> [] then action_for (ls_grace s) now (ts l) else map_of acts l))"
  using assms
proof (induction empties arbitrary: s ts acts d)
  case (Cons l ls)
  obtain s1 acts1 d1 where st: "observe_empty now (s, acts, d) l = (s1, acts1, d1)" by (cases "observe_empty now (s, acts, d) l")
  note step = observe_empty_step[OF Cons.prems(1) st]
  have act: "ts l \<noteq> [] \<Longrightarrow> Some (the (action_for (ls_grace s) now (ts l))) = action_for (ls_grace s) now (ts l)"
    by (cases "first_of (ts l)") (auto simp: action_for_def)
  have l: "l \<notin> set ls" using Cons.prems(2) by simp
  have "foldl (observe_empty now) (s1, acts1, d1) ls = (s', acts', d')" using Cons.prems(3) st by simp
  note ih = Cons.IH[OF step(1) _ this]
  have "(\<lambda>k. if k \<in> set ls then (ts(l := ts l @ [now])) k @ [now] else (ts(l := ts l @ [now])) k) =
    (\<lambda>k. if k \<in> set (l # ls) then ts k @ [now] else ts k)" using l by auto
  with ih Cons.prems(2) step(2-5) l act show ?case
    by (cases "ts l = []") (auto simp: map_simps)
qed auto

lemma observeNonEmpty_tracks:
  "tracks s ts \<Longrightarrow> tracks (observeNonEmpty labels s) (\<lambda>l. if l \<in> set labels then [] else ts l)"
  unfolding observeNonEmpty_def
proof (induction labels arbitrary: s ts)
  case (Cons l ls)
  let ?s = "s\<lparr>ls_emptySince := AList.delete l (ls_emptySince s), ls_emptyStreak := (ls_emptyStreak s)(l := 0)\<rparr>"
  have "tracks ?s (ts(l := []))" using Cons.prems by (auto simp: tracks_def map_simps)
  note ih = Cons.IH[OF this]
  have "(\<lambda>k. if k \<in> set ls then [] else (ts(l := [])) k) = (\<lambda>k. if k \<in> set (l # ls) then [] else ts k)"
    by auto
  with ih show ?case by (simp only: foldl_Cons)
qed simp

lemma observeNonEmpty_grace [simp]: "ls_grace (observeNonEmpty labels s) = ls_grace s"
  unfolding observeNonEmpty_def by (induction labels arbitrary: s) auto

lemma prune_fold:
  "foldl (\<lambda>s l. if cur l then s else s\<lparr>ls_emptySince := AList.delete l (ls_emptySince s),
      ls_emptyStreak := (ls_emptyStreak s)(l := 0)\<rparr>) s ls = observeNonEmpty (filter (\<lambda>l. \<not> cur l) ls) s"
  unfolding observeNonEmpty_def by (induction ls arbitrary: s) auto

lemma prune_eq: "prune cur s = observeNonEmpty (filter (\<lambda>l. \<not> cur l) (map fst (ls_emptySince s))) s"
  unfolding prune_def prune_fold ..

lemma prune_tracks:
  assumes "tracks s ts"
  shows "tracks (prune cur s) (\<lambda>l. if cur l then ts l else [])"
proof -
  have "(\<lambda>l. if l \<in> set (filter (\<lambda>l. \<not> cur l) (map fst (ls_emptySince s))) then [] else ts l) =
    (\<lambda>l. if cur l then ts l else [])"
    using tracks_has_key[OF assms] by (fastforce simp: has_key_def fun_eq_iff)
  with observeNonEmpty_tracks[OF assms, of "filter (\<lambda>l. \<not> cur l) (map fst (ls_emptySince s))"]
  show ?thesis by (simp only: prune_eq)
qed

definition distinct_events :: "label_event list \<Rightarrow> bool" where
  "distinct_events h \<longleftrightarrow> (\<forall>e \<in> set h. case e of ObserveEmpty _ empties \<Rightarrow> distinct empties | _ \<Rightarrow> True)"

lemma ls_run_tracks:
  "distinct_events h \<Longrightarrow> tracks (ls_run grace h) (\<lambda>l. empty_times l h) \<and> ls_grace (ls_run grace h) = grace"
proof (induction h)
  case Nil
  show ?case by (simp add: tracks_def newLabelState_def)
next
  case (Cons e h)
  then have ih: "tracks (ls_run grace h) (\<lambda>l. empty_times l h)" "ls_grace (ls_run grace h) = grace"
    by (auto simp: distinct_events_def)
  show ?case
  proof (cases e)
    case (ObserveEmpty now empties)
    obtain s' a d where *: "observeEmptyPools now empties (ls_run grace h) = (s', a, d)"
      by (cases "observeEmptyPools now empties (ls_run grace h)")
    have "distinct empties" using Cons.prems ObserveEmpty by (simp add: distinct_events_def)
    from observeEmptyPools_tracks[OF ih(1) this *[unfolded observeEmptyPools_def]] show ?thesis
      using ObserveEmpty ih(2) * by simp
  next
    case (ObserveNonEmpty labels)
    with observeNonEmpty_tracks[OF ih(1), of labels] ih(2) show ?thesis by simp
  next
    case (Prune cur)
    with prune_tracks[OF ih(1), of cur] ih(2) show ?thesis by (simp add: prune_eq)
  qed
qed

text \<open>The streaks of unreadable workers.\<close>

lemma unknown_streak_fold:
  "distinct unknown \<Longrightarrow> foldl (\<lambda>(m, d) w. let n = map_get 0 m w + 1 in (AList.update w n m, d \<or> n < (2 :: int))) (m, d) unknown = (m', d') \<Longrightarrow>
   (\<forall>w. map_get 0 m' w = (if w \<in> set unknown then map_get 0 m w + 1 else map_get 0 m w)) \<and>
   fst ` set m' = fst ` set m \<union> set unknown \<and> (d' \<longleftrightarrow> d \<or> (\<exists>w \<in> set unknown. \<not> map_get 0 m w > 0))"
proof (induction unknown arbitrary: m d)
  case (Cons w ws)
  have g: "map_get 0 (AList.update w n m) v = (if v = w then n else map_get 0 m v)" for n v
    by (simp add: map_get_def map_simps)
  let ?n = "map_get 0 m w + 1"
  have "foldl (\<lambda>(m, d) w. let n = map_get 0 m w + 1 in (AList.update w n m, d \<or> n < (2 :: int)))
      (AList.update w ?n m, d \<or> ?n < 2) ws = (m', d')"
    using Cons.prems(2) by (simp add: Let_def)
  from Cons.IH[OF _ this] Cons.prems(1) show ?case by (auto simp: g map_simps)
qed simp

definition streaks_ok :: "label_state \<Rightarrow> bool" where
  "streaks_ok s \<longleftrightarrow> (\<forall>w. map_get 0 (ls_unknownStreak s) w \<ge> 0)"

lemma observeUnknownWorkers_props:
  assumes "streaks_ok s" "distinct unknown" "observeUnknownWorkers unknown s = (s', d)"
  shows "streaks_ok s'" "map_get 0 (ls_unknownStreak s') w > 0 \<longleftrightarrow> w \<in> set unknown"
    "d \<longleftrightarrow> (\<exists>w \<in> set unknown. \<not> map_get 0 (ls_unknownStreak s) w > 0)"
proof -
  have flt: "map_get 0 (filter (\<lambda>(w, _). w \<in> A) m) v = (if v \<in> A then map_get 0 m v else 0)" for A m and v :: string
    by (induction m) (auto simp: map_get_def)
  have "streaks_ok s' \<and> (\<forall>w. map_get 0 (ls_unknownStreak s') w > 0 \<longleftrightarrow> w \<in> set unknown) \<and>
    (d \<longleftrightarrow> (\<exists>w \<in> set unknown. \<not> map_get 0 (ls_unknownStreak s) w > 0))"
  proof (cases "unknown = []")
    case False
    obtain m' d' where f: "foldl (\<lambda>(m, d) w. let n = map_get 0 m w + 1 in (AList.update w n m, d \<or> n < 2))
        (ls_unknownStreak s, False) unknown = (m', d')" by fastforce
    have s': "s' = s\<lparr>ls_unknownStreak := filter (\<lambda>(w, _). w \<in> set unknown) m'\<rparr>" "d = d'"
      using assms(3) False f by (auto simp: observeUnknownWorkers_def)
    show ?thesis
      using unknown_streak_fold[OF assms(2) f] assms(1)
      by (simp add: s' streaks_ok_def flt)
  qed (use assms in \<open>auto simp: observeUnknownWorkers_def streaks_ok_def map_get_def\<close>)
  then show "streaks_ok s'" "map_get 0 (ls_unknownStreak s') w > 0 \<longleftrightarrow> w \<in> set unknown"
    "d \<longleftrightarrow> (\<exists>w \<in> set unknown. \<not> map_get 0 (ls_unknownStreak s) w > 0)" by blast+
qed

section \<open>Properties\<close>

text \<open>C27: The label pipeline over the weighted strategy loses no partition: with at least one
  worker whose labels are readable it succeeds, every active worker has exactly one entry, and
  the assigned and the parked partitions together are the source snapshot.\<close>

theorem label_pipeline_exact:
  assumes "sort_contract cmp_node srtN" "sort_contract cmp_entry srtE" "wch_inv X srtN wch"
    and "topology_ok inp" "known_workers inp \<noteq> []"
  shows "\<exists>m parked wch'. computeLabelAssignments (WeightedConsistentHash_Assign X srtN srtE)
      (buildLabelTopology inp) actions wch = (Inr (m, parked), wch') \<and> wch_inv X srtN wch' \<and>
    gomap_wf m \<and> fst ` set m = set (known_workers inp) \<union> fst ` set (ti_Unknown inp) \<and>
    mset (all_vals m) + mset parked = mset (ti_Partitions inp)"
  using wch.computeLabelAssignments_exact[of srtN srtE X wch, OF _ assms(4,5) refl, of actions] assms(1-3)
  by blast

definition example_input :: topology_input where
  "example_input =
     \<lparr>ti_Workers = [''w1'', ''w0'', ''w2''], ti_Labels = (\<lambda>w. if w = ''w1'' then [''gpu''] else []),
      ti_Unknown = [(''w2'', True)],
      ti_Partitions = [\<lparr>Keys = [''a''], Weight = 1, Label = ''gpu''\<rparr>, \<lparr>Keys = [''b''], Weight = 1, Label = ''ssd''\<rparr>,
        \<lparr>Keys = [''c''], Weight = 1, Label = []\<rparr>],
      ti_Policy = ''dedicated''\<rparr>"

lemma example_input_ok: "topology_ok example_input" "known_workers example_input = [''w1'', ''w0'']"
  by (auto simp: example_input_def topology_ok_def known_workers_def gomap_wf_def map_get_def)

theorem label_pipeline_exact_witness:
  "\<exists>m parked wch'. computeLabelAssignments
      (WeightedConsistentHash_Assign poly_xxh3 (sort_by cmp_node) (sort_by cmp_entry))
      (buildLabelTopology example_input) (\<lambda>_. emptyPoolPark) (NewWeightedConsistentHash []) = (Inr (m, parked), wch') \<and>
    mset (all_vals m) + mset parked = mset (ti_Partitions example_input)"
proof -
  have "wch_inv poly_xxh3 (sort_by cmp_node) (NewWeightedConsistentHash [])"
    by (rule NewWeightedConsistentHash_inv) simp
  from label_pipeline_exact[OF sort_by_contract[OF cmp_total_node] sort_by_contract[OF cmp_total_entry] this
      example_input_ok(1), of "\<lambda>_. emptyPoolPark"]
  show ?thesis unfolding example_input_ok(2) by blast
qed



text \<open>C29: The grace clocks refine their reference semantics: after any history of observations, an
  empty pool is deferred exactly when it has no earlier empty observation in the current run, and
  otherwise it is spilled exactly when the grace period has passed since the first empty
  observation of the run.\<close>

theorem label_grace_refines:
  assumes "distinct_events h" "distinct empties"
    and "observeEmptyPools now empties (ls_run grace h) = (s', actions, deferred)"
  shows "s' = ls_run grace (ObserveEmpty now empties # h) \<and>
    (deferred \<longleftrightarrow> (\<exists>l \<in> set empties. empty_times l h = [])) \<and>
    (\<forall>l. map_of actions l = (if l \<in> set empties then action_for grace now (empty_times l h) else None))"
proof -
  have *: "tracks (ls_run grace h) (\<lambda>l. empty_times l h)" "ls_grace (ls_run grace h) = grace"
    using ls_run_tracks[OF assms(1)] by auto
  show ?thesis
    using observeEmptyPools_tracks[OF *(1) assms(2) assms(3)[unfolded observeEmptyPools_def]] assms(3) *(2)
    by (auto simp: action_for_def)
qed

theorem label_grace_refines_witness:
  "snd (observeEmptyPools 50 [''gpu''] (ls_run 30 [ObserveEmpty 10 [''gpu'']])) = ([(''gpu'', emptyPoolSpill)], False)"
proof -
  obtain s' a d where r: "observeEmptyPools 50 [''gpu''] (ls_run 30 [ObserveEmpty 10 [''gpu'']]) = (s', a, d)"
    by (cases "observeEmptyPools 50 [''gpu''] (ls_run 30 [ObserveEmpty 10 [''gpu'']])")
  from label_grace_refines[OF _ _ r] have "\<not> d \<and> map_of a ''gpu'' = Some emptyPoolSpill"
    by (simp add: distinct_events_def action_for_def time_sub_def)
  with r show ?thesis
    by (auto simp: observeEmptyPools_def observe_empty_def newLabelState_def Let_def has_key_def split: if_splits)
qed

text \<open>Unreadable labels are deferred once: an observation is deferred exactly when it names a
  worker that the previous observation did not name.\<close>

lemma unknown_defer_once:
  assumes "streaks_ok s" "distinct first" "distinct second"
    and "observeUnknownWorkers first s = (s1, d1)" "observeUnknownWorkers second s1 = (s2, d2)"
  shows "d2 \<longleftrightarrow> (\<exists>w \<in> set second. w \<notin> set first)"
  using observeUnknownWorkers_props[OF assms(1,2,4)] observeUnknownWorkers_props(3)[OF _ assms(3,5)] by blast

end
