(* ===== verification/Emergency.thy ===== *)
theory Emergency
  imports Prelude
begin

text \<open>
  The emergency detector of \<^verbatim>\<open>internal/assignment/emergency.go\<close>: worker disappearances
  with a grace period. The clock is the argument \<open>now\<close>; the sets of previous and current workers are Go maps,
  whose keys are ranged over and whose values are read.
\<close>

section \<open>Operations\<close>

record emergency_detector =
  disappearedWorkers :: "(string, time) gomap"
  gracePeriod :: duration

definition NewEmergencyDetector :: "duration \<Rightarrow> emergency_detector" where
  "NewEmergencyDetector grace = \<lparr>disappearedWorkers = [], gracePeriod = grace\<rparr>"

definition ObserveAlive :: "string list \<Rightarrow> emergency_detector \<Rightarrow> emergency_detector" where
  "ObserveAlive alive d =
     d\<lparr>disappearedWorkers := foldl (\<lambda>m w. AList.delete w m) (disappearedWorkers d) alive\<rparr>"

definition track_missing ::
  "time \<Rightarrow> (string, bool) gomap \<Rightarrow> (string, bool) gomap \<Rightarrow> (string, time) gomap \<Rightarrow> (string, time) gomap" where
  "track_missing now prv cur m =
     foldl (\<lambda>m w. if map_get False cur w then m
                   else if has_key m w then m else AList.update w now m) m (map fst prv)"

definition CheckEmergency ::
  "time \<Rightarrow> (string, bool) gomap \<Rightarrow> (string, bool) gomap \<Rightarrow> emergency_detector
    \<Rightarrow> emergency_detector \<times> bool \<times> string list \<times> bool" where
  "CheckEmergency now prv cur d =
     (let m = foldl (\<lambda>m w. AList.delete w m) (disappearedWorkers d) (map fst cur);
          m = track_missing now prv cur m;
          expiry = wrap64 (10 * gracePeriod d);
          m = filter (\<lambda>(w, firstSeen). \<not> (\<not> map_get False prv w \<and> time_sub now firstSeen > expiry)) m;
          inPrev = filter (\<lambda>(w, _). map_get False prv w) m;
          confirmed = map fst (filter (\<lambda>(_, firstSeen). time_sub now firstSeen \<ge> gracePeriod d) inPrev)
      in (d\<lparr>disappearedWorkers := m\<rparr>, confirmed \<noteq> [], confirmed, inPrev \<noteq> []))"

section \<open>Lemmas\<close>

lemma track_missing_lookup:
  "map_of (track_missing now prv cur m) w =
     (case map_of m w of Some t \<Rightarrow> Some t
      | None \<Rightarrow> if has_key prv w \<and> \<not> map_get False cur w then Some now else None)"
proof -
  have "map_of (foldl (\<lambda>m w. if map_get False cur w then m else if has_key m w then m else AList.update w now m) m ws) w =
    (case map_of m w of Some t \<Rightarrow> Some t | None \<Rightarrow> if w \<in> set ws \<and> \<not> map_get False cur w then Some now else None)" for ws
    by (induction ws arbitrary: m) (auto simp: map_simps has_key_lookup split: option.splits)
  from this[of "map fst prv"] show ?thesis by (simp only: track_missing_def has_key_def set_map)
qed

lemma track_missing_wf: "gomap_wf m \<Longrightarrow> gomap_wf (track_missing now prv cur m)"
proof -
  have "gomap_wf m \<Longrightarrow> gomap_wf (foldl (\<lambda>m w. if map_get False cur w then m else if has_key m w then m
      else AList.update w now m) m ws)" for ws
    by (induction ws arbitrary: m) (auto simp: map_simps)
  then show "gomap_wf m \<Longrightarrow> gomap_wf (track_missing now prv cur m)" by (simp add: track_missing_def)
qed

text \<open>One call, in terms of lookups.\<close>

lemma CheckEmergency_props:
  assumes wf: "gomap_wf (disappearedWorkers d)" and sl: "setlike prv" "setlike cur"
    and r: "CheckEmergency now prv cur d = (d', e, confirmed, pending)"
  shows "gomap_wf (disappearedWorkers d')" "gracePeriod d' = gracePeriod d" "e \<longleftrightarrow> confirmed \<noteq> []"
    and "map_of (disappearedWorkers d') w = Some t \<Longrightarrow> \<not> has_key cur w \<and>
      (map_of (disappearedWorkers d) w = Some t \<or> map_of (disappearedWorkers d) w = None \<and> has_key prv w \<and> t = now)"
    and "w \<in> set confirmed \<longleftrightarrow> has_key prv w \<and>
      (\<exists>t. map_of (disappearedWorkers d') w = Some t \<and> time_sub now t \<ge> gracePeriod d)"
    and "pending \<longleftrightarrow> (\<exists>w. has_key prv w \<and> \<not> has_key cur w)"
    and "has_key prv w \<Longrightarrow> \<not> has_key cur w \<Longrightarrow>
      map_of (disappearedWorkers d') w = Some (map_get now (disappearedWorkers d) w)"
proof -
  define m2 where "m2 = track_missing now prv cur
    (foldl (\<lambda>m w. AList.delete w m) (disappearedWorkers d) (map fst cur))"
  define P where "P = (\<lambda>(w, firstSeen).
    \<not> (\<not> map_get False prv w \<and> time_sub now firstSeen > wrap64 (10 * gracePeriod d)))"
  define m3 where "m3 = filter P m2"
  have d': "disappearedWorkers d' = m3" "gracePeriod d' = gracePeriod d" and e: "e \<longleftrightarrow> confirmed \<noteq> []"
    and conf: "confirmed = map fst (filter (\<lambda>(_, t). time_sub now t \<ge> gracePeriod d) (filter (\<lambda>(w, _). map_get False prv w) m3))"
    and pend: "pending \<longleftrightarrow> filter (\<lambda>(w, _). map_get False prv w) m3 \<noteq> []"
    using r by (auto simp: CheckEmergency_def Let_def m3_def m2_def P_def)
  have wf2: "gomap_wf m2" unfolding m2_def using track_missing_wf[OF delete_all_wf[OF wf]] .
  have wf3: "gomap_wf m3" unfolding m3_def by (rule filter_wf[OF wf2])
  show "gomap_wf (disappearedWorkers d')" "gracePeriod d' = gracePeriod d" "e \<longleftrightarrow> confirmed \<noteq> []"
    using wf3 e d' by simp_all
  have m3: "map_of m3 w = Some t \<longleftrightarrow> map_of m2 w = Some t \<and> P (w, t)" for w t
    unfolding wf_mem_lookup[OF wf3, symmetric] wf_mem_lookup[OF wf2, symmetric] by (auto simp: m3_def)
  have m2: "map_of m2 w = Some t \<longleftrightarrow> \<not> has_key cur w \<and> (map_of (disappearedWorkers d) w = Some t \<or>
        map_of (disappearedWorkers d) w = None \<and> has_key prv w \<and> t = now)" for w t
    unfolding m2_def track_missing_lookup delete_all_lookup
    by (auto simp: has_key_def[symmetric] setlike_get[OF sl(2)] split: option.splits)
  show *: "map_of (disappearedWorkers d') w = Some t \<Longrightarrow> \<not> has_key cur w \<and>
      (map_of (disappearedWorkers d) w = Some t \<or> map_of (disappearedWorkers d) w = None \<and> has_key prv w \<and> t = now)" for w t
    by (simp add: d' m3 m2)
  show **: "has_key prv w \<Longrightarrow> \<not> has_key cur w \<Longrightarrow>
      map_of (disappearedWorkers d') w = Some (map_get now (disappearedWorkers d) w)" for w
    using setlike_get[OF sl(1), of w]
    by (cases "map_of (disappearedWorkers d) w")
      (simp_all add: d' m3 m2 P_def map_get_def[of now])
  show "w \<in> set confirmed \<longleftrightarrow> has_key prv w \<and>
      (\<exists>t. map_of (disappearedWorkers d') w = Some t \<and> time_sub now t \<ge> gracePeriod d)"
    unfolding conf d' by (auto simp: wf_mem_lookup[OF wf3] setlike_get[OF sl(1)] image_iff)
  have "pending \<longleftrightarrow> (\<exists>w t. has_key prv w \<and> map_of (disappearedWorkers d') w = Some t)"
    unfolding pend d' by (auto simp: filter_empty_conv setlike_get[OF sl(1)] wf_mem_lookup[OF wf3])
  then show "pending \<longleftrightarrow> (\<exists>w. has_key prv w \<and> \<not> has_key cur w)" using * ** by blast
qed

section \<open>Histories\<close>

text \<open>The calls on one detector, latest first, and the time since which a worker has been absent
  from every observation.\<close>

datatype detector_event = Alive "string list" | Check time "(string, bool) gomap" "(string, bool) gomap"

primrec ed_run :: "duration \<Rightarrow> detector_event list \<Rightarrow> emergency_detector" where
  "ed_run grace [] = NewEmergencyDetector grace"
| "ed_run grace (e # h) =
     (case e of
        Alive ws \<Rightarrow> ObserveAlive ws (ed_run grace h)
      | Check now prv cur \<Rightarrow> fst (CheckEmergency now prv cur (ed_run grace h)))"

definition observed_alive :: "string \<Rightarrow> detector_event \<Rightarrow> bool" where
  "observed_alive w e \<longleftrightarrow> (case e of Alive ws \<Rightarrow> w \<in> set ws | Check _ _ cur \<Rightarrow> has_key cur w)"

definition missing_at :: "string \<Rightarrow> time \<Rightarrow> detector_event \<Rightarrow> bool" where
  "missing_at w t e \<longleftrightarrow> (case e of Alive _ \<Rightarrow> False | Check now prv cur \<Rightarrow> now = t \<and> has_key prv w \<and> \<not> has_key cur w)"

definition events_ok :: "detector_event list \<Rightarrow> bool" where
  "events_ok h \<longleftrightarrow> (\<forall>e \<in> set h. case e of Alive _ \<Rightarrow> True | Check _ prv cur \<Rightarrow> setlike prv \<and> setlike cur)"

text \<open>The documented invariant: a tracked time is a check at which the worker was missing, and
  no later event has observed it alive.\<close>

lemma ed_run_invariant:
  assumes "events_ok h"
  shows "gomap_wf (disappearedWorkers (ed_run grace h)) \<and> gracePeriod (ed_run grace h) = grace \<and>
    (\<forall>w t. map_of (disappearedWorkers (ed_run grace h)) w = Some t \<longrightarrow>
      (\<exists>post c pre. h = post @ c # pre \<and> missing_at w t c \<and> (\<forall>e \<in> set post. \<not> observed_alive w e)))"
  using assms
proof (induction h)
  case Nil
  show ?case by (simp add: NewEmergencyDetector_def gomap_wf_def)
next
  case (Cons e h)
  let ?d = "ed_run grace h"
  have ih: "gomap_wf (disappearedWorkers ?d)" "gracePeriod ?d = grace"
    "\<And>w t. map_of (disappearedWorkers ?d) w = Some t \<Longrightarrow>
      \<exists>post c pre. h = post @ c # pre \<and> missing_at w t c \<and> (\<forall>e \<in> set post. \<not> observed_alive w e)"
    using Cons by (auto simp: events_ok_def)
  have keep: "\<exists>post c pre. e # h = post @ c # pre \<and> missing_at w t c \<and> (\<forall>e \<in> set post. \<not> observed_alive w e)"
    if "map_of (disappearedWorkers ?d) w = Some t" "\<not> observed_alive w e" for w t
    using ih(3)[OF that(1)] that(2) by (metis append_Cons set_ConsD)
  show ?case
  proof (cases e)
    case (Alive ws)
    then show ?thesis using ih(1,2) keep
      by (auto simp: ObserveAlive_def delete_all_wf delete_all_lookup observed_alive_def split: if_splits)
  next
    case (Check now prv cur)
    obtain d' em cf pd where r: "CheckEmergency now prv cur ?d = (d', em, cf, pd)"
      by (cases "CheckEmergency now prv cur ?d")
    have sl: "setlike prv" "setlike cur" using Cons.prems Check by (auto simp: events_ok_def)
    note props = CheckEmergency_props[OF ih(1) sl r]
    have "\<exists>post c pre. e # h = post @ c # pre \<and> missing_at w t c \<and> (\<forall>e \<in> set post. \<not> observed_alive w e)"
      if "map_of (disappearedWorkers d') w = Some t" for w t
    proof (cases "map_of (disappearedWorkers ?d) w = Some t")
      case True
      then show ?thesis using keep props(4)[OF that] Check by (auto simp: observed_alive_def)
    next
      case False
      then have "missing_at w t e" using props(4)[OF that] Check by (auto simp: missing_at_def)
      then show ?thesis by (metis append_Nil empty_iff list.set(1))
    qed
    then show ?thesis using r Check props(1,2) ih(2) by simp
  qed
qed

section \<open>Properties\<close>

text \<open>C30: No false emergency: a worker is confirmed missing only if it was missing at a check at
  least the grace period ago and no observation since then, the present one included, has seen it
  alive.\<close>

theorem emergency_confirmed_absent:
  assumes "events_ok (Check now prv cur # h)"
    and "CheckEmergency now prv cur (ed_run grace h) = (d', emergency, confirmed, pending)" "w \<in> set confirmed"
  shows "\<exists>post c pre t. Check now prv cur # h = post @ c # pre \<and> missing_at w t c \<and> time_sub now t \<ge> grace \<and>
    (\<forall>e \<in> set post. \<not> observed_alive w e)"
proof -
  have sl: "setlike prv" "setlike cur" and h: "events_ok h" using assms(1) by (auto simp: events_ok_def)
  note wf = ed_run_invariant[OF h, of grace, THEN conjunct1]
  obtain t where t: "map_of (disappearedWorkers d') w = Some t" "time_sub now t \<ge> grace"
    using CheckEmergency_props(5)[OF wf sl assms(2)] assms(3) ed_run_invariant[OF h, of grace] by auto
  moreover have "d' = ed_run grace (Check now prv cur # h)" using assms(2) by simp
  ultimately show ?thesis using ed_run_invariant[OF assms(1), of grace] by blast
qed

theorem emergency_confirmed_absent_witness:
  "\<exists>post c pre t. [Check 9 [(''a'', True)] [], Check 1 [(''a'', True)] []] = post @ c # pre \<and> missing_at ''a'' t c \<and>
     time_sub 9 t \<ge> 5 \<and> (\<forall>e \<in> set post. \<not> observed_alive ''a'' e)"
proof -
  have "CheckEmergency 9 [(''a'', True)] [] (ed_run 5 [Check 1 [(''a'', True)] []]) =
    (\<lparr>disappearedWorkers = [(''a'', 1)], gracePeriod = 5\<rparr>, True, [''a''], True)"
    by code_simp
  from emergency_confirmed_absent[OF _ this] show ?thesis by (simp add: events_ok_def setlike_def)
qed

text \<open>Every real disappearance is confirmed: a worker of the previous set that is missing from
  the current one is confirmed as soon as the grace period has passed since the detector began to
  track it, and the result is pending from the first such check on.\<close>

lemma emergency_confirms_missing:
  assumes "events_ok (Check now prv cur # h)" "has_key prv w" "\<not> has_key cur w"
    and "CheckEmergency now prv cur (ed_run grace h) = (d', emergency, confirmed, pending)"
  shows "pending \<and> (w \<in> set confirmed \<longleftrightarrow> time_sub now (map_get now (disappearedWorkers (ed_run grace h)) w) \<ge> grace) \<and>
    (w \<in> set confirmed \<longrightarrow> emergency)"
proof -
  have sl: "setlike prv" "setlike cur" and h: "events_ok h" using assms(1) by (auto simp: events_ok_def)
  note props = CheckEmergency_props[OF ed_run_invariant[OF h, THEN conjunct1] sl assms(4)]
  show ?thesis
    using props(3,5,6) props(7)[OF assms(2,3)] assms(2,3) ed_run_invariant[OF h, of grace] by auto
qed

end
