(* ===== verification/State_Machine.thy ===== *)
theory State_Machine
  imports Partition_Types
begin

text \<open>
  The calculator state machine of \<^verbatim>\<open>internal/assignment/state_machine.go\<close> and its
  subscribers (\<^verbatim>\<open>state_subscriber.go\<close>). The operations are modelled as functions on
  the state of the machine; the two rebalance callbacks are parameters, as they are in the code.
  A second model takes the atomic loads, stores and compare-and-swaps of the operations apart, as
  the steps of concurrent goroutines.
\<close>

section \<open>Operations\<close>

record state_subscriber =
  sub_ch :: "calc_state list" \<comment> \<open>the buffered channel, oldest value first\<close>
  sub_closed :: bool

text \<open>A non-blocking send on the buffer of four; a full buffer drops the value.\<close>

definition trySend :: "calc_state \<Rightarrow> state_subscriber \<times> nat \<Rightarrow> state_subscriber \<times> nat" where
  "trySend st sd =
     (let (sub, dropped) = sd in
      if sub_closed sub then (sub, dropped)
      else if length (sub_ch sub) < 4 then (sub\<lparr>sub_ch := sub_ch sub @ [st]\<rparr>, dropped)
      else (sub, Suc dropped))"

definition sub_close :: "state_subscriber \<Rightarrow> state_subscriber" where
  "sub_close sub = sub\<lparr>sub_closed := True\<rparr>"

record state_machine =
  sm_current :: calc_state
  sm_scalingStart :: time
  sm_scalingReason :: string
  sm_subscribers :: "(u64, state_subscriber) gomap"
  sm_nextSubscriberID :: u64
  sm_dropped :: nat \<comment> \<open>the metric of dropped notifications\<close>
  sm_stopping :: bool
  sm_stopCh :: bool \<comment> \<open>the stop channel is closed\<close>
  sm_timers :: "duration list" \<comment> \<open>the scaling-timer goroutines\<close>

definition NewStateMachine :: state_machine where
  "NewStateMachine =
     \<lparr>sm_current = CalcStateIdle, sm_scalingStart = 0, sm_scalingReason = [], sm_subscribers = [],
      sm_nextSubscriberID = 0, sm_dropped = 0, sm_stopping = False, sm_stopCh = False, sm_timers = []\<rparr>"

fun send_all :: "calc_state \<Rightarrow> (u64, state_subscriber) gomap \<Rightarrow> nat \<Rightarrow> (u64, state_subscriber) gomap \<times> nat" where
  "send_all st [] n = ([], n)"
| "send_all st ((i, sub) # subs) n =
     (let (sub', n') = trySend st (sub, n); (subs', n'') = send_all st subs n'
      in ((i, sub') # subs', n''))"

definition notifyStateChange :: "calc_state \<Rightarrow> state_machine \<Rightarrow> state_machine" where
  "notifyStateChange st sm =
     (let (subs, n) = send_all st (sm_subscribers sm) (sm_dropped sm)
      in sm\<lparr>sm_subscribers := subs, sm_dropped := n\<rparr>)"

definition compareAndSwapState :: "calc_state \<Rightarrow> calc_state \<Rightarrow> state_machine \<Rightarrow> state_machine \<times> bool" where
  "compareAndSwapState src dst sm =
     (if sm_current sm = src then (sm\<lparr>sm_current := dst\<rparr>, True) else (sm, False))"

definition emitStateChange :: "calc_state \<Rightarrow> state_machine \<Rightarrow> state_machine" where
  "emitStateChange st sm =
     (if sm_current sm = st then sm else notifyStateChange st (sm\<lparr>sm_current := st\<rparr>))"

definition Subscribe :: "state_machine \<Rightarrow> state_machine \<times> u64" where
  "Subscribe sm =
     (let i = sm_nextSubscriberID sm + 1;
          (sub, n) = trySend (sm_current sm) (\<lparr>sub_ch = [], sub_closed = False\<rparr>, sm_dropped sm)
      in (sm\<lparr>sm_nextSubscriberID := i, sm_subscribers := AList.update i sub (sm_subscribers sm), sm_dropped := n\<rparr>, i))"

definition removeSubscriber :: "u64 \<Rightarrow> state_machine \<Rightarrow> state_machine \<times> state_subscriber option" where
  "removeSubscriber i sm =
     (sm\<lparr>sm_subscribers := AList.delete i (sm_subscribers sm)\<rparr>, map_option sub_close (map_of (sm_subscribers sm) i))"

definition ReturnToIdle :: "state_machine \<Rightarrow> state_machine" where
  "ReturnToIdle sm = emitStateChange CalcStateIdle (sm\<lparr>sm_scalingReason := []\<rparr>)"

definition EnterScaling :: "time \<Rightarrow> string \<Rightarrow> duration \<Rightarrow> state_machine \<Rightarrow> state_machine" where
  "EnterScaling now reason window sm =
     (if sm_stopping sm \<or> sm_stopCh sm then sm
      else if sm_current sm \<noteq> CalcStateIdle then sm
      else
        let sm = sm\<lparr>sm_scalingStart := now, sm_scalingReason := reason\<rparr>;
            sm = emitStateChange CalcStateScaling sm
        in if sm_stopping sm \<or> sm_stopCh sm then sm
           else sm\<lparr>sm_timers := sm_timers sm @ [window]\<rparr>)"

type_synonym ('e, 'w) callback = "(string \<Rightarrow> 'w \<Rightarrow> 'e option \<times> 'w) option"

definition RunClaimedRebalance ::
  "('e, 'w) callback \<Rightarrow> string \<Rightarrow> state_machine \<times> 'w \<Rightarrow> state_machine \<times> 'w" where
  "RunClaimedRebalance onRebalanceCb reason s =
     (let (sm, w) = s in
      case onRebalanceCb of
        None \<Rightarrow> (ReturnToIdle sm, w)
      | Some f \<Rightarrow> let (err, w') = f reason w in (ReturnToIdle sm, w'))"

definition EnterRebalancing :: "('e, 'w) callback \<Rightarrow> state_machine \<times> 'w \<Rightarrow> state_machine \<times> 'w" where
  "EnterRebalancing onRebalanceCb s =
     (let (sm, w) = s; (sm, won) = compareAndSwapState CalcStateScaling CalcStateRebalancing sm in
      if \<not> won then (sm, w)
      else let sm = notifyStateChange CalcStateRebalancing sm
           in RunClaimedRebalance onRebalanceCb (sm_scalingReason sm) (sm, w))"

text \<open>The goroutine of the scaling timer: when the window has passed it enters rebalancing, when
  the stop channel is closed or the context is done it ends.\<close>

definition timer_fires :: "nat \<Rightarrow> ('e, 'w) callback \<Rightarrow> state_machine \<times> 'w \<Rightarrow> state_machine \<times> 'w" where
  "timer_fires k onRebalanceCb s =
     (let (sm, w) = s; sm = sm\<lparr>sm_timers := take k (sm_timers sm) @ drop (Suc k) (sm_timers sm)\<rparr> in
      if sm_stopCh sm then (sm, w) else EnterRebalancing onRebalanceCb (sm, w))"

definition tryClaimEmergencyFrom :: "calc_state \<Rightarrow> state_machine \<Rightarrow> state_machine \<times> bool" where
  "tryClaimEmergencyFrom src sm =
     (let (sm, won) = compareAndSwapState src CalcStateEmergency sm in
      if \<not> won then (sm, False)
      else (notifyStateChange CalcStateEmergency (sm\<lparr>sm_scalingReason := ''emergency''\<rparr>), True))"

definition TryClaimEmergency :: "state_machine \<Rightarrow> state_machine \<times> bool" where
  "TryClaimEmergency sm =
     (let (sm, won) = tryClaimEmergencyFrom CalcStateIdle sm in
      if won then (sm, True)
      else let (sm, won) = tryClaimEmergencyFrom CalcStateScaling sm in
           if won then (sm, True) else (sm, False))"

definition EnterEmergency :: "('e, 'w) callback \<Rightarrow> state_machine \<times> 'w \<Rightarrow> state_machine \<times> 'w" where
  "EnterEmergency onRebalanceCb s =
     (let (sm, w) = s; (sm, won) = TryClaimEmergency sm in
      if \<not> won then (sm, w) else RunClaimedRebalance onRebalanceCb ''emergency'' (sm, w))"

definition TryClaimRebalancing :: "string \<Rightarrow> state_machine \<Rightarrow> state_machine \<times> bool" where
  "TryClaimRebalancing reason sm =
     (let (sm, won) = compareAndSwapState CalcStateIdle CalcStateRebalancing sm in
      if \<not> won then (sm, False)
      else (notifyStateChange CalcStateRebalancing (sm\<lparr>sm_scalingReason := reason\<rparr>), True))"

definition RunClaimedRebalanceErr ::
  "('e, 'w) callback \<Rightarrow> string \<Rightarrow> state_machine \<times> 'w \<Rightarrow> (state_machine \<times> 'w) \<times> 'e option" where
  "RunClaimedRebalanceErr onPartitionRebalanceCb reason s =
     (let (sm, w) = s in
      case onPartitionRebalanceCb of
        None \<Rightarrow> ((ReturnToIdle sm, w), None)
      | Some f \<Rightarrow> let (err, w') = f reason w in ((ReturnToIdle sm, w'), err))"

section \<open>Lemmas on the operations\<close>

lemma notifyStateChange_fields [simp]:
  "sm_current (notifyStateChange st sm) = sm_current sm"
  "sm_scalingReason (notifyStateChange st sm) = sm_scalingReason sm"
  "sm_timers (notifyStateChange st sm) = sm_timers sm"
  "sm_stopping (notifyStateChange st sm) = sm_stopping sm"
  "sm_stopCh (notifyStateChange st sm) = sm_stopCh sm"
  by (auto simp: notifyStateChange_def split: prod.splits)

lemma emitStateChange_fields [simp]:
  "sm_current (emitStateChange st sm) = st"
  "sm_scalingReason (emitStateChange st sm) = sm_scalingReason sm"
  "sm_timers (emitStateChange st sm) = sm_timers sm"
  "sm_stopping (emitStateChange st sm) = sm_stopping sm"
  "sm_stopCh (emitStateChange st sm) = sm_stopCh sm"
  by (auto simp: emitStateChange_def)

lemma ReturnToIdle_fields [simp]:
  "sm_current (ReturnToIdle sm) = CalcStateIdle" "sm_scalingReason (ReturnToIdle sm) = []"
  by (simp_all add: ReturnToIdle_def)

definition run_callback :: "('e, 'w) callback \<Rightarrow> string \<Rightarrow> 'w \<Rightarrow> 'e option \<times> 'w" where
  "run_callback cb reason w = (case cb of None \<Rightarrow> (None, w) | Some f \<Rightarrow> f reason w)"

lemma RunClaimedRebalance_eq:
  "RunClaimedRebalance cb reason (sm, w) = (ReturnToIdle sm, snd (run_callback cb reason w))"
  by (simp add: RunClaimedRebalance_def run_callback_def Let_def case_prod_unfold split: option.split)

lemma RunClaimedRebalanceErr_eq:
  "RunClaimedRebalanceErr cb reason (sm, w) =
     ((ReturnToIdle sm, snd (run_callback cb reason w)), fst (run_callback cb reason w))"
  by (simp add: RunClaimedRebalanceErr_def run_callback_def Let_def case_prod_unfold split: option.split)

lemma TryClaimEmergency_props:
  assumes "TryClaimEmergency sm = (sm', won)"
  shows "won \<longleftrightarrow> sm_current sm \<in> {CalcStateIdle, CalcStateScaling}" "\<not> won \<Longrightarrow> sm' = sm"
    "won \<Longrightarrow> sm_current sm' = CalcStateEmergency \<and> sm_scalingReason sm' = ''emergency''"
  using assms
  by (auto simp: TryClaimEmergency_def tryClaimEmergencyFrom_def compareAndSwapState_def Let_def split: if_splits)

text \<open>A notification reaches every open subscriber whose buffer has room and is counted as dropped
  for every other open one.\<close>

lemma send_all_eq:
  "send_all st subs n =
     (map (\<lambda>(i, sub). (i, if \<not> sub_closed sub \<and> length (sub_ch sub) < 4 then sub\<lparr>sub_ch := sub_ch sub @ [st]\<rparr> else sub)) subs,
      n + length (filter (\<lambda>(i, sub). \<not> sub_closed sub \<and> length (sub_ch sub) \<ge> 4) subs))"
  by (induction st subs n rule: send_all.induct) (auto simp: trySend_def Let_def)

section \<open>Concurrent goroutines\<close>

text \<open>The goroutines that act on the machine, each at the point it has reached between two atomic
  accesses to the shared state.\<close>

datatype goroutine =
    ScaleChecked string    \<comment> \<open>\<open>EnterScaling\<close>, the state was read as idle\<close>
  | ScaleReasoned          \<comment> \<open>\<open>EnterScaling\<close>, the reason is stored\<close>
  | ScaleEmitted           \<comment> \<open>\<open>EnterScaling\<close>, the state is changed\<close>
  | TimerWait              \<comment> \<open>the scaling timer\<close>
  | TimerClaimed           \<comment> \<open>\<open>EnterRebalancing\<close>, the swap has succeeded\<close>
  | ClaimedEmergency       \<comment> \<open>\<open>tryClaimEmergencyFrom\<close>, the swap has succeeded\<close>
  | ClaimedRebalance string \<comment> \<open>\<open>TryClaimRebalancing\<close>, the swap has succeeded\<close>
  | Running string         \<comment> \<open>the rebalance callback\<close>
  | Finishing              \<comment> \<open>\<open>ReturnToIdle\<close>, the reason is cleared\<close>

record fsm =
  f_current :: calc_state
  f_reason :: string
  f_threads :: "goroutine multiset"
  f_stopped :: bool \<comment> \<open>the stop flag is set or the stop channel closed\<close>

definition fsm_init :: fsm where
  "fsm_init = \<lparr>f_current = CalcStateIdle, f_reason = [], f_threads = {#}, f_stopped = False\<rparr>"

definition moves :: "goroutine \<Rightarrow> goroutine multiset \<Rightarrow> fsm \<Rightarrow> fsm" where
  "moves g gs s = s\<lparr>f_threads := f_threads s - {#g#} + gs\<rparr>"

inductive fsm_step :: "fsm \<Rightarrow> fsm \<Rightarrow> bool" where
  enter_scaling: "\<not> f_stopped s \<Longrightarrow> f_current s = CalcStateIdle \<Longrightarrow>
    fsm_step s (s\<lparr>f_threads := add_mset (ScaleChecked r) (f_threads s)\<rparr>)"
| scale_reason: "ScaleChecked r \<in># f_threads s \<Longrightarrow>
    fsm_step s (moves (ScaleChecked r) {#ScaleReasoned#} (s\<lparr>f_reason := r\<rparr>))"
| scale_emit: "ScaleReasoned \<in># f_threads s \<Longrightarrow>
    fsm_step s (moves ScaleReasoned {#ScaleEmitted#} (s\<lparr>f_current := CalcStateScaling\<rparr>))"
| scale_timer: "\<not> f_stopped s \<Longrightarrow> ScaleEmitted \<in># f_threads s \<Longrightarrow> fsm_step s (moves ScaleEmitted {#TimerWait#} s)"
| scale_no_timer: "f_stopped s \<Longrightarrow> ScaleEmitted \<in># f_threads s \<Longrightarrow> fsm_step s (moves ScaleEmitted {#} s)"
| timer_cancel: "f_stopped s \<Longrightarrow> TimerWait \<in># f_threads s \<Longrightarrow> fsm_step s (moves TimerWait {#} s)"
| shutdown: "fsm_step s (s\<lparr>f_stopped := True\<rparr>)"
| timer_claim: "TimerWait \<in># f_threads s \<Longrightarrow> f_current s = CalcStateScaling \<Longrightarrow>
    fsm_step s (moves TimerWait {#TimerClaimed#} (s\<lparr>f_current := CalcStateRebalancing\<rparr>))"
| timer_skip: "TimerWait \<in># f_threads s \<Longrightarrow> f_current s \<noteq> CalcStateScaling \<Longrightarrow> fsm_step s (moves TimerWait {#} s)"
| timer_run: "TimerClaimed \<in># f_threads s \<Longrightarrow> fsm_step s (moves TimerClaimed {#Running (f_reason s)#} s)"
| claim_emergency: "f_current s \<in> {CalcStateIdle, CalcStateScaling} \<Longrightarrow>
    fsm_step s (s\<lparr>f_current := CalcStateEmergency, f_threads := add_mset ClaimedEmergency (f_threads s)\<rparr>)"
| emergency_reason: "ClaimedEmergency \<in># f_threads s \<Longrightarrow>
    fsm_step s (moves ClaimedEmergency {#Running ''emergency''#} (s\<lparr>f_reason := ''emergency''\<rparr>))"
| claim_rebalancing: "f_current s = CalcStateIdle \<Longrightarrow>
    fsm_step s (s\<lparr>f_current := CalcStateRebalancing, f_threads := add_mset (ClaimedRebalance r) (f_threads s)\<rparr>)"
| rebalancing_reason: "ClaimedRebalance r \<in># f_threads s \<Longrightarrow>
    fsm_step s (moves (ClaimedRebalance r) {#Running r#} (s\<lparr>f_reason := r\<rparr>))"
| finish: "Running r \<in># f_threads s \<Longrightarrow> fsm_step s (moves (Running r) {#Finishing#} (s\<lparr>f_reason := []\<rparr>))"
| emit_idle: "Finishing \<in># f_threads s \<Longrightarrow> fsm_step s (moves Finishing {#} (s\<lparr>f_current := CalcStateIdle\<rparr>))"

inductive fsm_reach :: "fsm \<Rightarrow> bool" where
  reach_init [intro]: "fsm_reach fsm_init"
| reach_step [intro]: "fsm_reach s \<Longrightarrow> fsm_step s s' \<Longrightarrow> fsm_reach s'"

primrec in_lifecycle :: "goroutine \<Rightarrow> bool" where
  "in_lifecycle (ScaleChecked r) = False"
| "in_lifecycle ScaleReasoned = False"
| "in_lifecycle ScaleEmitted = False"
| "in_lifecycle TimerWait = False"
| "in_lifecycle TimerClaimed = True"
| "in_lifecycle ClaimedEmergency = True"
| "in_lifecycle (ClaimedRebalance r) = True"
| "in_lifecycle (Running r) = True"
| "in_lifecycle Finishing = True"

definition n_of :: "(goroutine \<Rightarrow> bool) \<Rightarrow> fsm \<Rightarrow> nat" where
  "n_of P s = size (filter_mset P (f_threads s))"

primrec scale_pending :: "goroutine \<Rightarrow> bool" where
  "scale_pending (ScaleChecked r) = True"
| "scale_pending ScaleReasoned = True"
| "scale_pending ScaleEmitted = False"
| "scale_pending TimerWait = False"
| "scale_pending TimerClaimed = False"
| "scale_pending ClaimedEmergency = False"
| "scale_pending (ClaimedRebalance r) = False"
| "scale_pending (Running r) = False"
| "scale_pending Finishing = False"

text \<open>No other goroutine changes the state while an \<open>EnterScaling\<close> call is between its check of
  the state and its change of it.\<close>

inductive serial_reach :: "fsm \<Rightarrow> bool" where
  serial_init [intro]: "serial_reach fsm_init"
| serial_step: "serial_reach s \<Longrightarrow> fsm_step s s' \<Longrightarrow>
    (n_of scale_pending s > 0 \<longrightarrow> f_current s' \<in> {f_current s, CalcStateScaling}) \<Longrightarrow> serial_reach s'"

lemma moves_fields [simp]:
  "f_current (moves g gs s) = f_current s" "f_reason (moves g gs s) = f_reason s"
  "f_threads (moves g gs s) = f_threads s - {#g#} + gs" "f_stopped (moves g gs s) = f_stopped s"
  by (simp_all add: moves_def)

lemma n_of_moves:
  assumes "g \<in># f_threads s"
  shows "n_of P (moves g gs s) = n_of P s - (if P g then 1 else 0) + size (filter_mset P gs)"
    and "P g \<Longrightarrow> 0 < n_of P s"
proof -
  have pos: "P g \<Longrightarrow> 0 < size (filter_mset P (f_threads s))"
    unfolding nonempty_has_size[symmetric] using assms by auto
  then show "P g \<Longrightarrow> 0 < n_of P s" by (simp add: n_of_def)
  show "n_of P (moves g gs s) = n_of P s - (if P g then 1 else 0) + size (filter_mset P gs)"
    using assms pos by (cases "P g") (auto simp: n_of_def size_Diff_singleton)
qed

lemma n_of_update [simp]:
  "n_of P (s\<lparr>f_current := c\<rparr>) = n_of P s" "n_of P (s\<lparr>f_reason := r\<rparr>) = n_of P s"
  "n_of P (s\<lparr>f_stopped := b\<rparr>) = n_of P s"
  "n_of P (s\<lparr>f_threads := add_mset g (f_threads s)\<rparr>) = n_of P s + (if P g then 1 else 0)"
  "n_of P (s\<lparr>f_current := c, f_threads := add_mset g (f_threads s)\<rparr>) = n_of P s + (if P g then 1 else 0)"
  by (simp_all add: n_of_def)

text \<open>The invariant of the serialised machine: a lifecycle is in flight exactly in the states
  \<open>Rebalancing\<close> and \<open>Emergency\<close>, and then only one.\<close>

definition exclusive :: "fsm \<Rightarrow> bool" where
  "exclusive s \<longleftrightarrow> n_of in_lifecycle s = (if f_current s \<in> {CalcStateRebalancing, CalcStateEmergency} then 1 else 0) \<and>
     (n_of scale_pending s > 0 \<longrightarrow> f_current s \<in> {CalcStateIdle, CalcStateScaling})"

lemma n_of_pos:
  "g \<in># f_threads s \<Longrightarrow>
     (in_lifecycle g \<longrightarrow> 0 < n_of in_lifecycle s) \<and> (scale_pending g \<longrightarrow> 0 < n_of scale_pending s)"
  using n_of_moves(2) by blast

lemma exclusive_step:
  assumes "fsm_step s s'" "exclusive s" "n_of scale_pending s > 0 \<longrightarrow> f_current s' \<in> {f_current s, CalcStateScaling}"
  shows "exclusive s'"
  using assms(1)
proof (cases rule: fsm_step.cases)
  case (scale_reason r)
  then show ?thesis using assms(2,3) n_of_pos[of "ScaleChecked r" s]
    by (auto simp: exclusive_def n_of_moves(1) split: if_splits)
next
  case scale_emit
  then show ?thesis using assms(2,3) n_of_pos[of ScaleReasoned s]
    by (auto simp: exclusive_def n_of_moves(1) split: if_splits)
next
  case timer_claim
  then show ?thesis using assms(2,3) n_of_pos[of TimerWait s]
    by (auto simp: exclusive_def n_of_moves(1) split: if_splits)
next
  case timer_run
  then show ?thesis using assms(2,3) n_of_pos[of TimerClaimed s]
    by (auto simp: exclusive_def n_of_moves(1) split: if_splits)
next
  case emergency_reason
  then show ?thesis using assms(2,3) n_of_pos[of ClaimedEmergency s]
    by (auto simp: exclusive_def n_of_moves(1) split: if_splits)
next
  case (rebalancing_reason r)
  then show ?thesis using assms(2,3) n_of_pos[of "ClaimedRebalance r" s]
    by (auto simp: exclusive_def n_of_moves(1) split: if_splits)
next
  case (finish r)
  then show ?thesis using assms(2,3) n_of_pos[of "Running r" s]
    by (auto simp: exclusive_def n_of_moves(1) split: if_splits)
next
  case emit_idle
  then show ?thesis using assms(2,3) n_of_pos[of Finishing s]
    by (auto simp: exclusive_def n_of_moves(1) split: if_splits)
qed (use assms(2,3) in \<open>auto simp: exclusive_def n_of_moves(1)\<close>)

text \<open>In the full machine a state other than idle always has a goroutine that will leave it.\<close>

definition driven :: "fsm \<Rightarrow> bool" where
  "driven s \<longleftrightarrow> (f_current s \<in> {CalcStateRebalancing, CalcStateEmergency} \<longrightarrow> (\<exists>g \<in># f_threads s. in_lifecycle g)) \<and>
     (f_current s = CalcStateScaling \<longrightarrow> \<not> f_stopped s \<longrightarrow> ScaleEmitted \<in># f_threads s \<or> TimerWait \<in># f_threads s)"

lemma moves_mem:
  "h \<in># f_threads s \<Longrightarrow> h \<noteq> g \<Longrightarrow> h \<in># f_threads (moves g gs s)" "h \<in># gs \<Longrightarrow> h \<in># f_threads (moves g gs s)"
  by (auto simp: in_diff_count)

lemma driven_move:
  assumes "driven s" "f_current s' = f_current s" "f_stopped s' = f_stopped s" "f_threads s' = f_threads s - {#g#} + {#h#}"
    and "in_lifecycle g \<longrightarrow> in_lifecycle h" "g \<noteq> TimerWait" "g = ScaleEmitted \<longrightarrow> h = TimerWait"
  shows "driven s'"
proof -
  have keep: "k \<in># f_threads s \<Longrightarrow> k \<noteq> g \<Longrightarrow> k \<in># f_threads s'" and new: "h \<in># f_threads s'" for k
    using assms(4) by (auto simp: in_diff_count)
  show ?thesis unfolding driven_def assms(2,3)
    using assms(1,5-7) keep new unfolding driven_def by metis
qed

lemma driven_drop:
  assumes "driven s" "\<not> in_lifecycle g" "f_current s = CalcStateScaling \<longrightarrow> f_stopped s"
  shows "driven (moves g {#} s)"
proof -
  have "k \<in># f_threads s \<Longrightarrow> in_lifecycle k \<Longrightarrow> k \<in># f_threads (moves g {#} s)" for k
    using moves_mem(1)[of k s g] assms(2) by metis
  then show ?thesis using assms(1,3) unfolding driven_def by (metis moves_fields(1,4))
qed

lemma driven_step:
  assumes "fsm_step s s'" "driven s"
  shows "driven s'"
  using assms(1)
proof (cases rule: fsm_step.cases)
  case (scale_reason r)
  then show ?thesis by (intro driven_move[OF assms(2), of _ "ScaleChecked r" ScaleReasoned]) auto
next
  case timer_run
  then show ?thesis by (intro driven_move[OF assms(2), of _ TimerClaimed "Running (f_reason s)"]) auto
next
  case emergency_reason
  then show ?thesis by (intro driven_move[OF assms(2), of _ ClaimedEmergency "Running ''emergency''"]) auto
next
  case (rebalancing_reason r)
  then show ?thesis by (intro driven_move[OF assms(2), of _ "ClaimedRebalance r" "Running r"]) auto
next
  case (finish r)
  then show ?thesis by (intro driven_move[OF assms(2), of _ "Running r" Finishing]) auto
next
  case scale_timer
  then show ?thesis by (intro driven_move[OF assms(2), of _ ScaleEmitted TimerWait]) auto
next
  case timer_skip
  then show ?thesis by (simp add: driven_drop[OF assms(2)])
next
  case scale_no_timer
  then show ?thesis by (simp add: driven_drop[OF assms(2)])
next
  case timer_cancel
  then show ?thesis by (simp add: driven_drop[OF assms(2)])
qed (use assms(2) in \<open>auto simp: driven_def in_diff_count\<close>)

inductive fsm_steps :: "fsm \<Rightarrow> fsm \<Rightarrow> bool" where
  steps_refl [intro]: "fsm_steps s s"
| steps_cons: "fsm_step s s' \<Longrightarrow> fsm_steps s' s'' \<Longrightarrow> fsm_steps s s''"

lemma finishing_to_idle: "Finishing \<in># f_threads s \<Longrightarrow> \<exists>s'. fsm_steps s s' \<and> f_current s' = CalcStateIdle"
  using steps_cons[OF emit_idle steps_refl] by fastforce

lemma running_to_idle: "Running r \<in># f_threads s \<Longrightarrow> \<exists>s'. fsm_steps s s' \<and> f_current s' = CalcStateIdle"
  using finishing_to_idle[OF moves_mem(2)[of Finishing "{#Finishing#}"]] steps_cons[OF finish] by fastforce

lemma lifecycle_to_idle:
  assumes "g \<in># f_threads s" "in_lifecycle g"
  shows "\<exists>s'. fsm_steps s s' \<and> f_current s' = CalcStateIdle"
proof -
  have *: "\<exists>s'. fsm_steps s s' \<and> f_current s' = CalcStateIdle" if "fsm_step s (moves g {#Running r#} u)" for r u
    using running_to_idle[OF moves_mem(2)[of "Running r" "{#Running r#}" g u]] steps_cons[OF that] by auto
  show ?thesis
  proof (cases g)
    case TimerClaimed
    then show ?thesis using *[of "f_reason s" s] timer_run[of s] assms(1) by simp
  next
    case ClaimedEmergency
    then show ?thesis
      using *[of "''emergency''" "s\<lparr>f_reason := ''emergency''\<rparr>"] emergency_reason[of s] assms(1) by simp
  next
    case (ClaimedRebalance r)
    then show ?thesis using *[of r "s\<lparr>f_reason := r\<rparr>"] rebalancing_reason[of r s] assms(1) by simp
  next
    case (Running r)
    then show ?thesis using running_to_idle assms(1) by simp
  next
    case Finishing
    then show ?thesis using finishing_to_idle assms(1) by simp
  qed (use assms(2) in auto)
qed

lemma timer_to_idle:
  assumes "TimerWait \<in># f_threads s" "f_current s = CalcStateScaling"
  shows "\<exists>s'. fsm_steps s s' \<and> f_current s' = CalcStateIdle"
  using lifecycle_to_idle[of TimerClaimed "moves TimerWait {#TimerClaimed#} (s\<lparr>f_current := CalcStateRebalancing\<rparr>)"]
    steps_cons[OF timer_claim[OF assms]] by auto

section \<open>Properties\<close>

text \<open>C31: Lifecycles are exclusive: as long as no other goroutine changes the state between the
  check and the state change of an \<open>EnterScaling\<close> call, at most one rebalance lifecycle (claim,
  callback, return to idle) is in flight, and exactly one in the states \<open>Rebalancing\<close> and
  \<open>Emergency\<close>.\<close>

theorem fsm_exclusive:
  assumes "serial_reach s"
  shows "n_of in_lifecycle s = (if f_current s \<in> {CalcStateRebalancing, CalcStateEmergency} then 1 else 0)"
proof -
  have "exclusive s" using assms
  proof induction
    case serial_init
    show ?case by (simp add: exclusive_def fsm_init_def n_of_def)
  next
    case (serial_step s s')
    from exclusive_step[OF serial_step(2,4,3)] show ?case .
  qed
  then show ?thesis by (simp add: exclusive_def)
qed

theorem fsm_exclusive_witness:
  "n_of in_lifecycle (fsm_init\<lparr>f_current := CalcStateEmergency, f_threads := {#ClaimedEmergency#}\<rparr>) = 1"
proof -
  have "fsm_step fsm_init (fsm_init\<lparr>f_current := CalcStateEmergency, f_threads := add_mset ClaimedEmergency (f_threads fsm_init)\<rparr>)"
    by (rule claim_emergency) (simp add: fsm_init_def)
  then have "serial_reach (fsm_init\<lparr>f_current := CalcStateEmergency, f_threads := {#ClaimedEmergency#}\<rparr>)"
    using serial_step[OF serial_init] by (simp add: fsm_init_def n_of_def)
  from fsm_exclusive[OF this] show ?thesis by simp
qed

text \<open>C32: The exclusion depends on that condition, which the code does not ensure: \<open>EnterScaling\<close>
  reads the state and later stores \<open>Scaling\<close> whatever the state has become, so a claim in
  between lets two rebalance callbacks run at once.\<close>

theorem fsm_two_callbacks:
  "\<exists>s. fsm_reach s \<and> Running ''partition_update'' \<in># f_threads s \<and> Running ''emergency'' \<in># f_threads s"
proof -
  let ?p = "''partition_update''" and ?q = "''planned_scale''" and ?e = "''emergency''"
  let ?S = "\<lambda>c r T. \<lparr>f_current = c, f_reason = r, f_threads = T, f_stopped = False\<rparr>"
  have "fsm_reach (?S CalcStateIdle [] {#ScaleChecked ?q#})"
    using reach_step[OF reach_init enter_scaling[of fsm_init ?q]] by (simp add: fsm_init_def)
  from reach_step[OF this claim_rebalancing[of _ ?p]]
  have "fsm_reach (?S CalcStateRebalancing [] {#ClaimedRebalance ?p, ScaleChecked ?q#})" by simp
  from reach_step[OF this rebalancing_reason[of ?p]]
  have "fsm_reach (?S CalcStateRebalancing ?p {#Running ?p, ScaleChecked ?q#})" by (simp add: moves_def)
  from reach_step[OF this scale_reason[of ?q]]
  have "fsm_reach (?S CalcStateRebalancing ?q {#ScaleReasoned, Running ?p#})" by (simp add: moves_def)
  from reach_step[OF this scale_emit]
  have "fsm_reach (?S CalcStateScaling ?q {#ScaleEmitted, Running ?p#})" by (simp add: moves_def)
  from reach_step[OF this claim_emergency]
  have "fsm_reach (?S CalcStateEmergency ?q {#ClaimedEmergency, ScaleEmitted, Running ?p#})" by simp
  from reach_step[OF this emergency_reason]
  have "fsm_reach (?S CalcStateEmergency ?e {#Running ?e, ScaleEmitted, Running ?p#})" by (simp add: moves_def)
  then show ?thesis by (intro exI conjI) (assumption, simp_all)
qed



text \<open>An emergency runs the rebalance callback exactly once, with the reason \<open>emergency\<close>, when
  no other lifecycle is in flight, and leaves the machine idle with no reason whatever the
  callback returns; otherwise it does nothing.\<close>

lemma emergency_lifecycle:
  "EnterEmergency cb (sm, w) =
     (if sm_current sm \<in> {CalcStateIdle, CalcStateScaling}
      then (ReturnToIdle (fst (TryClaimEmergency sm)), snd (run_callback cb ''emergency'' w))
      else (sm, w)) \<and>
   sm_current (ReturnToIdle (fst (TryClaimEmergency sm))) = CalcStateIdle \<and>
   sm_scalingReason (ReturnToIdle (fst (TryClaimEmergency sm))) = []"
proof -
  obtain sm' won where c: "TryClaimEmergency sm = (sm', won)" by fastforce
  note p = TryClaimEmergency_props[OF c]
  show ?thesis
  proof (cases won)
    case True
    with p(1) c show ?thesis by (simp add: EnterEmergency_def RunClaimedRebalance_eq)
  next
    case False
    with p(1,2) c show ?thesis by (simp add: EnterEmergency_def)
  qed
qed

end
