(* ===== verification/KV.thy ===== *)
theory KV
  imports Prelude
begin

text \<open>
  The interface of the NATS JetStream key-value store as the components use it. The store is a
  parameter: a record of operations on a state of the world, whose type is arbitrary. What the
  code relies on is the predicate \<open>kv_laws\<close>: every operation takes effect atomically at some
  point between its call and its return, writes are conditioned on the revision as documented,
  a lost condition (\<open>ErrKeyExists\<close>) has no effect, any other error leaves open whether the write
  was applied, and other clients may write at any time. The helpers of
  \<^verbatim>\<open>kvutil/ops.go\<close> are modelled on top of it.

  A value is the record that the code marshals; decoding is a parameter of the helper that uses
  it.
\<close>

section \<open>Operations\<close>

datatype kv_error = ErrKeyExists | ErrKeyNotFound | ErrNoKeysFound | ErrKV string

record 'v kv_entry =
  ent_Value :: 'v
  ent_Revision :: nat
  ent_Created :: time

record ('v, 'w) kv =
  kv_Get :: "string \<Rightarrow> 'w \<Rightarrow> (kv_error + 'v kv_entry) \<times> 'w"
  kv_Create :: "string \<Rightarrow> 'v \<Rightarrow> 'w \<Rightarrow> (kv_error + nat) \<times> 'w"
  kv_Update :: "string \<Rightarrow> 'v \<Rightarrow> nat \<Rightarrow> 'w \<Rightarrow> (kv_error + nat) \<times> 'w"
  kv_Put :: "string \<Rightarrow> 'v \<Rightarrow> 'w \<Rightarrow> (kv_error + nat) \<times> 'w"
  kv_Delete :: "string \<Rightarrow> nat option \<Rightarrow> 'w \<Rightarrow> kv_error option \<times> 'w" \<comment> \<open>the option \<open>LastRevision\<close>\<close>
  kv_Keys :: "'w \<Rightarrow> (kv_error + string list) \<times> 'w"

text \<open>The operation that a watched entry reports.\<close>

datatype kv_operation = KeyValuePut | KeyValueDelete | KeyValuePurge

section \<open>Helpers\<close>

datatype json_error = JsonKV kv_error | JsonUnmarshal

definition GetJSON ::
  "('v, 'w) kv \<Rightarrow> ('v \<Rightarrow> 'a option) \<Rightarrow> string \<Rightarrow> 'w \<Rightarrow> (json_error \<times> nat + ('a \<times> nat) option) \<times> 'w" where
  "GetJSON K unmarshal key w =
     (case kv_Get K key w of
        (Inl ErrKeyNotFound, w') \<Rightarrow> (Inr None, w')
      | (Inl e, w') \<Rightarrow> (Inl (JsonKV e, 0), w')
      | (Inr entry, w') \<Rightarrow>
          (case unmarshal (ent_Value entry) of
             None \<Rightarrow> (Inl (JsonUnmarshal, ent_Revision entry), w')
           | Some x \<Rightarrow> (Inr (Some (x, ent_Revision entry)), w')))"

definition PutJSON :: "('v, 'w) kv \<Rightarrow> ('a \<Rightarrow> 'v) \<Rightarrow> string \<Rightarrow> 'a \<Rightarrow> 'w \<Rightarrow> (kv_error + nat) \<times> 'w" where
  "PutJSON K marshal key x w = kv_Put K key (marshal x) w"

definition UpdateJSON ::
  "('v, 'w) kv \<Rightarrow> ('a \<Rightarrow> 'v) \<Rightarrow> string \<Rightarrow> 'a \<Rightarrow> nat \<Rightarrow> 'w \<Rightarrow> (kv_error + nat) \<times> 'w" where
  "UpdateJSON K marshal key x revision w = kv_Update K key (marshal x) revision w"

definition ListKeys :: "('v, 'w) kv \<Rightarrow> string \<Rightarrow> bool \<Rightarrow> 'w \<Rightarrow> (kv_error + string list) \<times> 'w" where
  "ListKeys K prefix stripPrefix w =
     (case kv_Keys K w of
        (Inl ErrNoKeysFound, w') \<Rightarrow> (Inr [], w')
      | (Inl e, w') \<Rightarrow> (Inl e, w')
      | (Inr ks, w') \<Rightarrow>
          if prefix = [] then (Inr ks, w')
          else (Inr (map (\<lambda>k. if stripPrefix then drop (length prefix) k else k)
                      (filter (\<lambda>k. has_prefix k prefix) ks)), w'))"

definition DeleteKey :: "('v, 'w) kv \<Rightarrow> string \<Rightarrow> 'w \<Rightarrow> kv_error option \<times> 'w" where
  "DeleteKey K key w =
     (case kv_Delete K key None w of
        (Some ErrKeyNotFound, w') \<Rightarrow> (None, w')
      | (e, w') \<Rightarrow> (e, w'))"

section \<open>The store behind the operations\<close>

record 'v bucket =
  bk_last :: nat \<comment> \<open>the revision of the last write\<close>
  bk_entries :: "string \<Rightarrow> 'v kv_entry option"

definition bucket_wf :: "'v bucket \<Rightarrow> bool" where
  "bucket_wf b \<longleftrightarrow> (\<forall>k e. bk_entries b k = Some e \<longrightarrow> 0 < ent_Revision e \<and> ent_Revision e \<le> bk_last b)"

text \<open>Whatever is written to a bucket, revisions grow.\<close>

definition evolves :: "'v bucket \<Rightarrow> 'v bucket \<Rightarrow> bool" where
  "evolves b b' \<longleftrightarrow> bk_last b \<le> bk_last b' \<and>
     (\<forall>k. bk_entries b' k = bk_entries b k \<or> bk_entries b' k = None \<or>
       (\<exists>e. bk_entries b' k = Some e \<and> bk_last b < ent_Revision e))"

definition eff_put :: "string \<Rightarrow> 'v \<Rightarrow> 'v bucket \<Rightarrow> nat \<Rightarrow> 'v bucket \<Rightarrow> bool" where
  "eff_put k v b n b' \<longleftrightarrow> bk_last b < n \<and>
     (\<exists>t. b' = \<lparr>bk_last = n, bk_entries = (bk_entries b)(k \<mapsto> \<lparr>ent_Value = v, ent_Revision = n, ent_Created = t\<rparr>)\<rparr>)"

definition eff_del :: "string \<Rightarrow> 'v bucket \<Rightarrow> nat \<Rightarrow> 'v bucket \<Rightarrow> bool" where
  "eff_del k b n b' \<longleftrightarrow> bk_last b < n \<and> b' = \<lparr>bk_last = n, bk_entries = (bk_entries b)(k := None)\<rparr>"

definition rev_at :: "'v bucket \<Rightarrow> string \<Rightarrow> nat option" where
  "rev_at b k = map_option ent_Revision (bk_entries b k)"

definition get_resp :: "string \<Rightarrow> 'v bucket \<Rightarrow> kv_error + 'v kv_entry \<Rightarrow> bool" where
  "get_resp k b r \<longleftrightarrow>
     (case r of Inr e \<Rightarrow> bk_entries b k = Some e | Inl ErrKeyNotFound \<Rightarrow> bk_entries b k = None | Inl _ \<Rightarrow> True)"

definition write_resp ::
  "('v bucket \<Rightarrow> bool) \<Rightarrow> ('v bucket \<Rightarrow> nat \<Rightarrow> 'v bucket \<Rightarrow> bool) \<Rightarrow> 'v bucket \<Rightarrow> kv_error + nat \<Rightarrow> 'v bucket \<Rightarrow> bool" where
  "write_resp guard eff b r b' \<longleftrightarrow>
     (case r of
        Inr n \<Rightarrow> guard b \<and> eff b n b'
      | Inl ErrKeyExists \<Rightarrow> b' = b
      | Inl _ \<Rightarrow> b' = b \<or> guard b \<and> (\<exists>n. eff b n b'))"

definition del_resp ::
  "('v bucket \<Rightarrow> bool) \<Rightarrow> ('v bucket \<Rightarrow> nat \<Rightarrow> 'v bucket \<Rightarrow> bool) \<Rightarrow> 'v bucket \<Rightarrow> kv_error option \<Rightarrow> 'v bucket \<Rightarrow> bool" where
  "del_resp guard eff b r b' \<longleftrightarrow>
     (case r of
        None \<Rightarrow> guard b \<and> (\<exists>n. eff b n b')
      | Some ErrKeyExists \<Rightarrow> b' = b
      | Some _ \<Rightarrow> b' = b \<or> guard b \<and> (\<exists>n. eff b n b'))"

text \<open>The laws. \<open>view\<close> is the content of the bucket in a world, \<open>env\<close> what may happen around the
  operations: writes of other clients and the passing of time.\<close>

definition env_law :: "('w \<Rightarrow> 'v bucket) \<Rightarrow> ('w \<Rightarrow> 'w \<Rightarrow> bool) \<Rightarrow> bool" where
  "env_law view env \<longleftrightarrow> (\<forall>w. env w w) \<and> (\<forall>a b c. env a b \<longrightarrow> env b c \<longrightarrow> env a c) \<and>
     (\<forall>w w'. env w w' \<longrightarrow> bucket_wf (view w) \<longrightarrow> evolves (view w) (view w') \<and> bucket_wf (view w'))"

definition get_law :: "('w \<Rightarrow> 'v bucket) \<Rightarrow> ('w \<Rightarrow> 'w \<Rightarrow> bool) \<Rightarrow> (string \<Rightarrow> 'w \<Rightarrow> (kv_error + 'v kv_entry) \<times> 'w) \<Rightarrow> bool" where
  "get_law view env get \<longleftrightarrow>
     (\<forall>k w r w'. get k w = (r, w') \<longrightarrow> (\<exists>w1. env w w1 \<and> get_resp k (view w1) r \<and> env w1 w'))"

text \<open>A write of \<open>v\<close> to \<open>k\<close> under a condition on the revision of the key.\<close>

definition write_law ::
  "('w \<Rightarrow> 'v bucket) \<Rightarrow> ('w \<Rightarrow> 'w \<Rightarrow> bool) \<Rightarrow> (nat option \<Rightarrow> bool) \<Rightarrow> string \<Rightarrow> 'v \<Rightarrow> ('w \<Rightarrow> (kv_error + nat) \<times> 'w) \<Rightarrow> bool" where
  "write_law view env cond k v write \<longleftrightarrow>
     (\<forall>w r w'. write w = (r, w') \<longrightarrow> (\<exists>w1 w2. env w w1 \<and>
        write_resp (\<lambda>b. cond (rev_at b k)) (eff_put k v) (view w1) r (view w2) \<and> env w2 w'))"

definition delete_law ::
  "('w \<Rightarrow> 'v bucket) \<Rightarrow> ('w \<Rightarrow> 'w \<Rightarrow> bool) \<Rightarrow> (string \<Rightarrow> nat option \<Rightarrow> 'w \<Rightarrow> kv_error option \<times> 'w) \<Rightarrow> bool" where
  "delete_law view env delete \<longleftrightarrow>
     (\<forall>k n w r w'. delete k n w = (r, w') \<longrightarrow> (\<exists>w1 w2. env w w1 \<and>
        del_resp (\<lambda>b. n = None \<or> rev_at b k = n) (eff_del k) (view w1) r (view w2) \<and> env w2 w'))"

definition kv_laws :: "('v, 'w) kv \<Rightarrow> ('w \<Rightarrow> 'v bucket) \<Rightarrow> ('w \<Rightarrow> 'w \<Rightarrow> bool) \<Rightarrow> bool" where
  "kv_laws K view env \<longleftrightarrow> env_law view env \<and> get_law view env (kv_Get K) \<and>
     (\<forall>k v. write_law view env (\<lambda>r. r = None) k v (kv_Create K k v)) \<and>
     (\<forall>k v n. write_law view env (\<lambda>r. r = Some n) k v (kv_Update K k v n)) \<and>
     (\<forall>k v. write_law view env (\<lambda>r. True) k v (kv_Put K k v)) \<and>
     delete_law view env (kv_Delete K) \<and>
     (\<forall>w r w'. kv_Keys K w = (r, w') \<longrightarrow> env w w')"

section \<open>Evolution of the world\<close>

text \<open>The world evolves by steps of the environment, by effects of the component, of which the
  relation \<open>own\<close> says what they may be, and by steps that leave the bucket as it is.\<close>

inductive evo :: "('w \<Rightarrow> 'b) \<Rightarrow> ('w \<Rightarrow> 'w \<Rightarrow> bool) \<Rightarrow> ('b \<Rightarrow> 'b \<Rightarrow> bool) \<Rightarrow> 'w \<Rightarrow> 'w \<Rightarrow> bool"
  for view env own where
  evo_refl [intro, simp]: "evo view env own w w"
| evo_env: "evo view env own w w1 \<Longrightarrow> env w1 w2 \<Longrightarrow> evo view env own w w2"
| evo_own: "evo view env own w w1 \<Longrightarrow> own (view w1) (view w2) \<Longrightarrow> evo view env own w w2"
| evo_same: "evo view env own w w1 \<Longrightarrow> view w2 = view w1 \<Longrightarrow> evo view env own w w2"

lemma evo_same_or: "evo view env own w w1 \<Longrightarrow> view w2 = view w1 \<or> own (view w1) (view w2) \<Longrightarrow> evo view env own w w2"
  by (auto intro: evo_own evo_same)

lemma evo_trans [trans]: "evo view env own w w1 \<Longrightarrow> evo view env own w1 w2 \<Longrightarrow> evo view env own w w2"
  by (rotate_tac, induction rule: evo.induct) (auto intro: evo_env evo_own evo_same)

lemma evo_mono: "evo view env own w w' \<Longrightarrow> (\<And>b b'. own b b' \<Longrightarrow> own' b b') \<Longrightarrow> evo view env own' w w'"
  by (induction rule: evo.induct) (auto intro: evo_env evo_own evo_same)

lemma evo_env1: "env w w' \<Longrightarrow> evo view env own w w'"
  by (rule evo_env[of view env own, OF evo_refl])

text \<open>An effect that touches only the keys of a set.\<close>

definition touches :: "(string \<Rightarrow> bool) \<Rightarrow> 'v bucket \<Rightarrow> 'v bucket \<Rightarrow> bool" where
  "touches P b b' \<longleftrightarrow> evolves b b' \<and> (bucket_wf b \<longrightarrow> bucket_wf b') \<and> (\<forall>k. \<not> P k \<longrightarrow> bk_entries b' k = bk_entries b k)"

lemma touches_mono: "touches P b b' \<Longrightarrow> (\<And>k. P k \<Longrightarrow> Q k) \<Longrightarrow> touches Q b b'"
  unfolding touches_def by blast

lemma touches_refl [simp]: "touches P b b"
  by (auto simp: touches_def evolves_def)

lemma evolves_refl [simp]: "evolves b b"
  by (simp add: evolves_def)

lemma evolvesD: "evolves b b' \<Longrightarrow> bk_entries b' k = bk_entries b k \<or> bk_entries b' k = None \<or>
    (\<exists>e. bk_entries b' k = Some e \<and> bk_last b < ent_Revision e)"
  by (simp add: evolves_def)

lemma evolves_last: "evolves b b' \<Longrightarrow> bk_last b \<le> bk_last b'"
  by (simp add: evolves_def)

lemma evolves_trans: assumes "evolves b b1" "evolves b1 b2" shows "evolves b b2"
  unfolding evolves_def
proof (intro conjI allI)
  show "bk_last b \<le> bk_last b2"
    using assms[THEN evolves_last] by simp
  fix k
  show "bk_entries b2 k = bk_entries b k \<or> bk_entries b2 k = None \<or>
      (\<exists>e. bk_entries b2 k = Some e \<and> bk_last b < ent_Revision e)"
    using evolvesD[OF assms(1), of k] evolvesD[OF assms(2), of k] evolves_last[OF assms(1)] by auto
qed

lemma eff_put_touches: "eff_put k v b n b' \<Longrightarrow> touches (\<lambda>k'. k' = k) b b'"
  by (fastforce simp: eff_put_def touches_def evolves_def bucket_wf_def split: if_splits)

lemma eff_del_touches: "eff_del k b n b' \<Longrightarrow> touches (\<lambda>k'. k' = k) b b'"
  by (fastforce simp: eff_del_def touches_def evolves_def bucket_wf_def split: if_splits)

lemma eff_put_at: "eff_put k v b n b' \<Longrightarrow>
    \<exists>e. bk_entries b' k = Some e \<and> ent_Value e = v \<and> ent_Revision e = n"
  by (auto simp: eff_put_def)

lemma evo_wf:
  assumes "evo view env own w w'" "bucket_wf (view w)" "kv_laws K view env"
    and own: "\<And>b b'. own b b' \<Longrightarrow> touches (\<lambda>_. True) b b'"
  shows "bucket_wf (view w') \<and> evolves (view w) (view w')"
  using assms(1,2)
proof induction
  case (evo_env w w1 w2)
  then show ?case using assms(3) unfolding kv_laws_def env_law_def by (meson evolves_trans)
next
  case (evo_own w w1 w2)
  then show ?case using own[OF evo_own(2)] unfolding touches_def by (meson evolves_trans)
qed simp_all

text \<open>An entry is the same as long as its revision is.\<close>

lemma same_revision:
  assumes "bk_entries b k = Some e" "evolves b b'" "bucket_wf b" "rev_at b' k = Some (ent_Revision e)"
  shows "bk_entries b' k = Some e"
proof -
  have "ent_Revision e \<le> bk_last b" using assms(1,3) by (simp add: bucket_wf_def)
  then show ?thesis using evolvesD[OF assms(2), of k] assms(1,4) by (auto simp: rev_at_def)
qed

section \<open>What the operations do\<close>

text \<open>The laws in the form the clients use: every operation is an evolution of the world in which
  at most the written key is touched.\<close>

lemma kv_env_trans: "kv_laws K view env \<Longrightarrow> env a b \<Longrightarrow> env b c \<Longrightarrow> env a c"
  unfolding kv_laws_def env_law_def by meson

lemma kv_env_refl: "kv_laws K view env \<Longrightarrow> env a a"
  unfolding kv_laws_def env_law_def by meson

lemma kv_env_wf: "kv_laws K view env \<Longrightarrow> env w w' \<Longrightarrow> bucket_wf (view w) \<Longrightarrow> evolves (view w) (view w') \<and> bucket_wf (view w')"
  unfolding kv_laws_def env_law_def by meson

lemma kv_get_ok: "kv_laws K view env \<Longrightarrow> kv_Get K k w = (r, w') \<Longrightarrow>
    \<exists>w1. env w w1 \<and> get_resp k (view w1) r \<and> env w1 w'"
  unfolding kv_laws_def get_law_def by meson

lemma kv_get_env: "kv_laws K view env \<Longrightarrow> kv_Get K k w = (r, w') \<Longrightarrow> env w w'"
  using kv_get_ok kv_env_trans by metis

lemma kv_keys_env: "kv_laws K view env \<Longrightarrow> kv_Keys K w = (r, w') \<Longrightarrow> env w w'"
  unfolding kv_laws_def by meson

lemma kv_create_ok: "kv_laws K view env \<Longrightarrow> kv_Create K k v w = (r, w') \<Longrightarrow>
    \<exists>w1 w2. env w w1 \<and> write_resp (\<lambda>b. rev_at b k = None) (eff_put k v) (view w1) r (view w2) \<and> env w2 w'"
  unfolding kv_laws_def write_law_def by meson

lemma kv_update_ok: "kv_laws K view env \<Longrightarrow> kv_Update K k v n w = (r, w') \<Longrightarrow>
    \<exists>w1 w2. env w w1 \<and> write_resp (\<lambda>b. rev_at b k = Some n) (eff_put k v) (view w1) r (view w2) \<and> env w2 w'"
  unfolding kv_laws_def write_law_def by meson

lemma kv_put_ok: "kv_laws K view env \<Longrightarrow> kv_Put K k v w = (r, w') \<Longrightarrow>
    \<exists>w1 w2. env w w1 \<and> write_resp (\<lambda>b. True) (eff_put k v) (view w1) r (view w2) \<and> env w2 w'"
  unfolding kv_laws_def write_law_def by meson

lemma kv_delete_ok: "kv_laws K view env \<Longrightarrow> kv_Delete K k n w = (r, w') \<Longrightarrow>
    \<exists>w1 w2. env w w1 \<and> del_resp (\<lambda>b. n = None \<or> rev_at b k = n) (eff_del k) (view w1) r (view w2) \<and> env w2 w'"
  unfolding kv_laws_def delete_law_def by meson

lemma write_resp_touches: "write_resp guard (eff_put k v) b r b' \<Longrightarrow> touches (\<lambda>k'. k' = k) b b'"
  by (auto simp: write_resp_def split: sum.splits kv_error.splits intro: eff_put_touches)

lemma del_resp_touches: "del_resp guard (eff_del k) b r b' \<Longrightarrow> touches (\<lambda>k'. k' = k) b b'"
  by (auto simp: del_resp_def split: option.splits kv_error.splits intro: eff_del_touches)

lemma evo_step:
  assumes "env w w1" "own (view w1) (view w2)" "env w2 w'"
  shows "evo view env own w w'"
proof -
  have "evo view env own w w1" by (rule evo_env[of view env own, OF evo_refl]) (rule assms(1))
  then have "evo view env own w w2" by (rule evo_own) (rule assms(2))
  then show ?thesis by (rule evo_env) (rule assms(3))
qed

lemma kv_create_evo: "kv_laws K view env \<Longrightarrow> kv_Create K k v w = (r, w') \<Longrightarrow>
    evo view env (touches (\<lambda>k'. k' = k)) w w'"
  by (drule (1) kv_create_ok, elim exE conjE, rule evo_step, assumption, erule write_resp_touches, assumption)

lemma kv_update_evo: "kv_laws K view env \<Longrightarrow> kv_Update K k v n w = (r, w') \<Longrightarrow>
    evo view env (touches (\<lambda>k'. k' = k)) w w'"
  by (drule (1) kv_update_ok, elim exE conjE, rule evo_step, assumption, erule write_resp_touches, assumption)

lemma kv_put_evo: "kv_laws K view env \<Longrightarrow> kv_Put K k v w = (r, w') \<Longrightarrow>
    evo view env (touches (\<lambda>k'. k' = k)) w w'"
  by (drule (1) kv_put_ok, elim exE conjE, rule evo_step, assumption, erule write_resp_touches, assumption)

lemma kv_delete_evo: "kv_laws K view env \<Longrightarrow> kv_Delete K k n w = (r, w') \<Longrightarrow>
    evo view env (touches (\<lambda>k'. k' = k)) w w'"
  by (drule (1) kv_delete_ok, elim exE conjE, rule evo_step, assumption, erule del_resp_touches, assumption)

lemma kv_get_evo: "kv_laws K view env \<Longrightarrow> kv_Get K k w = (r, w') \<Longrightarrow> evo view env own w w'"
  by (rule evo_env1, rule kv_get_env)

lemma kv_keys_evo: "kv_laws K view env \<Longrightarrow> kv_Keys K w = (r, w') \<Longrightarrow> evo view env own w w'"
  by (rule evo_env1, rule kv_keys_env)

lemma listKeys_env: "kv_laws K view env \<Longrightarrow> ListKeys K p s w = (r, w') \<Longrightarrow> env w w'"
  by (auto simp: ListKeys_def dest: kv_keys_env split: prod.splits sum.splits kv_error.splits if_splits)

lemma deleteKey_evo: "kv_laws K view env \<Longrightarrow> DeleteKey K k w = (r, w') \<Longrightarrow>
    evo view env (touches (\<lambda>k'. k' = k)) w w'"
  by (auto simp: DeleteKey_def dest: kv_delete_evo split: prod.splits option.splits kv_error.splits)

section \<open>An in-memory store\<close>

text \<open>The laws are consistent: a bucket in memory, with a clock and without other clients,
  satisfies them.\<close>

type_synonym 'v mem_world = "'v bucket \<times> time"

definition mem_write :: "string \<Rightarrow> 'v \<Rightarrow> 'v mem_world \<Rightarrow> (kv_error + nat) \<times> 'v mem_world" where
  "mem_write k v w =
     (let n = bk_last (fst w) + 1;
          e = \<lparr>ent_Value = v, ent_Revision = n, ent_Created = snd w\<rparr>
      in (Inr n, \<lparr>bk_last = n, bk_entries = (bk_entries (fst w))(k \<mapsto> e)\<rparr>, snd w))"

definition mem_kv :: "(string list) \<Rightarrow> ('v, 'v mem_world) kv" where
  "mem_kv names = \<lparr>
     kv_Get = (\<lambda>k w. (case bk_entries (fst w) k of None \<Rightarrow> Inl ErrKeyNotFound | Some e \<Rightarrow> Inr e, w)),
     kv_Create = (\<lambda>k v w. if rev_at (fst w) k = None then mem_write k v w else (Inl ErrKeyExists, w)),
     kv_Update = (\<lambda>k v n w. if rev_at (fst w) k = Some n then mem_write k v w else (Inl ErrKeyExists, w)),
     kv_Put = (\<lambda>k v w. mem_write k v w),
     kv_Delete = (\<lambda>k n w. if n = None \<or> rev_at (fst w) k = n
        then (None, \<lparr>bk_last = bk_last (fst w) + 1, bk_entries = (bk_entries (fst w))(k := None)\<rparr>, snd w)
        else (Some ErrKeyExists, w)),
     kv_Keys = (\<lambda>w. case filter (\<lambda>k. bk_entries (fst w) k \<noteq> None) names of
        [] \<Rightarrow> (Inl ErrNoKeysFound, w) | ks \<Rightarrow> (Inr ks, w))\<rparr>"

lemma mem_write_law:
  "write_law fst (=) cond k v (\<lambda>w. if cond (rev_at (fst w) k) then mem_write k v w else (Inl ErrKeyExists, w))"
  by (auto simp: write_law_def mem_write_def Let_def write_resp_def eff_put_def split: if_splits)

lemma mem_kv_laws: "kv_laws (mem_kv names) fst (=)"
  unfolding kv_laws_def
proof (intro conjI allI)
  show "env_law fst (=)" by (simp add: env_law_def)
  show "get_law fst (=) (kv_Get (mem_kv names))"
    by (auto simp: get_law_def mem_kv_def get_resp_def split: option.splits)
  show "write_law fst (=) (\<lambda>r. r = None) k v (kv_Create (mem_kv names) k v)" for k v
    using mem_write_law[of "\<lambda>r. r = None" k v] by (simp add: mem_kv_def)
  show "write_law fst (=) (\<lambda>r. r = Some n) k v (kv_Update (mem_kv names) k v n)" for k v n
    using mem_write_law[of "\<lambda>r. r = Some n" k v] by (simp add: mem_kv_def)
  show "write_law fst (=) (\<lambda>r. True) k v (kv_Put (mem_kv names) k v)" for k v
    using mem_write_law[of "\<lambda>r. True" k v] by (simp add: mem_kv_def)
  show "delete_law fst (=) (kv_Delete (mem_kv names))"
    by (auto simp: delete_law_def mem_kv_def del_resp_def eff_del_def split: if_splits)
  show "kv_Keys (mem_kv names) w = (r, w') \<longrightarrow> w = w'" for w r w'
    by (auto simp: mem_kv_def split: list.splits)
qed

end
