(* ===== verification/Publisher.thy ===== *)
theory Publisher
  imports Partition_Types KV
begin

text \<open>
  The assignment publisher, \<^verbatim>\<open>internal/assignment/assignment_publisher.go\<close>: content-addressed
  payload keys, the alias barrier for legacy workers, the commit written by compare-and-swap, and
  the recovery of the publisher's view after a lost swap. The store is a parameter of type
  \<open>kv\<close>; \<open>H\<close> is the hexadecimal SHA-256 of the (decompressed) bytes of a stored value. Metrics and
  logging are left out.
\<close>

section \<open>Data\<close>

text \<open>What the assignment bucket stores: the JSON of a commit, a commit log entry or a legacy
  alias, the compressed JSON of a payload, or bytes that are none of these.\<close>

datatype asg_value =
    VCommit assignment_commit
  | VCommitLog assignment_commit_log
  | VAlias assignment
  | VPayload assignment_payload
  | VRaw bytes

text \<open>\<open>json.Unmarshal\<close> into a commit or an alias: it fails on bytes that are not JSON and on a
  version that is not an \<open>int64\<close>, and takes over the fields whose names agree.\<close>

definition zero_commit :: assignment_commit where
  "zero_commit = \<lparr>cm_Version = 0, cm_LeaderRevision = 0, cm_SourceRevision = 0, cm_SourceRevisionKnown = False,
     cm_PublishedAt = 0, cm_Workers = [], cm_Payloads = [], cm_BatchDigest = 0, cm_ParkedCount = 0,
     cm_ParkedDigest = 0, cm_PrevCommitRev = 0, cm_Lifecycle = []\<rparr>"

definition zero_assignment :: assignment where
  "zero_assignment = \<lparr>as_Version = 0, as_Lifecycle = [], as_Partitions = [], as_LeaderRevision = 0,
     as_SourceRevision = 0, as_SourceRevisionKnown = False, as_TotalWorkers = 0, as_WorkerLabels = [],
     as_WorkerLabelsKnown = False\<rparr>"

definition commit_fields :: "asg_value \<Rightarrow> assignment_commit option" where
  "commit_fields v =
     (case v of
        VCommit c \<Rightarrow> Some c
      | VCommitLog l \<Rightarrow> Some (zero_commit\<lparr>cm_Version := cl_Version l, cm_LeaderRevision := cl_LeaderRevision l,
          cm_PublishedAt := cl_PublishedAt l\<rparr>)
      | VAlias a \<Rightarrow> Some (zero_commit\<lparr>cm_Version := as_Version a, cm_LeaderRevision := as_LeaderRevision a,
          cm_SourceRevision := as_SourceRevision a, cm_SourceRevisionKnown := as_SourceRevisionKnown a,
          cm_Lifecycle := as_Lifecycle a\<rparr>)
      | VPayload p \<Rightarrow> None
      | VRaw b \<Rightarrow> None)"

definition unmarshal_commit :: "asg_value \<Rightarrow> assignment_commit option" where
  "unmarshal_commit v =
     (case commit_fields v of
        None \<Rightarrow> None
      | Some c \<Rightarrow> if in_i64 (cm_Version c) then Some c else None)"

definition unmarshal_assignment :: "asg_value \<Rightarrow> assignment option" where
  "unmarshal_assignment v =
     (case v of
        VAlias a \<Rightarrow> if in_i64 (as_Version a) then Some a else None
      | _ \<Rightarrow> map_option (\<lambda>c. zero_assignment\<lparr>as_Version := cm_Version c, as_LeaderRevision := cm_LeaderRevision c,
               as_SourceRevision := cm_SourceRevision c, as_SourceRevisionKnown := cm_SourceRevisionKnown c,
               as_Lifecycle := cm_Lifecycle c\<rparr>) (unmarshal_commit v))"

text \<open>The heartbeat of a worker and the bytes a heartbeat key holds: nothing, text that starts
  with a brace (and is a heartbeat in JSON, or not), or other text (and is a timestamp, or not).\<close>

record heartbeat =
  hb_WorkerID :: string
  hb_SchemaVersion :: nat
  hb_Capabilities :: "32 word"
  hb_Labels :: "string list"
  hb_LeaderRevision :: nat
  hb_AppliedVersion :: i64
  hb_AppliedDigest :: u64
  hb_AppliedSourceRevision :: nat
  hb_AppliedSourceRevKnown :: bool
  hb_AppliedAt :: time
  hb_Timestamp :: time

datatype hb_bytes = HbEmpty | HbBrace "heartbeat option" | HbText "time option"

definition DecodeHeartbeat :: "hb_bytes \<Rightarrow> heartbeat option" where
  "DecodeHeartbeat b =
     (case b of
        HbEmpty \<Rightarrow> None
      | HbBrace h \<Rightarrow> h
      | HbText None \<Rightarrow> None
      | HbText (Some ts) \<Rightarrow> Some \<lparr>hb_WorkerID = [], hb_SchemaVersion = 0, hb_Capabilities = 0, hb_Labels = [],
          hb_LeaderRevision = 0, hb_AppliedVersion = 0, hb_AppliedDigest = 0, hb_AppliedSourceRevision = 0,
          hb_AppliedSourceRevKnown = False, hb_AppliedAt = 0, hb_Timestamp = ts\<rparr>)"

definition CapAckV1 :: "32 word" where "CapAckV1 = 1"
definition CapTwoPhaseHandoff :: "32 word" where "CapTwoPhaseHandoff = 2"
definition CapProcessingGate :: "32 word" where "CapProcessingGate = 4"

definition commitKeyName :: string where "commitKeyName = ''_commit''"
definition commitLogPrefix :: string where "commitLogPrefix = ''_commit_log.''"
definition payloadKeyPrefix :: string where "payloadKeyPrefix = ''_payload.''"
definition protocolKeyMarker :: string where "protocolKeyMarker = ''_''"
definition aliasBarrierMaxAttempts :: nat where "aliasBarrierMaxAttempts = 3"
definition payloadAdoptMaxAttempts :: nat where "payloadAdoptMaxAttempts = 3"

text \<open>The publisher: its collaborators, which do not change, and its state. A callback that is not
  wired is \<open>None\<close>; \<open>ctx_Err\<close> is \<open>ctx.Err() \<noteq> nil\<close> and \<open>backoff\<close> the wait between two attempts.\<close>

record 'w pub_cfg =
  assignmentKV :: "(asg_value, 'w) kv"
  heartbeatKV :: "(hb_bytes, 'w) kv option"
  keyPrefix :: string
  hbKeyPrefix :: string
  leaderCheckFn :: "(nat \<Rightarrow> 'w \<Rightarrow> bool \<times> 'w) option" \<comment> \<open>whether the check returns an error\<close>
  gcTriggerFn :: "('w \<Rightarrow> 'w) option"
  isShuttingDown :: "('w \<Rightarrow> bool \<times> 'w) option"
  now :: "'w \<Rightarrow> time \<times> 'w"
  time_Now :: "'w \<Rightarrow> time \<times> 'w"
  ctx_Err :: "'w \<Rightarrow> bool \<times> 'w"
  backoff :: "nat \<Rightarrow> 'w \<Rightarrow> 'w"

record publisher =
  currentVersion :: i64
  lastCommitRev :: nat
  lastCommit :: "assignment_commit option"
  lastCommitObservedAtMono :: time
  commitReseedPending :: bool
  lastRebalance :: time
  inflightRefs :: "string list"

text \<open>The configuration, and the construction from it.\<close>

record 'w publisher_config =
  cfg_AssignmentKV :: "(asg_value, 'w) kv"
  cfg_HeartbeatKV :: "(hb_bytes, 'w) kv option"
  cfg_Prefix :: string
  cfg_HeartbeatPrefix :: string
  cfg_LeaderCheckFn :: "(nat \<Rightarrow> 'w \<Rightarrow> bool \<times> 'w) option"
  cfg_GCTriggerFn :: "('w \<Rightarrow> 'w) option"
  cfg_IsShuttingDown :: "('w \<Rightarrow> bool \<times> 'w) option"
  cfg_Now :: "('w \<Rightarrow> time \<times> 'w) option"

definition NewAssignmentPublisher ::
  "('w \<Rightarrow> time \<times> 'w) \<Rightarrow> ('w \<Rightarrow> bool \<times> 'w) \<Rightarrow> (nat \<Rightarrow> 'w \<Rightarrow> 'w) \<Rightarrow> 'w publisher_config \<Rightarrow> 'w pub_cfg \<times> publisher" where
  "NewAssignmentPublisher timeNow ctxErr wait c =
     (let hbPrefix = (if cfg_HeartbeatPrefix c = [] then ''heartbeat'' else cfg_HeartbeatPrefix c)
      in (\<lparr>assignmentKV = cfg_AssignmentKV c, heartbeatKV = cfg_HeartbeatKV c, keyPrefix = cfg_Prefix c @ ''.'',
           hbKeyPrefix = hbPrefix @ ''.'', leaderCheckFn = cfg_LeaderCheckFn c, gcTriggerFn = cfg_GCTriggerFn c,
           isShuttingDown = cfg_IsShuttingDown c,
           now = (case cfg_Now c of None \<Rightarrow> timeNow | Some f \<Rightarrow> f),
           time_Now = timeNow, ctx_Err = ctxErr, backoff = wait\<rparr>,
          \<lparr>currentVersion = 0, lastCommitRev = 0, lastCommit = None, lastCommitObservedAtMono = 0,
           commitReseedPending = False, lastRebalance = 0, inflightRefs = []\<rparr>))"

record publish_input =
  Workers :: "string list"
  Assignments :: "(string, partition list) gomap"
  SourcePartitions :: "partition list"
  in_SourceRevision :: nat
  in_SourceRevisionKnown :: bool
  LeaderRevision :: nat
  Lifecycle :: string
  WorkersToRemove :: "string list"
  ParkedPartitions :: "partition list"
  WorkerLabels :: "string \<Rightarrow> string list"

datatype reseed_error = ReadLiveCommit kv_error | UnmarshalLiveCommit
datatype cas_cause = CasWrite kv_error | CasReseedPending reseed_error

datatype pub_error =
    ErrCoverageMismatch nat nat nat nat nat nat nat int
  | ErrPayloadHashCollisionOrCorruption string string
  | PayloadExhausted string kv_error
  | PayloadTouch string kv_error
  | PayloadCreate string kv_error
  | CtxCanceled
  | PayloadWorker string pub_error
  | ErrLeadershipLostPreAlias nat
  | ErrLeadershipLostPostAlias nat
  | AliasPut string kv_error
  | ErrAliasBarrierFailed string pub_error
  | ErrShuttingDown
  | ErrCommitCASFailed cas_cause

section \<open>Helpers\<close>

definition isProtocolSubcomponent :: "string \<Rightarrow> bool" where
  "isProtocolSubcomponent sub \<longleftrightarrow> has_prefix sub protocolKeyMarker"

definition canonicalIDSet :: "partition list \<Rightarrow> string list" where
  "canonicalIDSet parts =
     (if parts = [] then [] else slices_Compact (sort (map CanonicalID parts)))"

definition unionPartitions :: "(string, partition list) gomap \<Rightarrow> partition list" where
  "unionPartitions assignments = concat (map snd assignments)"

fun equal_from :: "string list \<Rightarrow> string list \<Rightarrow> bool" where
  "equal_from (x # a) (y # b) = (if x \<noteq> y then False else equal_from a b)"
| "equal_from a b = True"

definition equalStringSlices :: "string list \<Rightarrow> string list \<Rightarrow> bool" where
  "equalStringSlices a b = (if length a \<noteq> length b then False else equal_from a b)"

fun intersectSortedIDs :: "string list \<Rightarrow> string list \<Rightarrow> string list" where
  "intersectSortedIDs (x # a) (y # b) =
     (if x = y then x # intersectSortedIDs a b
      else if x < y then intersectSortedIDs a (y # b)
      else intersectSortedIDs (x # a) b)"
| "intersectSortedIDs a b = []"

fun merge_loop :: "string list \<Rightarrow> string list \<Rightarrow> string list" where
  "merge_loop (x # a) (y # b) =
     (if x = y then x # merge_loop a b
      else if x < y then x # merge_loop a (y # b)
      else y # merge_loop (x # a) b)"
| "merge_loop a b = a @ b"

definition mergeSortedIDs :: "string list \<Rightarrow> string list \<Rightarrow> string list" where
  "mergeSortedIDs a b = (if a = [] then b else if b = [] then a else merge_loop a b)"

definition sortedLabelsCopy :: "string list \<Rightarrow> string list" where
  "sortedLabelsCopy labels = (if labels = [] then [] else slices_Compact (sort labels))"

definition computeSetDigest :: "xxh3 \<Rightarrow> partition list \<Rightarrow> u64" where
  "computeSetDigest X parts = PartitionSetDigest X parts"

definition computeBatchDigest :: "xxh3 \<Rightarrow> partition list \<Rightarrow> u64" where
  "computeBatchDigest X parts = computeSetDigest X parts"

definition buildLegacyAlias ::
  "assignment_payload \<Rightarrow> i64 \<Rightarrow> nat \<Rightarrow> nat \<Rightarrow> string \<Rightarrow> nat \<Rightarrow> assignment" where
  "buildLegacyAlias payload version leaderRevision sourceRevision lifecycle totalWorkers =
     \<lparr>as_Version = version, as_Lifecycle = lifecycle, as_Partitions = pl_Partitions payload,
      as_LeaderRevision = leaderRevision, as_SourceRevision = 0, as_SourceRevisionKnown = False,
      as_TotalWorkers = totalWorkers, as_WorkerLabels = pl_WorkerLabels payload,
      as_WorkerLabelsKnown = pl_WorkerLabelsKnown payload\<rparr>"

section \<open>Coverage\<close>

definition checkCoverage ::
  "partition list \<Rightarrow> (string, partition list) gomap \<Rightarrow> partition list \<Rightarrow> pub_error option" where
  "checkCoverage source assignments parked =
     (let union = unionPartitions assignments;
          assignedIDs = canonicalIDSet union;
          parkedIDs = canonicalIDSet parked;
          expected = canonicalIDSet source;
          overlap = intersectSortedIDs assignedIDs parkedIDs;
          got = mergeSortedIDs assignedIDs parkedIDs;
          rawCount = length union + length parked;
          setOK = equalStringSlices got expected;
          multisetOK = (rawCount = length expected)
      in if setOK \<and> multisetOK \<and> length overlap = 0 then None
         else let missing = length (filter (\<lambda>id. id \<notin> set got) (remdups expected));
                  extra = length (filter (\<lambda>id. id \<notin> set expected) (remdups got));
                  duplicates = int rawCount - int (length got)
              in Some (ErrCoverageMismatch (length expected) (length got) rawCount (length parked)
                   (length overlap) missing extra duplicates))"

lemma equalStringSlices_eq [simp]: "equalStringSlices a b \<longleftrightarrow> a = b"
proof -
  have "length a = length b \<Longrightarrow> equal_from a b \<longleftrightarrow> a = b"
    by (induction a b rule: equal_from.induct) auto
  then show ?thesis by (auto simp: equalStringSlices_def)
qed

text \<open>On strictly increasing lists the two merges are the intersection and the union.\<close>

lemma set_intersectSortedIDs:
  "sorted a \<Longrightarrow> sorted b \<Longrightarrow> distinct a \<Longrightarrow> distinct b \<Longrightarrow> set (intersectSortedIDs a b) = set a \<inter> set b"
  by (induction a b rule: intersectSortedIDs.induct) (auto simp: less_le_not_le)

lemma set_merge_loop: "set (merge_loop a b) = set a \<union> set b"
  by (induction a b rule: merge_loop.induct) auto

lemma merge_loop_sorted:
  "sorted a \<Longrightarrow> sorted b \<Longrightarrow> distinct a \<Longrightarrow> distinct b \<Longrightarrow> sorted (merge_loop a b) \<and> distinct (merge_loop a b)"
  by (induction a b rule: merge_loop.induct) (auto simp: set_merge_loop)

lemma mergeSortedIDs_eq:
  assumes "sorted a" "sorted b" "distinct a" "distinct b"
  shows "mergeSortedIDs a b = sorted_list_of_set (set a \<union> set b)"
proof -
  have "sorted (mergeSortedIDs a b)" "distinct (mergeSortedIDs a b)" "set (mergeSortedIDs a b) = set a \<union> set b"
    using assms merge_loop_sorted by (auto simp: mergeSortedIDs_def set_merge_loop)
  then show ?thesis
    by (metis sorted_list_of_set.idem_if_sorted_distinct)
qed

lemma canonicalIDSet_eq [simp]: "canonicalIDSet ps = sorted_list_of_set (CanonicalID ` set ps)"
  by (simp add: canonicalIDSet_def Compact_sort)

lemma sorted_list_of_set_eq: "finite A \<Longrightarrow> finite B \<Longrightarrow> sorted_list_of_set A = sorted_list_of_set B \<longleftrightarrow> A = B"
  by (metis set_sorted_list_of_set)

lemma redundant_conj: "(P \<Longrightarrow> Q \<Longrightarrow> R) \<Longrightarrow> P \<and> Q \<and> R \<longleftrightarrow> P \<and> Q"
  by blast

lemma mset_eq_set_iff:
  "finite S \<Longrightarrow> set xs = S \<and> length xs = card S \<longleftrightarrow> mset xs = mset_set S"
  by (metis card_distinct distinct_card finite_set_mset_mset_set mset_set_set set_mset_mset size_mset size_mset_set)

text \<open>The publish-time check accepts a batch exactly if the canonical identifiers of the assigned and the
  parked partitions, counted with multiplicity, are those of the source, each once.\<close>

lemma coverage_iff:
  "checkCoverage source assignments parked = None \<longleftrightarrow>
     mset (map CanonicalID (unionPartitions assignments @ parked)) = mset_set (CanonicalID ` set source)"
proof -
  let ?u = "unionPartitions assignments"
  let ?A = "CanonicalID ` set ?u" and ?P = "CanonicalID ` set parked" and ?S = "CanonicalID ` set source"
  have ov: "set (intersectSortedIDs (sorted_list_of_set ?A) (sorted_list_of_set ?P)) = ?A \<inter> ?P"
    by (simp add: set_intersectSortedIDs)
  have "checkCoverage source assignments parked = None \<longleftrightarrow>
      ?A \<union> ?P = ?S \<and> length ?u + length parked = card ?S \<and> ?A \<inter> ?P = {}"
    unfolding checkCoverage_def Let_def ov[symmetric]
    by (simp add: mergeSortedIDs_eq sorted_list_of_set_eq)
  also have "\<dots> \<longleftrightarrow> ?A \<union> ?P = ?S \<and> length ?u + length parked = card ?S"
  proof (rule redundant_conj)
    assume 1: "?A \<union> ?P = ?S" and 2: "length ?u + length parked = card ?S"
    have "card ?A \<le> length ?u" "card ?P \<le> length parked"
      by (metis card_length length_map list.set_map)+
    then have "card ?A + card ?P \<le> card (?A \<union> ?P)" unfolding 1 2[symmetric] by simp
    then show "?A \<inter> ?P = {}" using card_Un_Int[of ?A ?P] by simp
  qed
  also have "\<dots> \<longleftrightarrow> mset (map CanonicalID (?u @ parked)) = mset_set ?S"
    using mset_eq_set_iff[of ?S "map CanonicalID (?u @ parked)"] by (simp add: image_Un)
  finally show ?thesis .
qed

section \<open>Leadership, shutdown, payloads\<close>

definition abortIfShuttingDown :: "'w pub_cfg \<Rightarrow> 'w \<Rightarrow> pub_error option \<times> 'w" where
  "abortIfShuttingDown cfg w =
     (case isShuttingDown cfg of
        None \<Rightarrow> (None, w)
      | Some f \<Rightarrow> (case f w of (b, w') \<Rightarrow> (if \<not> b then None else Some ErrShuttingDown, w')))"

definition checkLeadership :: "'w pub_cfg \<Rightarrow> nat \<Rightarrow> (nat \<Rightarrow> pub_error) \<Rightarrow> 'w \<Rightarrow> pub_error option \<times> 'w" where
  "checkLeadership cfg claimed sentinel w =
     (case leaderCheckFn cfg of
        None \<Rightarrow> (None, w)
      | Some f \<Rightarrow> (case f claimed w of (err, w') \<Rightarrow> (if err then Some (sentinel claimed) else None, w')))"

text \<open>One round of the loop per attempt left; \<open>attempt\<close> counts from 0.\<close>

fun createOrAdoptPayload ::
  "'w pub_cfg \<Rightarrow> (asg_value \<Rightarrow> string) \<Rightarrow> string \<Rightarrow> string \<Rightarrow> asg_value \<Rightarrow> nat \<Rightarrow> nat \<Rightarrow> kv_error \<Rightarrow> 'w \<Rightarrow>
     (pub_error + nat) \<times> 'w" where
  "createOrAdoptPayload cfg H key hashHex stored attempt 0 lastErr w = (Inl (PayloadExhausted key lastErr), w)"
| "createOrAdoptPayload cfg H key hashHex stored attempt (Suc left) lastErr w =
     (case ctx_Err cfg w of
        (True, w) \<Rightarrow> (Inl CtxCanceled, w)
      | (False, w) \<Rightarrow>
          (case kv_Create (assignmentKV cfg) key stored w of
             (Inr n, w) \<Rightarrow> (Inr n, w)
           | (Inl ErrKeyExists, w) \<Rightarrow>
               (case kv_Get (assignmentKV cfg) key w of
                  (Inl gerr, w) \<Rightarrow>
                    createOrAdoptPayload cfg H key hashHex stored (Suc attempt) left gerr (backoff cfg attempt w)
                | (Inr entry, w) \<Rightarrow>
                    if H (ent_Value entry) \<noteq> hashHex
                    then (Inl (ErrPayloadHashCollisionOrCorruption key (H (ent_Value entry))), w)
                    else (case kv_Update (assignmentKV cfg) key (ent_Value entry) (ent_Revision entry) w of
                            (Inr n, w) \<Rightarrow> (Inr n, w)
                          | (Inl ErrKeyExists, w) \<Rightarrow>
                              createOrAdoptPayload cfg H key hashHex stored (Suc attempt) left ErrKeyExists
                                (backoff cfg attempt w)
                          | (Inl uerr, w) \<Rightarrow> (Inl (PayloadTouch key uerr), w)))
           | (Inl err, w) \<Rightarrow> (Inl (PayloadCreate key err), w)))"

definition canonical_cmp :: "partition \<Rightarrow> partition \<Rightarrow> int" where
  "canonical_cmp a b = (if CanonicalID a < CanonicalID b then -1 else if CanonicalID a = CanonicalID b then 0 else 1)"

definition build_payload ::
  "(partition list \<Rightarrow> partition list) \<Rightarrow> (string, partition list) gomap \<Rightarrow> (string \<Rightarrow> string list) \<Rightarrow> string \<Rightarrow> assignment_payload" where
  "build_payload srt assignments labels w =
     \<lparr>pl_SchemaVersion = AssignmentSchemaVersion, pl_Partitions = srt (map_get [] assignments w),
      pl_WorkerLabels = sortedLabelsCopy (labels w), pl_WorkerLabelsKnown = True\<rparr>"

definition payload_key :: "'w pub_cfg \<Rightarrow> string \<Rightarrow> string" where
  "payload_key cfg hashHex = keyPrefix cfg @ payloadKeyPrefix @ hashHex"

type_synonym payload_refs = "(string, assignment_payload_ref) gomap"
type_synonym payload_map = "(string, assignment_payload) gomap"

fun write_payloads ::
  "'w pub_cfg \<Rightarrow> (asg_value \<Rightarrow> string) \<Rightarrow> xxh3 \<Rightarrow> (partition list \<Rightarrow> partition list) \<Rightarrow> (string, partition list) gomap \<Rightarrow>
     (string \<Rightarrow> string list) \<Rightarrow> string list \<Rightarrow> payload_refs \<Rightarrow> payload_map \<Rightarrow> 'w \<Rightarrow>
     (pub_error + payload_refs \<times> payload_map) \<times> 'w" where
  "write_payloads cfg H X srt assignments labels [] refs payloads w = (Inr (refs, payloads), w)"
| "write_payloads cfg H X srt assignments labels (wk # wks) refs payloads w =
     (let payload = build_payload srt assignments labels wk;
          hashHex = H (VPayload payload);
          key = payload_key cfg hashHex;
          setDigest = computeSetDigest X (pl_Partitions payload)
      in case createOrAdoptPayload cfg H key hashHex (VPayload payload) 0 payloadAdoptMaxAttempts (ErrKV []) w of
           (Inl err, w) \<Rightarrow> (Inl (PayloadWorker wk err), w)
         | (Inr n, w) \<Rightarrow>
             write_payloads cfg H X srt assignments labels wks
               (AList.update wk \<lparr>ref_Key = key, ref_PayloadHash = hashHex, ref_SetDigest = setDigest,
                  ref_Revision = n\<rparr> refs)
               (AList.update wk payload payloads) w)"

definition writePayloads ::
  "'w pub_cfg \<Rightarrow> (asg_value \<Rightarrow> string) \<Rightarrow> xxh3 \<Rightarrow> (partition list \<Rightarrow> partition list) \<Rightarrow> string list \<Rightarrow>
     (string, partition list) gomap \<Rightarrow> (string \<Rightarrow> string list) \<Rightarrow> 'w \<Rightarrow> (pub_error + payload_refs \<times> payload_map) \<times> 'w" where
  "writePayloads cfg H X srt workers assignments labels w =
     write_payloads cfg H X srt assignments labels (sort workers) [] [] w"

section \<open>Legacy aliases\<close>

fun classify_legacy :: "'w pub_cfg \<Rightarrow> (hb_bytes, 'w) kv \<Rightarrow> string list \<Rightarrow> 'w \<Rightarrow> string list \<times> 'w" where
  "classify_legacy cfg HK [] w = ([], w)"
| "classify_legacy cfg HK (wk # wks) w =
     (case kv_Get HK (hbKeyPrefix cfg @ wk) w of
        (r, w) \<Rightarrow>
          let legacy = (case r of
                          Inl err \<Rightarrow> True
                        | Inr entry \<Rightarrow>
                            (case DecodeHeartbeat (ent_Value entry) of
                               None \<Rightarrow> True
                             | Some hb \<Rightarrow> and (hb_Capabilities hb) CapAckV1 = 0))
          in case classify_legacy cfg HK wks w of
               (out, w) \<Rightarrow> (if legacy then wk # out else out, w))"

definition classifyLegacyWorkers :: "'w pub_cfg \<Rightarrow> string list \<Rightarrow> 'w \<Rightarrow> string list \<times> 'w" where
  "classifyLegacyWorkers cfg workers w =
     (case heartbeatKV cfg of None \<Rightarrow> ([], w) | Some HK \<Rightarrow> classify_legacy cfg HK workers w)"

definition writeLegacyAliasOnce :: "'w pub_cfg \<Rightarrow> string \<Rightarrow> assignment \<Rightarrow> 'w \<Rightarrow> pub_error option \<times> 'w" where
  "writeLegacyAliasOnce cfg workerID legacy w =
     (let key = keyPrefix cfg @ workerID
      in case kv_Put (assignmentKV cfg) key (VAlias legacy) w of
           (Inl err, w) \<Rightarrow> (Some (AliasPut key err), w)
         | (Inr _, w) \<Rightarrow> (None, w))"

fun alias_retry :: "'w pub_cfg \<Rightarrow> string \<Rightarrow> assignment \<Rightarrow> nat \<Rightarrow> nat \<Rightarrow> 'w \<Rightarrow> pub_error option \<times> 'w" where
  "alias_retry cfg workerID legacy attempt 0 w = (None, w)"
| "alias_retry cfg workerID legacy attempt (Suc left) w =
     (case ctx_Err cfg w of
        (True, w) \<Rightarrow> (Some CtxCanceled, w)
      | (False, w) \<Rightarrow>
          (case writeLegacyAliasOnce cfg workerID legacy w of
             (None, w) \<Rightarrow> (None, w)
           | (Some err, w) \<Rightarrow>
               if left = 0 then (Some err, w)
               else (case ctx_Err cfg (backoff cfg attempt w) of
                       (True, w) \<Rightarrow> (Some CtxCanceled, w)
                     | (False, w) \<Rightarrow> alias_retry cfg workerID legacy (Suc attempt) left w)))"

definition writeLegacyAliasWithRetry :: "'w pub_cfg \<Rightarrow> string \<Rightarrow> assignment \<Rightarrow> 'w \<Rightarrow> pub_error option \<times> 'w" where
  "writeLegacyAliasWithRetry cfg workerID legacy w = alias_retry cfg workerID legacy 0 aliasBarrierMaxAttempts w"

fun alias_barrier ::
  "'w pub_cfg \<Rightarrow> publish_input \<Rightarrow> payload_map \<Rightarrow> i64 \<Rightarrow> string list \<Rightarrow> 'w \<Rightarrow> pub_error option \<times> 'w" where
  "alias_barrier cfg inp payloadByWorker proposedVersion [] w = (None, w)"
| "alias_barrier cfg inp payloadByWorker proposedVersion (wk # wks) w =
     (let payload = (case map_of payloadByWorker wk of
                       None \<Rightarrow> \<lparr>pl_SchemaVersion = AssignmentSchemaVersion, pl_Partitions = [],
                                pl_WorkerLabels = [], pl_WorkerLabelsKnown = True\<rparr>
                     | Some payload \<Rightarrow> payload);
          legacy = buildLegacyAlias payload proposedVersion (LeaderRevision inp) (in_SourceRevision inp)
                     (Lifecycle inp) (length (Workers inp))
      in case writeLegacyAliasWithRetry cfg wk legacy w of
           (Some werr, w) \<Rightarrow> (Some (ErrAliasBarrierFailed wk werr), w)
         | (None, w) \<Rightarrow> alias_barrier cfg inp payloadByWorker proposedVersion wks w)"

definition runAliasBarrier ::
  "'w pub_cfg \<Rightarrow> publish_input \<Rightarrow> string list \<Rightarrow> payload_map \<Rightarrow> i64 \<Rightarrow> 'w \<Rightarrow> pub_error option \<times> 'w" where
  "runAliasBarrier cfg inp legacyInBatch payloadByWorker proposedVersion w =
     alias_barrier cfg inp payloadByWorker proposedVersion legacyInBatch w"

section \<open>The commit\<close>

definition commit_key :: "'w pub_cfg \<Rightarrow> string" where
  "commit_key cfg = keyPrefix cfg @ commitKeyName"

definition log_key :: "'w pub_cfg \<Rightarrow> i64 \<Rightarrow> string" where
  "log_key cfg v = keyPrefix cfg @ commitLogPrefix @ show_int v"

definition writeCommitLog ::
  "'w pub_cfg \<Rightarrow> assignment_commit \<Rightarrow> payload_refs \<Rightarrow> 'w \<Rightarrow> kv_error option \<times> 'w" where
  "writeCommitLog cfg commit refs w =
     (let keys = slices_Compact (sort (map (\<lambda>(_, ref). ref_Key ref) refs));
          logEntry = \<lparr>cl_Version = cm_Version commit, cl_LeaderRevision = cm_LeaderRevision commit,
                      cl_PublishedAt = cm_PublishedAt commit, cl_PayloadKeys = keys\<rparr>
      in case kv_Create (assignmentKV cfg) (log_key cfg (cm_Version commit)) (VCommitLog logEntry) w of
           (Inl err, w) \<Rightarrow> (Some err, w)
         | (Inr _, w) \<Rightarrow> (None, w))"

fun cleanupStaleAssignmentsLocked :: "'w pub_cfg \<Rightarrow> string list \<Rightarrow> 'w \<Rightarrow> 'w" where
  "cleanupStaleAssignmentsLocked cfg [] w = w"
| "cleanupStaleAssignmentsLocked cfg (workerID # ws) w =
     (if isProtocolSubcomponent workerID then cleanupStaleAssignmentsLocked cfg ws w
      else cleanupStaleAssignmentsLocked cfg ws (snd (DeleteKey (assignmentKV cfg) (keyPrefix cfg @ workerID) w)))"

definition reseedFromLiveCommitLocked ::
  "'w pub_cfg \<Rightarrow> publisher \<Rightarrow> 'w \<Rightarrow> reseed_error option \<times> publisher \<times> 'w" where
  "reseedFromLiveCommitLocked cfg p w =
     (case kv_Get (assignmentKV cfg) (commit_key cfg) w of
        (Inl err, w) \<Rightarrow> (Some (ReadLiveCommit err), p, w)
      | (Inr entry, w) \<Rightarrow>
          (case unmarshal_commit (ent_Value entry) of
             None \<Rightarrow> (Some UnmarshalLiveCommit, p, w)
           | Some winner \<Rightarrow>
               (case time_Now cfg w of
                  (t, w) \<Rightarrow>
                    (None,
                     p\<lparr>lastCommitRev := (if ent_Revision entry > lastCommitRev p then ent_Revision entry else lastCommitRev p),
                       currentVersion := (if cm_Version winner > currentVersion p then cm_Version winner else currentVersion p),
                       lastCommit := Some winner, lastCommitObservedAtMono := t, commitReseedPending := False\<rparr>,
                     w))))"

definition reseedAfterCommitCASLossLocked :: "'w pub_cfg \<Rightarrow> kv_error \<Rightarrow> publisher \<Rightarrow> 'w \<Rightarrow> publisher \<times> 'w" where
  "reseedAfterCommitCASLossLocked cfg writeErr p w =
     (if writeErr \<noteq> ErrKeyExists then (p, w)
      else snd (reseedFromLiveCommitLocked cfg (p\<lparr>commitReseedPending := True\<rparr>) w))"

definition surrenderCommitCASLocked ::
  "'w pub_cfg \<Rightarrow> kv_error \<Rightarrow> publisher \<Rightarrow> 'w \<Rightarrow> pub_error \<times> publisher \<times> 'w" where
  "surrenderCommitCASLocked cfg writeErr p w =
     (case reseedAfterCommitCASLossLocked cfg writeErr p w of
        (p, w) \<Rightarrow> (ErrCommitCASFailed (CasWrite writeErr), p, w))"

definition ensureCommitViewCurrentLocked ::
  "'w pub_cfg \<Rightarrow> publisher \<Rightarrow> 'w \<Rightarrow> pub_error option \<times> publisher \<times> 'w" where
  "ensureCommitViewCurrentLocked cfg p w =
     (if \<not> commitReseedPending p then (None, p, w)
      else case reseedFromLiveCommitLocked cfg p w of
             (Some err, p, w) \<Rightarrow> (Some (ErrCommitCASFailed (CasReseedPending err)), p, w)
           | (None, p, w) \<Rightarrow> (None, p, w))"

definition casWriteCommitLocked ::
  "'w pub_cfg \<Rightarrow> publisher \<Rightarrow> assignment_commit \<Rightarrow> 'w \<Rightarrow> (kv_error + nat) \<times> 'w" where
  "casWriteCommitLocked cfg p commit w =
     (if lastCommitRev p = 0 then kv_Create (assignmentKV cfg) (commit_key cfg) (VCommit commit) w
      else kv_Update (assignmentKV cfg) (commit_key cfg) (VCommit commit) (lastCommitRev p) w)"

text \<open>The commit of a batch.\<close>

definition build_commit ::
  "xxh3 \<Rightarrow> publish_input \<Rightarrow> payload_refs \<Rightarrow> i64 \<Rightarrow> nat \<Rightarrow> time \<Rightarrow> assignment_commit" where
  "build_commit X inp refs proposedVersion prevRev publishedAt =
     \<lparr>cm_Version = proposedVersion, cm_LeaderRevision = LeaderRevision inp,
      cm_SourceRevision = in_SourceRevision inp, cm_SourceRevisionKnown = in_SourceRevisionKnown inp,
      cm_PublishedAt = publishedAt, cm_Workers = sort (Workers inp), cm_Payloads = refs,
      cm_BatchDigest = computeBatchDigest X (SourcePartitions inp),
      cm_ParkedCount = length (ParkedPartitions inp),
      cm_ParkedDigest = PartitionSetDigest X (ParkedPartitions inp),
      cm_PrevCommitRev = prevRev, cm_Lifecycle = Lifecycle inp\<rparr>"

text \<open>Steps 10 to 12: what follows the commit point is best effort.\<close>

fun compat_aliases ::
  "'w pub_cfg \<Rightarrow> assignment_commit \<Rightarrow> string list \<Rightarrow> payload_map \<Rightarrow> nat \<Rightarrow> string list \<Rightarrow> 'w \<Rightarrow> 'w" where
  "compat_aliases cfg commit legacyInBatch payloadByWorker totalWorkers [] w = w"
| "compat_aliases cfg commit legacyInBatch payloadByWorker totalWorkers (wk # wks) w =
     compat_aliases cfg commit legacyInBatch payloadByWorker totalWorkers wks
       (if wk \<in> set legacyInBatch then w
        else snd (writeLegacyAliasOnce cfg wk
               (buildLegacyAlias (map_get \<lparr>pl_SchemaVersion = 0, pl_Partitions = [], pl_WorkerLabels = [], pl_WorkerLabelsKnown = False\<rparr>
                   payloadByWorker wk)
                 (cm_Version commit) (cm_LeaderRevision commit) (cm_SourceRevision commit) (cm_Lifecycle commit) totalWorkers) w))"

definition after_commit ::
  "'w pub_cfg \<Rightarrow> publish_input \<Rightarrow> assignment_commit \<Rightarrow> payload_refs \<Rightarrow> string list \<Rightarrow> payload_map \<Rightarrow> 'w \<Rightarrow> 'w" where
  "after_commit cfg inp commit refs legacyInBatch payloadByWorker w =
     (let w = snd (writeCommitLog cfg commit refs w);
          w = compat_aliases cfg commit legacyInBatch payloadByWorker (length (cm_Workers commit)) (cm_Workers commit) w;
          w = cleanupStaleAssignmentsLocked cfg (WorkersToRemove inp) w
      in case gcTriggerFn cfg of None \<Rightarrow> w | Some f \<Rightarrow> f w)"

text \<open>Steps 8 and 9: build the commit, check for shutdown, swap it in.\<close>

definition commit_batch ::
  "'w pub_cfg \<Rightarrow> xxh3 \<Rightarrow> publish_input \<Rightarrow> payload_refs \<Rightarrow> payload_map \<Rightarrow> string list \<Rightarrow> i64 \<Rightarrow> publisher \<Rightarrow> 'w \<Rightarrow>
     pub_error option \<times> publisher \<times> 'w" where
  "commit_batch cfg X inp refs payloadByWorker legacyInBatch proposedVersion p w =
     (case time_Now cfg w of
        (publishedAt, w) \<Rightarrow>
          let commit = build_commit X inp refs proposedVersion (lastCommitRev p) publishedAt
          in case abortIfShuttingDown cfg w of
               (Some err, w) \<Rightarrow> (Some err, p, w)
             | (None, w) \<Rightarrow>
                 (case casWriteCommitLocked cfg p commit w of
                    (Inl err, w) \<Rightarrow>
                      (case surrenderCommitCASLocked cfg err p w of (e, p, w) \<Rightarrow> (Some e, p, w))
                  | (Inr newCommitRev, w) \<Rightarrow>
                      (case time_Now cfg w of
                         (observed, w) \<Rightarrow>
                           (case now cfg (after_commit cfg inp commit refs legacyInBatch payloadByWorker w) of
                              (rebalanced, w) \<Rightarrow>
                                (None,
                                 p\<lparr>lastCommitRev := newCommitRev, currentVersion := proposedVersion,
                                   lastCommit := Some commit, lastCommitObservedAtMono := observed,
                                   lastRebalance := rebalanced\<rparr>, w)))))"

text \<open>Steps 5 to 7: the two leadership fences around the alias barrier.\<close>

definition fenced_batch ::
  "'w pub_cfg \<Rightarrow> xxh3 \<Rightarrow> publish_input \<Rightarrow> payload_refs \<Rightarrow> payload_map \<Rightarrow> i64 \<Rightarrow> publisher \<Rightarrow> 'w \<Rightarrow>
     pub_error option \<times> publisher \<times> 'w" where
  "fenced_batch cfg X inp refs payloadByWorker proposedVersion p w =
     (case checkLeadership cfg (LeaderRevision inp) ErrLeadershipLostPreAlias w of
        (Some err, w) \<Rightarrow> (Some err, p, w)
      | (None, w) \<Rightarrow>
          (case classifyLegacyWorkers cfg (Workers inp) w of
             (legacyInBatch, w) \<Rightarrow>
               (case runAliasBarrier cfg inp legacyInBatch payloadByWorker proposedVersion w of
                  (Some err, w) \<Rightarrow> (Some err, p, w)
                | (None, w) \<Rightarrow>
                    (case checkLeadership cfg (LeaderRevision inp) ErrLeadershipLostPostAlias w of
                       (Some err, w) \<Rightarrow> (Some err, p, w)
                     | (None, w) \<Rightarrow>
                         commit_batch cfg X inp refs payloadByWorker legacyInBatch proposedVersion p w))))"

definition Publish ::
  "'w pub_cfg \<Rightarrow> (asg_value \<Rightarrow> string) \<Rightarrow> xxh3 \<Rightarrow> (partition list \<Rightarrow> partition list) \<Rightarrow> publish_input \<Rightarrow> publisher \<Rightarrow> 'w \<Rightarrow>
     pub_error option \<times> publisher \<times> 'w" where
  "Publish cfg H X srt inp p w =
     (if Workers inp = [] then (None, p, w)
      else case ensureCommitViewCurrentLocked cfg p w of
             (Some err, p, w) \<Rightarrow> (Some err, p, w)
           | (None, p, w) \<Rightarrow>
               (case checkCoverage (SourcePartitions inp) (Assignments inp) (ParkedPartitions inp) of
                  Some err \<Rightarrow> (Some err, p, w)
                | None \<Rightarrow>
                    let proposedVersion = wrap64 (currentVersion p + 1)
                    in case writePayloads cfg H X srt (Workers inp) (Assignments inp) (WorkerLabels inp) w of
                         (Inl err, w) \<Rightarrow> (Some err, p, w)
                       | (Inr (refs, payloadByWorker), w) \<Rightarrow>
                           let keys = map (\<lambda>(_, ref). ref_Key ref) refs;
                               p = p\<lparr>inflightRefs := foldl (\<lambda>s k. List.insert k s) (inflightRefs p) keys\<rparr>
                           in case fenced_batch cfg X inp refs payloadByWorker proposedVersion p w of
                                (r, p, w) \<Rightarrow>
                                  (r, p\<lparr>inflightRefs := foldl (\<lambda>s k. removeAll k s) (inflightRefs p) keys\<rparr>, w)))"

section \<open>Takeover and cleanup\<close>

text \<open>The walk over the alias keys, from which the highest version and the worker names come.\<close>

fun discover_keys ::
  "'w pub_cfg \<Rightarrow> bool \<Rightarrow> string list \<Rightarrow> i64 \<Rightarrow> string list \<Rightarrow> 'w \<Rightarrow> i64 \<times> string list \<times> 'w" where
  "discover_keys cfg commitSeeded [] highestVersion workerIDs w = (highestVersion, workerIDs, w)"
| "discover_keys cfg commitSeeded (key # keys) highestVersion workerIDs w =
     (let sub = (if has_prefix key (keyPrefix cfg) then drop (length (keyPrefix cfg)) key else key)
      in if isProtocolSubcomponent sub then discover_keys cfg commitSeeded keys highestVersion workerIDs w
         else if commitSeeded then discover_keys cfg commitSeeded keys highestVersion (workerIDs @ [sub]) w
         else (case GetJSON (assignmentKV cfg) unmarshal_assignment key w of
                 (Inr (Some (asgn, _)), w) \<Rightarrow>
                   discover_keys cfg commitSeeded keys
                     (if as_Version asgn > highestVersion then as_Version asgn else highestVersion)
                     (workerIDs @ [sub]) w
               | (_, w) \<Rightarrow> discover_keys cfg commitSeeded keys highestVersion workerIDs w))"

definition seed_commit :: "'w pub_cfg \<Rightarrow> publisher \<Rightarrow> 'w \<Rightarrow> bool \<times> publisher \<times> 'w" where
  "seed_commit cfg p w =
     (case kv_Get (assignmentKV cfg) (commit_key cfg) w of
        (Inl _, w) \<Rightarrow> (False, p, w)
      | (Inr entry, w) \<Rightarrow>
          (case unmarshal_commit (ent_Value entry) of
             None \<Rightarrow> (False, p, w)
           | Some commit \<Rightarrow>
               (True,
                p\<lparr>lastCommitRev := ent_Revision entry,
                  currentVersion := (if cm_Version commit > currentVersion p then cm_Version commit else currentVersion p)\<rparr>,
                w)))"

definition DiscoverHighestVersion ::
  "'w pub_cfg \<Rightarrow> publisher \<Rightarrow> 'w \<Rightarrow> (kv_error + string list) \<times> publisher \<times> 'w" where
  "DiscoverHighestVersion cfg p w =
     (case ListKeys (assignmentKV cfg) (keyPrefix cfg) False w of
        (Inl err, w) \<Rightarrow> (Inl err, p, w)
      | (Inr keys, w) \<Rightarrow>
          (case seed_commit cfg p w of
             (commitSeeded, p, w) \<Rightarrow>
               (case discover_keys cfg commitSeeded keys 0 [] w of
                  (highestVersion, workerIDs, w) \<Rightarrow>
                    (Inr (sort workerIDs),
                     p\<lparr>currentVersion := (if highestVersion > currentVersion p then highestVersion else currentVersion p)\<rparr>,
                     w))))"

definition CleanupAllAssignments :: "'w pub_cfg \<Rightarrow> 'w \<Rightarrow> kv_error option \<times> 'w" where
  "CleanupAllAssignments cfg w =
     (case kv_Keys (assignmentKV cfg) w of
        (Inl ErrNoKeysFound, w) \<Rightarrow> (None, w)
      | (Inl err, w) \<Rightarrow> (Some err, w)
      | (Inr keys, w) \<Rightarrow>
          let workersToRemove =
                filter (\<lambda>sub. \<not> isProtocolSubcomponent sub)
                  (map (\<lambda>key. drop (length (keyPrefix cfg)) key) (filter (\<lambda>key. has_prefix key (keyPrefix cfg)) keys))
          in (None, cleanupStaleAssignmentsLocked cfg workersToRemove w))"

definition BootstrapLastCommit :: "'w pub_cfg \<Rightarrow> publisher \<Rightarrow> 'w \<Rightarrow> publisher \<times> 'w" where
  "BootstrapLastCommit cfg p w =
     (case kv_Get (assignmentKV cfg) (commit_key cfg) w of
        (Inl _, w) \<Rightarrow> (p, w)
      | (Inr entry, w) \<Rightarrow>
          (case unmarshal_commit (ent_Value entry) of
             None \<Rightarrow> (p, w)
           | Some commit \<Rightarrow>
               (case time_Now cfg w of
                  (t, w) \<Rightarrow>
                    (p\<lparr>lastCommit := Some commit, lastCommitObservedAtMono := t,
                       lastCommitRev := (if ent_Revision entry > lastCommitRev p then ent_Revision entry else lastCommitRev p),
                       currentVersion := (if cm_Version commit > currentVersion p then cm_Version commit else currentVersion p)\<rparr>,
                     w))))"

definition LiveRefs :: "publisher \<Rightarrow> string list" where
  "LiveRefs p = inflightRefs p"

end
