(* ===== verification/Publisher_Safety.thy ===== *)
theory Publisher_Safety
  imports Publisher
begin

text \<open>
  What the publisher guarantees against every store that satisfies \<open>kv_laws\<close> and whatever other
  clients write meanwhile: the commit key changes only by the compare-and-swap of \<open>Publish\<close>, each
  such write replaces a commit of a smaller version, and a committed batch refers to payloads that
  were stored and verified.
\<close>

section \<open>Hypotheses\<close>

text \<open>The callbacks that are wired into the publisher do not write to its bucket: whatever happens
  while they run is something other clients may do as well.\<close>

definition cfg_laws :: "'w pub_cfg \<Rightarrow> ('w \<Rightarrow> asg_value bucket) \<Rightarrow> ('w \<Rightarrow> 'w \<Rightarrow> bool) \<Rightarrow> bool" where
  "cfg_laws cfg view env \<longleftrightarrow>
     kv_laws (assignmentKV cfg) view env \<and>
     (\<forall>f n w. leaderCheckFn cfg = Some f \<longrightarrow> env w (snd (f n w))) \<and>
     (\<forall>f w. gcTriggerFn cfg = Some f \<longrightarrow> env w (f w)) \<and>
     (\<forall>f w. isShuttingDown cfg = Some f \<longrightarrow> env w (snd (f w))) \<and>
     (\<forall>HK k w. heartbeatKV cfg = Some HK \<longrightarrow> env w (snd (kv_Get HK k w))) \<and>
     (\<forall>w. env w (snd (now cfg w))) \<and> (\<forall>w. env w (snd (time_Now cfg w))) \<and>
     (\<forall>w. env w (snd (ctx_Err cfg w))) \<and> (\<forall>n w. env w (backoff cfg n w))"

text \<open>No worker carries the name of a protocol key.\<close>

definition input_ok :: "publish_input \<Rightarrow> bool" where
  "input_ok inp \<longleftrightarrow> (\<forall>wk \<in> set (Workers inp). \<not> isProtocolSubcomponent wk)"

text \<open>An evolution of the world in which the publisher leaves the commit key alone.\<close>

abbreviation quiet :: "'w pub_cfg \<Rightarrow> ('w \<Rightarrow> asg_value bucket) \<Rightarrow> ('w \<Rightarrow> 'w \<Rightarrow> bool) \<Rightarrow> 'w \<Rightarrow> 'w \<Rightarrow> bool" where
  "quiet cfg view env \<equiv> evo view env (touches (\<lambda>k. k \<noteq> commit_key cfg))"

lemma law_kv: "cfg_laws cfg view env \<Longrightarrow> kv_laws (assignmentKV cfg) view env"
  by (simp add: cfg_laws_def)

lemma quiet_key: "evo view env (touches (\<lambda>k'. k' = k)) w w' \<Longrightarrow> k \<noteq> commit_key cfg \<Longrightarrow> quiet cfg view env w w'"
  by (erule evo_mono) (erule touches_mono, simp)

lemma payload_key_ne [simp]: "payload_key cfg h \<noteq> commit_key cfg"
  by (simp add: payload_key_def commit_key_def commitKeyName_def payloadKeyPrefix_def)

lemma log_key_ne [simp]: "log_key cfg v \<noteq> commit_key cfg"
  by (simp add: log_key_def commit_key_def commitKeyName_def commitLogPrefix_def)

lemma alias_key_ne: "\<not> isProtocolSubcomponent wk \<Longrightarrow> keyPrefix cfg @ wk \<noteq> commit_key cfg"
  by (auto simp: commit_key_def commitKeyName_def isProtocolSubcomponent_def has_prefix_def protocolKeyMarker_def)

text \<open>The steps of the environment.\<close>

lemma step_ctx: "cfg_laws cfg view env \<Longrightarrow> ctx_Err cfg w = (r, w') \<Longrightarrow> evo view env own w w'"
  unfolding cfg_laws_def by (metis evo_env1 snd_conv)

lemma step_time: "cfg_laws cfg view env \<Longrightarrow> time_Now cfg w = (r, w') \<Longrightarrow> evo view env own w w'"
  unfolding cfg_laws_def by (metis evo_env1 snd_conv)

lemma step_now: "cfg_laws cfg view env \<Longrightarrow> now cfg w = (r, w') \<Longrightarrow> evo view env own w w'"
  unfolding cfg_laws_def by (metis evo_env1 snd_conv)

lemma step_backoff: "cfg_laws cfg view env \<Longrightarrow> evo view env own w (backoff cfg n w)"
  unfolding cfg_laws_def by (metis evo_env1)

lemma step_leadership: "cfg_laws cfg view env \<Longrightarrow> checkLeadership cfg n s w = (r, w') \<Longrightarrow> evo view env own w w'"
  unfolding cfg_laws_def checkLeadership_def
  by (auto split: option.splits prod.splits) (metis evo_env1 snd_conv)+

lemma step_shutdown: "cfg_laws cfg view env \<Longrightarrow> abortIfShuttingDown cfg w = (r, w') \<Longrightarrow> evo view env own w w'"
  unfolding cfg_laws_def abortIfShuttingDown_def
  by (auto split: option.splits prod.splits) (metis evo_env1 snd_conv)+

lemma step_gc: "cfg_laws cfg view env \<Longrightarrow> gcTriggerFn cfg = Some f \<Longrightarrow> evo view env own w (f w)"
  unfolding cfg_laws_def by (metis evo_env1)

lemma step_classify: "cfg_laws cfg view env \<Longrightarrow> heartbeatKV cfg = Some HK \<Longrightarrow>
    classify_legacy cfg HK ws w = (r, w') \<Longrightarrow> evo view env own w w' \<and> set r \<subseteq> set ws"
proof (induction ws arbitrary: w r)
  case (Cons a ws)
  obtain x w1 where 1: "kv_Get HK (hbKeyPrefix cfg @ a) w = (x, w1)" by fastforce
  obtain out where 2: "classify_legacy cfg HK ws w1 = (out, w')" and r: "set r \<subseteq> insert a (set out)"
    using Cons.prems(3) 1 by (auto simp: Let_def split: prod.splits if_splits)
  have "env w w1" using Cons.prems(1,2) 1 unfolding cfg_laws_def by (metis snd_conv)
  then have "evo view env own w w1" by (rule evo_env1)
  moreover have "evo view env own w1 w'" "set out \<subseteq> set ws" using Cons.IH[OF Cons.prems(1,2) 2] by auto
  ultimately have "evo view env own w w'" by (blast intro: evo_trans)
  then show ?case using r \<open>set out \<subseteq> set ws\<close> by auto
qed simp

text \<open>The writes.\<close>

lemma step_create: "cfg_laws cfg view env \<Longrightarrow> kv_Create (assignmentKV cfg) k v w = (r, w') \<Longrightarrow>
    k \<noteq> commit_key cfg \<Longrightarrow> quiet cfg view env w w'"
  by (rule quiet_key[OF kv_create_evo[OF law_kv]])

lemma step_update: "cfg_laws cfg view env \<Longrightarrow> kv_Update (assignmentKV cfg) k v n w = (r, w') \<Longrightarrow>
    k \<noteq> commit_key cfg \<Longrightarrow> quiet cfg view env w w'"
  by (rule quiet_key[OF kv_update_evo[OF law_kv]])

lemma step_put: "cfg_laws cfg view env \<Longrightarrow> kv_Put (assignmentKV cfg) k v w = (r, w') \<Longrightarrow>
    k \<noteq> commit_key cfg \<Longrightarrow> quiet cfg view env w w'"
  by (rule quiet_key[OF kv_put_evo[OF law_kv]])

lemma step_get: "cfg_laws cfg view env \<Longrightarrow> kv_Get (assignmentKV cfg) k w = (r, w') \<Longrightarrow> evo view env own w w'"
  by (rule kv_get_evo[OF law_kv])

lemma step_alias_once: "cfg_laws cfg view env \<Longrightarrow> writeLegacyAliasOnce cfg wk a w = (r, w') \<Longrightarrow>
    \<not> isProtocolSubcomponent wk \<Longrightarrow> quiet cfg view env w w'"
  by (auto simp: writeLegacyAliasOnce_def Let_def dest: step_put alias_key_ne split: prod.splits sum.splits)

section \<open>Everything but the swap leaves the commit alone\<close>

lemma step_alias_retry: "cfg_laws cfg view env \<Longrightarrow> alias_retry cfg wk a n m w = (r, w') \<Longrightarrow>
    \<not> isProtocolSubcomponent wk \<Longrightarrow> quiet cfg view env w w'"
proof (induction m arbitrary: n w)
  case (Suc m)
  note L = Suc.prems(1)
  obtain b w1 where 1: "ctx_Err cfg w = (b, w1)" by fastforce
  obtain x w2 where 2: "writeLegacyAliasOnce cfg wk a w1 = (x, w2)" by fastforce
  obtain c w3 where 3: "ctx_Err cfg (backoff cfg n w2) = (c, w3)" by fastforce
  have q: "quiet cfg view env w w1" "quiet cfg view env w w2" "quiet cfg view env w w3"
    using step_ctx[OF L 1] step_alias_once[OF L 2 Suc.prems(3)] step_backoff[OF L] step_ctx[OF L 3]
    by (meson evo_trans)+
  consider "w' = w1" | "w' = w2" | "w' = w3" | "alias_retry cfg wk a (Suc n) m w3 = (r, w')"
    using Suc.prems(2) 1 2 3 by (auto split: bool.splits option.splits if_splits)
  then show ?case
    by cases (use q Suc.IH[OF L _ Suc.prems(3)] in \<open>auto intro: evo_trans\<close>)
qed simp

lemma step_barrier: "cfg_laws cfg view env \<Longrightarrow> alias_barrier cfg inp pls v ws w = (r, w') \<Longrightarrow>
    \<forall>wk \<in> set ws. \<not> isProtocolSubcomponent wk \<Longrightarrow> quiet cfg view env w w'"
proof (induction ws arbitrary: w)
  case (Cons wk ws)
  note L = Cons.prems(1)
  obtain a x w1 where 1: "writeLegacyAliasWithRetry cfg wk a w = (x, w1)"
      and 2: "w' = w1 \<or> alias_barrier cfg inp pls v ws w1 = (r, w')"
    using Cons.prems(2) by (auto simp: Let_def split: prod.splits option.splits)
  have q: "quiet cfg view env w w1"
    using step_alias_retry[OF L 1[unfolded writeLegacyAliasWithRetry_def]] Cons.prems(3) by simp
  then show ?case using 2 Cons.IH[OF L, of w1] Cons.prems(3) by (auto intro: evo_trans)
qed simp

text \<open>A payload that was created or adopted was stored, with the wanted hash, at the revision that
  is returned.\<close>

definition stored_between ::
  "'w pub_cfg \<Rightarrow> ('w \<Rightarrow> asg_value bucket) \<Rightarrow> ('w \<Rightarrow> 'w \<Rightarrow> bool) \<Rightarrow> (asg_value \<Rightarrow> string) \<Rightarrow> string \<Rightarrow> string \<Rightarrow> nat \<Rightarrow>
     'w \<Rightarrow> 'w \<Rightarrow> bool" where
  "stored_between cfg view env H k h n w w' \<longleftrightarrow>
     (\<exists>w1 e. quiet cfg view env w w1 \<and> quiet cfg view env w1 w' \<and> bk_entries (view w1) k = Some e \<and>
        ent_Revision e = n \<and> H (ent_Value e) = h)"

lemma stored_before: "quiet cfg view env w w1 \<Longrightarrow> stored_between cfg view env H k h n w1 w' \<Longrightarrow>
    stored_between cfg view env H k h n w w'"
  unfolding stored_between_def using evo_trans[of view env _ w w1] by blast

lemma stored_after: "stored_between cfg view env H k h n w w1 \<Longrightarrow> quiet cfg view env w1 w' \<Longrightarrow>
    stored_between cfg view env H k h n w w'"
  unfolding stored_between_def using evo_trans[of view env _ _ w1 w'] by blast

lemma effect_stores:
  assumes "env w w1" "eff_put k v (view w1) n (view w2)" "env w2 w'" "k \<noteq> commit_key cfg" "H v = h"
  shows "stored_between cfg view env H k h n w w'"
proof -
  have t: "touches (\<lambda>k. k \<noteq> commit_key cfg) (view w1) (view w2)"
    using touches_mono[OF eff_put_touches[OF assms(2)]] assms(4) by simp
  have "quiet cfg view env w w1" by (rule evo_env1[of env]) (rule assms(1))
  then have "quiet cfg view env w w2" by (rule evo_own) (rule t)
  moreover have "quiet cfg view env w2 w'" by (rule evo_env1[of env]) (rule assms(3))
  ultimately show ?thesis using eff_put_at[OF assms(2)] assms(5) unfolding stored_between_def by blast
qed

lemma create_stores:
  assumes "cfg_laws cfg view env" "kv_Create (assignmentKV cfg) k v w = (Inr n, w')" "k \<noteq> commit_key cfg" "H v = h"
  shows "stored_between cfg view env H k h n w w'"
proof -
  obtain w1 w2 where "env w w1" "write_resp (\<lambda>b. rev_at b k = None) (eff_put k v) (view w1) (Inr n) (view w2)" "env w2 w'"
    using kv_create_ok[OF law_kv[OF assms(1)] assms(2)] by blast
  then show ?thesis using effect_stores[of env w w1 k v view n w2 w' cfg H h] assms(3,4) by (auto simp: write_resp_def)
qed

lemma update_stores:
  assumes "cfg_laws cfg view env" "kv_Update (assignmentKV cfg) k v m w = (Inr n, w')" "k \<noteq> commit_key cfg" "H v = h"
  shows "stored_between cfg view env H k h n w w'"
proof -
  obtain w1 w2 where "env w w1" "write_resp (\<lambda>b. rev_at b k = Some m) (eff_put k v) (view w1) (Inr n) (view w2)" "env w2 w'"
    using kv_update_ok[OF law_kv[OF assms(1)] assms(2)] by blast
  then show ?thesis using effect_stores[of env w w1 k v view n w2 w' cfg H h] assms(3,4) by (auto simp: write_resp_def)
qed

lemma step_adopt:
  "cfg_laws cfg view env \<Longrightarrow> createOrAdoptPayload cfg H k h v m n le w = (r, w') \<Longrightarrow> k \<noteq> commit_key cfg \<Longrightarrow> H v = h \<Longrightarrow>
   quiet cfg view env w w' \<and> (\<forall>i. r = Inr i \<longrightarrow> stored_between cfg view env H k h i w w')"
proof (induction n arbitrary: m le w)
  case (Suc n)
  note L = Suc.prems(1) and k = Suc.prems(3) and hv = Suc.prems(4)
  obtain b w1 where 1: "ctx_Err cfg w = (b, w1)" by fastforce
  obtain c w2 where 2: "kv_Create (assignmentKV cfg) k v w1 = (c, w2)" by fastforce
  obtain g w3 where 3: "kv_Get (assignmentKV cfg) k w2 = (g, w3)" by fastforce
  have q1: "quiet cfg view env w w1" by (rule step_ctx[OF L 1])
  have q2: "quiet cfg view env w w2" by (rule evo_trans[OF q1 step_create[OF L 2 k]])
  have q3: "quiet cfg view env w w3" by (rule evo_trans[OF q2 step_get[OF L 3]])
  have retry: "?case" if "createOrAdoptPayload cfg H k h v (Suc m) n e (backoff cfg m x) = (r, w')" "quiet cfg view env w x" for e x
  proof -
    have x: "quiet cfg view env w (backoff cfg m x)" by (rule evo_trans[OF that(2) step_backoff[OF L]])
    note ih = Suc.IH[OF L that(1) k hv]
    show ?case using evo_trans[OF x conjunct1[OF ih]] stored_before[OF x] conjunct2[OF ih] by simp
  qed
  consider "w' = w1" "isl r" | "w' = w2" "isl r" | "w' = w3" "isl r"
    | i where "c = Inr i" "r = Inr i" "w' = w2"
    | f where "g = Inl f" "createOrAdoptPayload cfg H k h v (Suc m) n f (backoff cfg m w3) = (r, w')"
    | entry u w4 where "g = Inr entry" "H (ent_Value entry) = h"
        "kv_Update (assignmentKV cfg) k (ent_Value entry) (ent_Revision entry) w3 = (u, w4)"
        "u = Inl ErrKeyExists \<and> createOrAdoptPayload cfg H k h v (Suc m) n ErrKeyExists (backoff cfg m w4) = (r, w')
          \<or> w' = w4 \<and> (isl r \<or> (\<exists>i. r = Inr i \<and> u = Inr i))"
    using Suc.prems(2) 1 2 3
    by (auto split: bool.splits sum.splits kv_error.splits prod.splits if_splits)
  then show ?case
  proof cases
    case (4 i)
    then show ?thesis using q2 stored_before[OF q1 create_stores[where H = H, OF L 2[unfolded 4(1)] k hv]] by simp
  next
    case 6
    have q4: "quiet cfg view env w w4" by (rule evo_trans[OF q3 step_update[OF L 6(3) k]])
    have "stored_between cfg view env H k h i w w4" if "u = Inr i" for i
      using stored_before[OF q3 update_stores[where H = H, OF L 6(3)[unfolded that] k 6(2)]] .
    then show ?thesis using 6(4) q4 retry[OF _ q4] by auto
  qed (use q1 q2 q3 retry[OF _ q3] in auto)
qed auto

text \<open>Every reference of a batch points to the payload of its worker.\<close>

definition ref_ok ::
  "'w pub_cfg \<Rightarrow> ('w \<Rightarrow> asg_value bucket) \<Rightarrow> ('w \<Rightarrow> 'w \<Rightarrow> bool) \<Rightarrow> (asg_value \<Rightarrow> string) \<Rightarrow> xxh3 \<Rightarrow> assignment_payload \<Rightarrow>
     assignment_payload_ref \<Rightarrow> 'w \<Rightarrow> 'w \<Rightarrow> bool" where
  "ref_ok cfg view env H X payload ref w w' \<longleftrightarrow>
     ref_PayloadHash ref = H (VPayload payload) \<and> ref_Key ref = payload_key cfg (ref_PayloadHash ref) \<and>
     ref_SetDigest ref = PartitionSetDigest X (pl_Partitions payload) \<and>
     stored_between cfg view env H (ref_Key ref) (ref_PayloadHash ref) (ref_Revision ref) w w'"

definition refs_ok ::
  "'w pub_cfg \<Rightarrow> ('w \<Rightarrow> asg_value bucket) \<Rightarrow> ('w \<Rightarrow> 'w \<Rightarrow> bool) \<Rightarrow> (asg_value \<Rightarrow> string) \<Rightarrow> xxh3 \<Rightarrow> (string \<Rightarrow> assignment_payload) \<Rightarrow>
     payload_refs \<Rightarrow> 'w \<Rightarrow> 'w \<Rightarrow> bool" where
  "refs_ok cfg view env H X payload_of refs w w' \<longleftrightarrow>
     (\<forall>wk ref. map_of refs wk = Some ref \<longrightarrow> ref_ok cfg view env H X (payload_of wk) ref w w')"

lemma ref_ok_after: "ref_ok cfg view env H X pl ref w w1 \<Longrightarrow> quiet cfg view env w1 w' \<Longrightarrow> ref_ok cfg view env H X pl ref w w'"
  unfolding ref_ok_def using stored_after[of cfg view env H _ _ _ w w1 w'] by blast

lemma refs_ok_after: "refs_ok cfg view env H X f refs w w1 \<Longrightarrow> quiet cfg view env w1 w' \<Longrightarrow> refs_ok cfg view env H X f refs w w'"
  unfolding refs_ok_def using ref_ok_after[of cfg view env H X _ _ w w1 w'] by blast

lemma refs_ok_before: "quiet cfg view env w w1 \<Longrightarrow> refs_ok cfg view env H X f refs w1 w' \<Longrightarrow> refs_ok cfg view env H X f refs w w'"
  unfolding refs_ok_def ref_ok_def using stored_before[of view env cfg w w1 H _ _ _ w'] by blast

lemma step_write_payloads:
  assumes L: "cfg_laws cfg view env"
  shows "write_payloads cfg H X srt asg lb ws refs pls w = (r, w') \<Longrightarrow>
    quiet cfg view env w w' \<and>
    (\<forall>refs' pls'. r = Inr (refs', pls') \<longrightarrow> quiet cfg view env w0 w \<longrightarrow>
       refs_ok cfg view env H X (build_payload srt asg lb) refs w0 w \<longrightarrow>
       refs_ok cfg view env H X (build_payload srt asg lb) refs' w0 w' \<and> fst ` set refs' = fst ` set refs \<union> set ws)"
proof (induction ws arbitrary: refs pls w)
  case (Cons wk ws)
  define pl where "pl = build_payload srt asg lb wk"
  define h where "h = H (VPayload pl)"
  obtain c w1 where c: "createOrAdoptPayload cfg H (payload_key cfg h) h (VPayload pl) 0 payloadAdoptMaxAttempts (ErrKV []) w = (c, w1)"
    by fastforce
  note st = step_adopt[OF L c payload_key_ne, unfolded h_def, OF refl]
  show ?case
  proof (cases c)
    case (Inl e)
    then have "w' = w1" "isl r" using Cons.prems c by (auto simp: Let_def pl_def h_def)
    then show ?thesis using st by auto
  next
    case (Inr n)
    define ref where "ref = \<lparr>ref_Key = payload_key cfg h, ref_PayloadHash = h, ref_SetDigest = PartitionSetDigest X (pl_Partitions pl), ref_Revision = n\<rparr>"
    have rest: "write_payloads cfg H X srt asg lb ws (AList.update wk ref refs) (AList.update wk pl pls) w1 = (r, w')"
      using Cons.prems c Inr by (simp add: Let_def pl_def h_def ref_def computeSetDigest_def)
    note ih = Cons.IH[OF rest]
    have q: "quiet cfg view env w w1" and sb: "stored_between cfg view env H (payload_key cfg h) h n w w1"
      using st Inr by (auto simp: h_def)
    have ok: "refs_ok cfg view env H X (build_payload srt asg lb) (AList.update wk ref refs) w0 w1"
      if "quiet cfg view env w0 w" "refs_ok cfg view env H X (build_payload srt asg lb) refs w0 w"
    proof -
      have "ref_ok cfg view env H X (build_payload srt asg lb wk) ref w0 w1"
        using stored_before[OF that(1) sb] by (simp add: ref_ok_def ref_def pl_def h_def)
      then show ?thesis
        using refs_ok_after[OF that(2) q] by (auto simp: refs_ok_def update_lookup)
    qed
    have "quiet cfg view env w w'" using evo_trans[OF q] ih by blast
    moreover have "refs_ok cfg view env H X (build_payload srt asg lb) refs' w0 w' \<and> fst ` set refs' = fst ` set refs \<union> set (wk # ws)"
      if "r = Inr (refs', pls')" "quiet cfg view env w0 w" "refs_ok cfg view env H X (build_payload srt asg lb) refs w0 w" for refs' pls'
      using conjunct2[OF ih, rule_format, OF that(1) evo_trans[OF that(2) q] ok[OF that(2,3)]] by (simp add: update_keys)
    ultimately show ?thesis by blast
  qed
qed auto

lemma step_payloads:
  assumes "cfg_laws cfg view env" "writePayloads cfg H X srt ws asg lb w = (r, w')"
  shows "quiet cfg view env w w'"
    "r = Inr (refs, pls) \<Longrightarrow> refs_ok cfg view env H X (build_payload srt asg lb) refs w w' \<and> fst ` set refs = set ws"
  using step_write_payloads[OF assms(1) assms(2)[unfolded writePayloads_def], of w] by (auto simp: refs_ok_def)

section \<open>After the commit point\<close>

lemma step_commit_log: "cfg_laws cfg view env \<Longrightarrow> quiet cfg view env w (snd (writeCommitLog cfg c refs w))"
  by (auto simp: writeCommitLog_def Let_def dest: step_create split: prod.splits sum.splits)

lemma step_compat: "cfg_laws cfg view env \<Longrightarrow> \<forall>wk \<in> set ws. \<not> isProtocolSubcomponent wk \<Longrightarrow>
    quiet cfg view env w (compat_aliases cfg c lg pls n ws w)"
proof (induction ws arbitrary: w)
  case (Cons wk ws)
  let ?x = "if wk \<in> set lg then w else snd (writeLegacyAliasOnce cfg wk
     (buildLegacyAlias (map_get \<lparr>pl_SchemaVersion = 0, pl_Partitions = [], pl_WorkerLabels = [], pl_WorkerLabelsKnown = False\<rparr> pls wk)
        (cm_Version c) (cm_LeaderRevision c) (cm_SourceRevision c) (cm_Lifecycle c) n) w)"
  have "quiet cfg view env w ?x"
    using step_alias_once[OF Cons.prems(1), of wk _ w] Cons.prems(2) by (auto simp: prod_eq_iff)
  then show ?case using Cons.IH[of ?x] Cons.prems by (auto intro: evo_trans)
qed simp

lemma step_cleanup: "cfg_laws cfg view env \<Longrightarrow> quiet cfg view env w (cleanupStaleAssignmentsLocked cfg ws w)"
proof (induction ws arbitrary: w)
  case (Cons wk ws)
  have "quiet cfg view env w (snd (DeleteKey (assignmentKV cfg) (keyPrefix cfg @ wk) w))" if "\<not> isProtocolSubcomponent wk"
    by (rule quiet_key[OF deleteKey_evo[OF law_kv[OF Cons.prems] prod.collapse[symmetric]] alias_key_ne[OF that]])
  then show ?case using Cons.IH[OF Cons.prems] by (auto intro: evo_trans)
qed simp

lemma step_after_commit:
  assumes L: "cfg_laws cfg view env" and ws: "\<forall>wk \<in> set (cm_Workers c). \<not> isProtocolSubcomponent wk"
  shows "quiet cfg view env w (after_commit cfg inp c refs lg pls w)"
proof -
  define w1 where "w1 = snd (writeCommitLog cfg c refs w)"
  define w2 where "w2 = compat_aliases cfg c lg pls (length (cm_Workers c)) (cm_Workers c) w1"
  define w3 where "w3 = cleanupStaleAssignmentsLocked cfg (WorkersToRemove inp) w2"
  have "quiet cfg view env w w1" "quiet cfg view env w1 w2" "quiet cfg view env w2 w3"
    unfolding w1_def w2_def w3_def by (rule step_commit_log[OF L] step_compat[OF L ws] step_cleanup[OF L])+
  then have "quiet cfg view env w w3" by (meson evo_trans)
  then show ?thesis
    unfolding after_commit_def Let_def w1_def[symmetric] w2_def[symmetric] w3_def[symmetric]
    by (auto split: option.splits intro: evo_trans step_gc[OF L])
qed

section \<open>The publisher's view of the commit\<close>

text \<open>If the live commit is the one the publisher has observed last, its version is at most the
  publisher's. The view stays valid whatever is written by others, because revisions grow.\<close>

definition view_inv :: "'w pub_cfg \<Rightarrow> publisher \<Rightarrow> asg_value bucket \<Rightarrow> bool" where
  "view_inv cfg p b \<longleftrightarrow> in_i64 (currentVersion p) \<and> lastCommitRev p \<le> bk_last b \<and>
     (\<forall>e. bk_entries b (commit_key cfg) = Some e \<longrightarrow> ent_Revision e = lastCommitRev p \<longrightarrow>
        (\<exists>c. unmarshal_commit (ent_Value e) = Some c \<and> cm_Version c \<le> currentVersion p))"

lemma view_inv_evolves: "view_inv cfg p b \<Longrightarrow> evolves b b' \<Longrightarrow> view_inv cfg p b'"
  using evolvesD[of b b' "commit_key cfg"] evolves_last[of b b'] by (auto simp: view_inv_def)

lemma quiet_wf: "cfg_laws cfg view env \<Longrightarrow> quiet cfg view env w w' \<Longrightarrow> bucket_wf (view w) \<Longrightarrow>
    bucket_wf (view w') \<and> evolves (view w) (view w')"
  by (erule evo_wf[of view env, OF _ _ law_kv]) (auto elim: touches_mono)

lemma quiet_env: "env w w' \<Longrightarrow> quiet cfg view env w w'"
  by (rule evo_env1[of env])

text \<open>A write of the commit \<open>c\<close> over a commit of a smaller version, or over none; only when the
  64-bit counter overflows does the version start over.\<close>

definition commit_step :: "'w pub_cfg \<Rightarrow> assignment_commit \<Rightarrow> nat \<Rightarrow> asg_value bucket \<Rightarrow> asg_value bucket \<Rightarrow> bool" where
  "commit_step cfg c n b b' \<longleftrightarrow> eff_put (commit_key cfg) (VCommit c) b n b' \<and>
     rev_at b (commit_key cfg) = (if cm_PrevCommitRev c = 0 then None else Some (cm_PrevCommitRev c)) \<and>
     (\<forall>e. bk_entries b (commit_key cfg) = Some e \<longrightarrow>
        (\<exists>c0. unmarshal_commit (ent_Value e) = Some c0 \<and> (cm_Version c0 < cm_Version c \<or> cm_Version c = - (2 ^ 63))))"

definition swapped ::
  "'w pub_cfg \<Rightarrow> ('w \<Rightarrow> asg_value bucket) \<Rightarrow> ('w \<Rightarrow> 'w \<Rightarrow> bool) \<Rightarrow> assignment_commit \<Rightarrow> nat \<Rightarrow> 'w \<Rightarrow> 'w \<Rightarrow> bool" where
  "swapped cfg view env c n w w' \<longleftrightarrow>
     (\<exists>w1 w2. quiet cfg view env w w1 \<and> commit_step cfg c n (view w1) (view w2) \<and> quiet cfg view env w2 w')"

lemma swapped_before: "quiet cfg view env w w1 \<Longrightarrow> swapped cfg view env c n w1 w' \<Longrightarrow> swapped cfg view env c n w w'"
  unfolding swapped_def using evo_trans[of view env _ w w1] by blast

lemma swapped_after: "swapped cfg view env c n w w1 \<Longrightarrow> quiet cfg view env w1 w' \<Longrightarrow> swapped cfg view env c n w w'"
  unfolding swapped_def using evo_trans[of view env _ _ w1 w'] by blast

lemma wrap64_succ: "in_i64 v \<Longrightarrow> v < wrap64 (v + 1) \<or> wrap64 (v + 1) = - (2 ^ 63)"
  by (cases "v = 2 ^ 63 - 1") (auto simp: in_i64_def wrap64_def)

lemma commit_step_intro:
  assumes "view_inv cfg p b" "eff_put (commit_key cfg) (VCommit c) b n b'"
    "rev_at b (commit_key cfg) = (if lastCommitRev p = 0 then None else Some (lastCommitRev p))"
    "cm_PrevCommitRev c = lastCommitRev p" "cm_Version c = wrap64 (currentVersion p + 1)"
  shows "commit_step cfg c n b b'"
  unfolding commit_step_def
proof (intro conjI allI impI)
  fix e assume e: "bk_entries b (commit_key cfg) = Some e"
  then have "ent_Revision e = lastCommitRev p" using assms(3) by (auto simp: rev_at_def split: if_splits)
  then obtain c0 where "unmarshal_commit (ent_Value e) = Some c0" "cm_Version c0 \<le> currentVersion p"
    using assms(1) e by (auto simp: view_inv_def)
  moreover have "in_i64 (currentVersion p)" using assms(1) by (simp add: view_inv_def)
  ultimately show "\<exists>c0. unmarshal_commit (ent_Value e) = Some c0 \<and> (cm_Version c0 < cm_Version c \<or> cm_Version c = - (2 ^ 63))"
    using wrap64_succ[of "currentVersion p"] assms(5) by auto
qed (use assms in simp_all)

text \<open>The swap: it is rejected without effect, or it writes the commit; an error other than the
  rejection leaves open which.\<close>

lemma cas_cases:
  assumes L: "cfg_laws cfg view env" and cas: "casWriteCommitLocked cfg p c w = (r, w')"
    and inv: "view_inv cfg p (view w)" "bucket_wf (view w)"
    and c: "cm_PrevCommitRev c = lastCommitRev p" "cm_Version c = wrap64 (currentVersion p + 1)"
  shows "case r of Inr n \<Rightarrow> swapped cfg view env c n w w' | Inl ErrKeyExists \<Rightarrow> quiet cfg view env w w'
    | Inl _ \<Rightarrow> quiet cfg view env w w' \<or> (\<exists>n. swapped cfg view env c n w w')"
proof -
  let ?g = "\<lambda>b. rev_at b (commit_key cfg) = (if lastCommitRev p = 0 then None else Some (lastCommitRev p))"
  obtain w1 w2 where s: "env w w1" "write_resp ?g (eff_put (commit_key cfg) (VCommit c)) (view w1) r (view w2)" "env w2 w'"
    using cas kv_create_ok[OF law_kv[OF L], of "commit_key cfg" "VCommit c" w r w']
      kv_update_ok[OF law_kv[OF L], of "commit_key cfg" "VCommit c" "lastCommitRev p" w r w']
    by (auto simp: casWriteCommitLocked_def split: if_splits)
  have q: "quiet cfg view env w w1" "quiet cfg view env w2 w'" by (rule quiet_env, rule s)+
  have inv1: "view_inv cfg p (view w1)"
    using view_inv_evolves[OF inv(1)] quiet_wf[OF L q(1) inv(2)] by blast
  have idle: "quiet cfg view env w w'" if "view w2 = view w1"
  proof -
    have "quiet cfg view env w1 w2" by (rule evo_own[OF evo_refl]) (simp add: that)
    then show ?thesis by (rule evo_trans[OF evo_trans[OF q(1)] q(2)])
  qed
  have sw: "swapped cfg view env c n w w'" if "?g (view w1)" "eff_put (commit_key cfg) (VCommit c) (view w1) n (view w2)" for n
    using commit_step_intro[OF inv1 that(2,1) c] q unfolding swapped_def by blast
  show ?thesis
    using s(2) idle sw by (auto simp: write_resp_def split: sum.splits kv_error.splits)
qed

text \<open>Reading the live commit back makes the view valid again, or leaves the publisher as it was.\<close>

lemma reseed_props:
  assumes L: "cfg_laws cfg view env" and rs: "reseedFromLiveCommitLocked cfg p w = (r, p', w')"
    and inv: "view_inv cfg p (view w)" "bucket_wf (view w)"
  shows "quiet cfg view env w w' \<and> view_inv cfg p' (view w') \<and> (r \<noteq> None \<longrightarrow> p' = p) \<and>
    (r = None \<longrightarrow> \<not> commitReseedPending p') \<and> currentVersion p \<le> currentVersion p'"
proof -
  obtain g w1 where g: "kv_Get (assignmentKV cfg) (commit_key cfg) w = (g, w1)" by fastforce
  obtain x where x: "env w x" "get_resp (commit_key cfg) (view x) g" "env x w1"
    using kv_get_ok[OF law_kv[OF L] g] by blast
  have qx: "quiet cfg view env w x" and qx1: "quiet cfg view env x w1" by (rule quiet_env, rule x)+
  have q1: "quiet cfg view env w w1" by (rule evo_trans[OF qx qx1])
  have inv1: "view_inv cfg p (view w1)" using view_inv_evolves[OF inv(1)] quiet_wf[OF L q1 inv(2)] by blast
  consider (fail) "r \<noteq> None" "p' = p" "w' = w1"
    | (ok) e c t where "g = Inr e" "unmarshal_commit (ent_Value e) = Some c" "time_Now cfg w1 = (t, w')" "r = None"
        "p' = p\<lparr>lastCommitRev := max (lastCommitRev p) (ent_Revision e), currentVersion := max (currentVersion p) (cm_Version c),
           lastCommit := Some c, lastCommitObservedAtMono := t, commitReseedPending := False\<rparr>"
    using rs g by (auto simp: reseedFromLiveCommitLocked_def max_def split: sum.splits option.splits prod.splits)
  then show ?thesis
  proof cases
    case ok
    have q2: "quiet cfg view env w1 w'" by (rule step_time[OF L ok(3)])
    have wfx: "bucket_wf (view x)" "evolves (view w) (view x)" using quiet_wf[OF L qx inv(2)] by auto
    have invx: "view_inv cfg p (view x)" by (rule view_inv_evolves[OF inv(1) wfx(2)])
    have ex: "bk_entries (view x) (commit_key cfg) = Some e" using x(2) ok(1) by (simp add: get_resp_def)
    then have "ent_Revision e \<le> bk_last (view x)" using wfx(1) by (simp add: bucket_wf_def)
    moreover have "in_i64 (cm_Version c)" using ok(2) by (auto simp: unmarshal_commit_def split: option.splits if_splits)
    ultimately have "view_inv cfg p' (view x)"
      using invx ok(2,5) ex by (auto simp: view_inv_def max_def)
    moreover have "evolves (view x) (view w')"
      using quiet_wf[OF L evo_trans[OF qx1 q2] wfx(1)] by blast
    ultimately have "view_inv cfg p' (view w')" by (rule view_inv_evolves)
    then show ?thesis using ok evo_trans[OF q1 q2] by simp
  qed (use q1 inv1 in auto)
qed

text \<open>What became of a batch whose commit would be \<open>mk t\<close>.\<close>

definition batch_result ::
  "'w pub_cfg \<Rightarrow> ('w \<Rightarrow> asg_value bucket) \<Rightarrow> ('w \<Rightarrow> 'w \<Rightarrow> bool) \<Rightarrow> (time \<Rightarrow> assignment_commit) \<Rightarrow> pub_error option \<Rightarrow> publisher \<Rightarrow>
     'w \<Rightarrow> 'w \<Rightarrow> bool" where
  "batch_result cfg view env mk r p' w w' \<longleftrightarrow>
     (case r of
        None \<Rightarrow> \<exists>t. swapped cfg view env (mk t) (lastCommitRev p') w w' \<and>
          currentVersion p' = cm_Version (mk t) \<and> lastCommit p' = Some (mk t)
      | Some err \<Rightarrow> quiet cfg view env w w' \<or>
          (\<exists>e t n. err = ErrCommitCASFailed (CasWrite e) \<and> e \<noteq> ErrKeyExists \<and> swapped cfg view env (mk t) n w w'))"

lemma batch_before: "quiet cfg view env w w1 \<Longrightarrow> batch_result cfg view env mk r p w1 w' \<Longrightarrow> batch_result cfg view env mk r p w w'"
  unfolding batch_result_def
  using swapped_before[of view env cfg w w1] evo_trans[of view env _ w w1 w'] by (cases r; simp; blast)

lemma swapped_inv:
  assumes L: "cfg_laws cfg view env" and s: "swapped cfg view env c n w w'" and wf: "bucket_wf (view w)"
  shows "bucket_wf (view w') \<and> evolves (view w) (view w') \<and>
    (in_i64 (cm_Version c) \<longrightarrow> lastCommitRev p' = n \<longrightarrow> currentVersion p' = cm_Version c \<longrightarrow> view_inv cfg p' (view w'))"
proof -
  obtain w1 w2 where 1: "quiet cfg view env w w1" "commit_step cfg c n (view w1) (view w2)" "quiet cfg view env w2 w'"
    using s by (auto simp: swapped_def)
  have a: "bucket_wf (view w1)" "evolves (view w) (view w1)" using quiet_wf[OF L 1(1) wf] by auto
  have e: "eff_put (commit_key cfg) (VCommit c) (view w1) n (view w2)" using 1(2) by (simp add: commit_step_def)
  have b: "bucket_wf (view w2)" "evolves (view w1) (view w2)"
    using eff_put_touches[OF e] a(1) by (auto simp: touches_def)
  have d: "bucket_wf (view w')" "evolves (view w2) (view w')" using quiet_wf[OF L 1(3) b(1)] by auto
  have "view_inv cfg p' (view w2)" if "in_i64 (cm_Version c)" "lastCommitRev p' = n" "currentVersion p' = cm_Version c"
    using e that by (auto simp: view_inv_def eff_put_def unmarshal_commit_def commit_fields_def)
  then have "view_inv cfg p' (view w')" if "in_i64 (cm_Version c)" "lastCommitRev p' = n" "currentVersion p' = cm_Version c"
    using view_inv_evolves d(2) that by blast
  then show ?thesis using d evolves_trans[OF a(2) evolves_trans[OF b(2) d(2)]] by blast
qed

lemma surrender_props:
  assumes L: "cfg_laws cfg view env" and s: "surrenderCommitCASLocked cfg e p w = (err, p', w')"
    and inv: "view_inv cfg p (view w)" "bucket_wf (view w)"
  shows "err = ErrCommitCASFailed (CasWrite e) \<and> quiet cfg view env w w' \<and> view_inv cfg p' (view w')"
proof (cases "e = ErrKeyExists")
  case True
  obtain r where "reseedFromLiveCommitLocked cfg (p\<lparr>commitReseedPending := True\<rparr>) w = (r, p', w')"
    using s True by (auto simp: surrenderCommitCASLocked_def reseedAfterCommitCASLossLocked_def split: prod.splits)
      (metis prod.collapse snd_conv)
  moreover have "view_inv cfg (p\<lparr>commitReseedPending := True\<rparr>) (view w)" using inv(1) by (simp add: view_inv_def)
  ultimately show ?thesis
    using reseed_props[OF L _ _ inv(2)] s by (auto simp: surrenderCommitCASLocked_def split: prod.splits)
qed (use s inv in \<open>auto simp: surrenderCommitCASLocked_def reseedAfterCommitCASLossLocked_def\<close>)

section \<open>A batch\<close>

lemma commit_batch_props:
  assumes L: "cfg_laws cfg view env" and ok: "input_ok inp"
    and cb: "commit_batch cfg X inp refs pls lg v p w = (r, p', w')"
    and inv: "view_inv cfg p (view w)" "bucket_wf (view w)" and v: "v = wrap64 (currentVersion p + 1)"
  shows "batch_result cfg view env (build_commit X inp refs v (lastCommitRev p)) r p' w w' \<and> view_inv cfg p' (view w')"
proof -
  obtain t w1 where 1: "time_Now cfg w = (t, w1)" by fastforce
  define c where "c = build_commit X inp refs v (lastCommitRev p) t"
  obtain a w2 where 2: "abortIfShuttingDown cfg w1 = (a, w2)" by fastforce
  obtain s w3 where 3: "casWriteCommitLocked cfg p c w2 = (s, w3)" by fastforce
  have q2: "quiet cfg view env w w2" by (rule evo_trans[OF step_time[OF L 1] step_shutdown[OF L 2]])
  have inv2: "view_inv cfg p (view w2)" "bucket_wf (view w2)"
    using view_inv_evolves[OF inv(1)] quiet_wf[OF L q2 inv(2)] by auto
  have c: "cm_PrevCommitRev c = lastCommitRev p" "cm_Version c = v" "cm_Workers c = sort (Workers inp)"
    by (auto simp: c_def build_commit_def)
  note cas = cas_cases[OF L 3 inv2 c(1) c(2)[unfolded v]]
  consider (shut) e where "a = Some e" "r = Some e" "p' = p" "w' = w2"
    | (lost) e err where "a = None" "s = Inl e" "surrenderCommitCASLocked cfg e p w3 = (err, p', w')" "r = Some err"
    | (won) n o' w4 t' where "a = None" "s = Inr n" "time_Now cfg w3 = (o', w4)"
        "now cfg (after_commit cfg inp c refs lg pls w4) = (t', w')" "r = None"
        "p' = p\<lparr>lastCommitRev := n, currentVersion := v, lastCommit := Some c, lastCommitObservedAtMono := o', lastRebalance := t'\<rparr>"
    using cb 1 2 3 by (auto simp: commit_batch_def c_def[symmetric] Let_def split: option.splits sum.splits prod.splits)
  then show ?thesis
  proof cases
    case shut
    then show ?thesis using q2 inv2 by (simp add: batch_result_def)
  next
    case lost
    have d: "quiet cfg view env w2 w3 \<or> e \<noteq> ErrKeyExists \<and> (\<exists>n. swapped cfg view env c n w2 w3)"
      using cas lost(2) by (auto split: kv_error.splits)
    then have "bucket_wf (view w3) \<and> evolves (view w2) (view w3)"
      using quiet_wf[OF L _ inv2(2)] swapped_inv[OF L _ inv2(2)] by blast
    then have inv3: "view_inv cfg p (view w3)" "bucket_wf (view w3)" using view_inv_evolves[OF inv2(1)] by auto
    note sp = surrender_props[OF L lost(3) inv3]
    have "batch_result cfg view env (build_commit X inp refs v (lastCommitRev p)) r p' w2 w'"
      using d sp lost(4) evo_trans[of view env _ w2 w3 w'] swapped_after[of cfg view env c _ w2 w3 w']
      unfolding batch_result_def c_def by auto
    then show ?thesis using batch_before[OF q2] sp by blast
  next
    case won
    have "\<forall>wk \<in> set (cm_Workers c). \<not> isProtocolSubcomponent wk" using ok c(3) by (simp add: input_ok_def)
    then have "quiet cfg view env w3 w'"
      by (rule evo_trans[OF evo_trans[OF step_time[OF L won(3)] step_after_commit[OF L]] step_now[OF L won(4)]])
    then have s: "swapped cfg view env c n w2 w'" using cas won(2) by (auto intro: swapped_after)
    then have "batch_result cfg view env (build_commit X inp refs v (lastCommitRev p)) r p' w2 w'"
      using won(5,6) c(2) unfolding batch_result_def c_def by auto
    moreover have "view_inv cfg p' (view w')" using swapped_inv[OF L s inv2(2), of p'] won(6) c(2) v by simp
    ultimately show ?thesis using batch_before[OF q2] by blast
  qed
qed

lemma fenced_batch_props:
  assumes L: "cfg_laws cfg view env" and ok: "input_ok inp"
    and fb: "fenced_batch cfg X inp refs pls v p w = (r, p', w')"
    and inv: "view_inv cfg p (view w)" "bucket_wf (view w)" and v: "v = wrap64 (currentVersion p + 1)"
  shows "batch_result cfg view env (build_commit X inp refs v (lastCommitRev p)) r p' w w' \<and> view_inv cfg p' (view w')"
proof -
  obtain a w1 where 1: "checkLeadership cfg (LeaderRevision inp) ErrLeadershipLostPreAlias w = (a, w1)" by fastforce
  obtain lg w2 where 2: "classifyLegacyWorkers cfg (Workers inp) w1 = (lg, w2)" by fastforce
  obtain b w3 where 3: "runAliasBarrier cfg inp lg pls v w2 = (b, w3)" by fastforce
  obtain d w4 where 4: "checkLeadership cfg (LeaderRevision inp) ErrLeadershipLostPostAlias w3 = (d, w4)" by fastforce
  have q1: "quiet cfg view env w w1" by (rule step_leadership[OF L 1])
  have c2: "quiet cfg view env w1 w2 \<and> set lg \<subseteq> set (Workers inp)"
    using 2 step_classify[OF L] by (auto simp: classifyLegacyWorkers_def split: option.splits)
  have q3: "quiet cfg view env w w3"
    using step_barrier[OF L 3[unfolded runAliasBarrier_def]] c2 ok evo_trans[OF q1] evo_trans[of view env _ w w2 w3]
    by (auto simp: input_ok_def)
  have q4: "quiet cfg view env w w4" by (rule evo_trans[OF q3 step_leadership[OF L 4]])
  have still: "view_inv cfg p (view x)" "bucket_wf (view x)" if "quiet cfg view env w x" for x
    using view_inv_evolves[OF inv(1)] quiet_wf[OF L that inv(2)] by auto
  consider x where "r \<noteq> None" "p' = p" "w' = x" "quiet cfg view env w x"
    | "commit_batch cfg X inp refs pls lg v p w4 = (r, p', w')"
    using fb 1 2 3 4 q1 q3 q4 by (auto simp: fenced_batch_def split: option.splits)
  then show ?thesis
  proof cases
    case 2
    show ?thesis
      using commit_batch_props[OF L ok 2 still[OF q4] v] batch_before[OF q4] by blast
  qed (use still in \<open>auto simp: batch_result_def\<close>)
qed

section \<open>Publish\<close>

lemma gate_props:
  assumes L: "cfg_laws cfg view env" and g: "ensureCommitViewCurrentLocked cfg p w = (r, p', w')"
    and inv: "view_inv cfg p (view w)" "bucket_wf (view w)"
  shows "quiet cfg view env w w' \<and> view_inv cfg p' (view w') \<and> bucket_wf (view w') \<and>
    currentVersion p \<le> currentVersion p' \<and> (r = None \<longrightarrow> \<not> commitReseedPending p') \<and>
    (\<forall>e. r = Some e \<longrightarrow> (\<exists>f. e = ErrCommitCASFailed (CasReseedPending f)))"
proof (cases "commitReseedPending p")
  case True
  obtain x where "reseedFromLiveCommitLocked cfg p w = (x, p', w')" and
    "(r = None) = (x = None)" "\<forall>e. r = Some e \<longrightarrow> (\<exists>f. e = ErrCommitCASFailed (CasReseedPending f))"
    using g True by (auto simp: ensureCommitViewCurrentLocked_def split: option.splits prod.splits)
  then show ?thesis using reseed_props[OF L _ inv] quiet_wf[OF L _ inv(2)] by blast
qed (use g inv in \<open>auto simp: ensureCommitViewCurrentLocked_def\<close>)

text \<open>The four ways through \<open>Publish\<close>.\<close>

lemma publish_cases:
  assumes pub: "Publish cfg H X srt inp p w = (r, p', w')" and ne: "Workers inp \<noteq> []"
  obtains (gate) e where "ensureCommitViewCurrentLocked cfg p w = (Some e, p', w')" "r = Some e"
  | (coverage) e where "ensureCommitViewCurrentLocked cfg p w = (None, p', w')" "r = Some e"
      "checkCoverage (SourcePartitions inp) (Assignments inp) (ParkedPartitions inp) = Some e"
  | (payloads) e w1 where "ensureCommitViewCurrentLocked cfg p w = (None, p', w1)" "r = Some e"
      "writePayloads cfg H X srt (Workers inp) (Assignments inp) (WorkerLabels inp) w1 = (Inl e, w')"
      "\<And>c. e \<noteq> ErrCommitCASFailed c"
  | (batch) p1 w1 refs pls w2 q l1 l2 where "ensureCommitViewCurrentLocked cfg p w = (None, p1, w1)"
      "checkCoverage (SourcePartitions inp) (Assignments inp) (ParkedPartitions inp) = None"
      "writePayloads cfg H X srt (Workers inp) (Assignments inp) (WorkerLabels inp) w1 = (Inr (refs, pls), w2)"
      "fenced_batch cfg X inp refs pls (wrap64 (currentVersion p1 + 1)) (p1\<lparr>inflightRefs := l1\<rparr>) w2 = (r, q, w')"
      "p' = q\<lparr>inflightRefs := l2\<rparr>"
proof -
  obtain g p1 w1 where 1: "ensureCommitViewCurrentLocked cfg p w = (g, p1, w1)" by (metis prod_cases3)
  obtain x w2 where 2: "writePayloads cfg H X srt (Workers inp) (Assignments inp) (WorkerLabels inp) w1 = (x, w2)" by fastforce
  have noncas: "\<exists>wk f. e = PayloadWorker wk f" if "write_payloads cfg H X srt asg lb ws refs pls u = (Inl e, u')" for e asg lb ws refs pls u u'
    using that by (induction ws arbitrary: refs pls u) (auto simp: Let_def split: prod.splits sum.splits)
  show thesis
  proof (cases g)
    case (Some e)
    then show thesis using pub ne 1 by (intro gate) (auto simp: Publish_def)
  next
    case g: None
    show thesis
    proof (cases "checkCoverage (SourcePartitions inp) (Assignments inp) (ParkedPartitions inp)")
      case (Some e)
      then have "p' = p1" "w' = w1" "r = Some e" using pub ne 1 g by (auto simp: Publish_def)
      then show thesis using 1 g Some by (intro coverage[of e]) auto
    next
      case cov: None
      show thesis
      proof (cases x)
        case (Inl e)
        then have "r = Some e" "p' = p1" "w' = w2" using pub ne 1 2 g cov by (auto simp: Publish_def Let_def)
        then show thesis using 1 2 g Inl noncas[OF 2[unfolded writePayloads_def Inl]] by (intro payloads) auto
      next
        case (Inr y)
        obtain refs pls where y: "y = (refs, pls)" by fastforce
        define ks where "ks = map (\<lambda>(_, ref). ref_Key ref) refs"
        define l1 where "l1 = foldl (\<lambda>s k. List.insert k s) (inflightRefs p1) ks"
        obtain r2 q w3 where 3: "fenced_batch cfg X inp refs pls (wrap64 (currentVersion p1 + 1)) (p1\<lparr>inflightRefs := l1\<rparr>) w2 = (r2, q, w3)"
          by (metis prod_cases3)
        have "r = r2" "p' = q\<lparr>inflightRefs := foldl (\<lambda>s k. removeAll k s) (inflightRefs q) ks\<rparr>" "w' = w3"
          using pub ne 1 2 g cov Inr y 3 by (auto simp: Publish_def Let_def ks_def l1_def)
        then show thesis using 1[unfolded g] cov 2[unfolded Inr y] 3 by (intro batch) auto
      qed
    qed
  qed
qed

lemma inflight_view [simp]: "view_inv cfg (p\<lparr>inflightRefs := l\<rparr>) b = view_inv cfg p b"
  by (simp add: view_inv_def)

lemma batch_result_inflight [simp]:
  "batch_result cfg view env mk r (p\<lparr>inflightRefs := l\<rparr>) w w' = batch_result cfg view env mk r p w w'"
  by (simp add: batch_result_def cong: option.case_cong)

lemma publish_batch_props:
  assumes L: "cfg_laws cfg view env" and ok: "input_ok inp" and inv: "view_inv cfg p (view w)" "bucket_wf (view w)"
    and g: "ensureCommitViewCurrentLocked cfg p w = (None, p1, w1)"
    and wp: "writePayloads cfg H X srt (Workers inp) (Assignments inp) (WorkerLabels inp) w1 = (Inr (refs, pls), w2)"
    and fb: "fenced_batch cfg X inp refs pls (wrap64 (currentVersion p1 + 1)) (p1\<lparr>inflightRefs := l1\<rparr>) w2 = (r, q, w')"
  shows "quiet cfg view env w w2 \<and> refs_ok cfg view env H X (build_payload srt (Assignments inp) (WorkerLabels inp)) refs w w2 \<and>
    fst ` set refs = set (Workers inp) \<and> currentVersion p \<le> currentVersion p1 \<and> in_i64 (currentVersion p1) \<and>
    batch_result cfg view env (build_commit X inp refs (wrap64 (currentVersion p1 + 1)) (lastCommitRev p1)) r q w2 w' \<and>
    view_inv cfg q (view w')"
proof -
  note gp = gate_props[OF L g inv]
  note sp = step_payloads[OF L wp]
  have q2: "quiet cfg view env w w2" using evo_trans[OF _ sp(1)] gp by blast
  have "view_inv cfg (p1\<lparr>inflightRefs := l1\<rparr>) (view w2)" "bucket_wf (view w2)"
    using view_inv_evolves[of cfg p1 "view w1" "view w2"] quiet_wf[OF L sp(1)] gp by auto
  from fenced_batch_props[OF L ok fb this]
  have "batch_result cfg view env (build_commit X inp refs (wrap64 (currentVersion p1 + 1)) (lastCommitRev p1)) r q w2 w' \<and> view_inv cfg q (view w')"
    by simp
  moreover have "refs_ok cfg view env H X (build_payload srt (Assignments inp) (WorkerLabels inp)) refs w w2 \<and> fst ` set refs = set (Workers inp)"
    using refs_ok_before[of view env cfg w w1 H X _ refs w2] sp(2)[OF refl] gp by blast
  moreover have "in_i64 (currentVersion p1)" using gp by (simp add: view_inv_def)
  ultimately show ?thesis using q2 gp by blast
qed

lemma publish_covered:
  assumes "Publish cfg H X srt inp p w = (None, p', w')" "Workers inp \<noteq> []"
  shows "mset (map CanonicalID (unionPartitions (Assignments inp) @ ParkedPartitions inp)) =
      mset_set (CanonicalID ` set (SourcePartitions inp))"
  using assms
proof (cases rule: publish_cases)
  case (batch p1 w1 refs pls w2 q l1 l2)
  then show ?thesis using coverage_iff by blast
qed simp_all

lemma publish_committed:
  assumes "cfg_laws cfg view env" "input_ok inp" "view_inv cfg p (view w)" "bucket_wf (view w)"
    and "Workers inp \<noteq> []" "Publish cfg H X srt inp p w = (None, p', w')"
  shows "\<exists>c w1. lastCommit p' = Some c \<and> currentVersion p' = cm_Version c \<and> cm_Workers c = sort (Workers inp) \<and>
       cm_LeaderRevision c = LeaderRevision inp \<and> fst ` set (cm_Payloads c) = set (Workers inp) \<and>
       (currentVersion p < cm_Version c \<or> cm_Version c = - (2 ^ 63)) \<and>
       quiet cfg view env w w1 \<and>
       refs_ok cfg view env H X (build_payload srt (Assignments inp) (WorkerLabels inp)) (cm_Payloads c) w w1 \<and>
       swapped cfg view env c (lastCommitRev p') w1 w'"
  using assms(6,5)
proof (cases rule: publish_cases)
  case (batch p1 w1 refs pls w2 q l1 l2)
  note b = publish_batch_props[OF assms(1-4) batch(1,3,4)]
  let ?c = "build_commit X inp refs (wrap64 (currentVersion p1 + 1)) (lastCommitRev p1)"
  obtain t where t: "swapped cfg view env (?c t) (lastCommitRev q) w2 w'" "currentVersion q = cm_Version (?c t)" "lastCommit q = Some (?c t)"
    using b by (auto simp: batch_result_def)
  have "currentVersion p < cm_Version (?c t) \<or> cm_Version (?c t) = - (2 ^ 63)"
    using wrap64_succ[of "currentVersion p1"] b by (auto simp: build_commit_def)
  moreover have "cm_Payloads (?c t) = refs" "cm_Workers (?c t) = sort (Workers inp)" "cm_LeaderRevision (?c t) = LeaderRevision inp"
    by (auto simp: build_commit_def)
  ultimately show ?thesis using t b batch(5) by (intro exI[of _ "?c t"] exI[of _ w2]) simp
qed simp_all

text \<open>C4: a publish that returns without error has committed the batch. Its partitions cover the
  source exactly; every worker has a reference, and before the commit was written the payload of
  every reference was stored under its content address, with the hash that the commit records, at
  the recorded revision; the commit key changed once, by a swap from the revision the publisher had
  observed, to a version one higher than the publisher's, over a commit of a smaller version.\<close>

theorem publish_commits:
  assumes "cfg_laws cfg view env" "input_ok inp" "view_inv cfg p (view w)" "bucket_wf (view w)"
    and "Workers inp \<noteq> []" "Publish cfg H X srt inp p w = (None, p', w')"
  shows "mset (map CanonicalID (unionPartitions (Assignments inp) @ ParkedPartitions inp)) =
      mset_set (CanonicalID ` set (SourcePartitions inp)) \<and>
    (\<exists>c w1. lastCommit p' = Some c \<and> currentVersion p' = cm_Version c \<and> cm_Workers c = sort (Workers inp) \<and>
       cm_LeaderRevision c = LeaderRevision inp \<and> fst ` set (cm_Payloads c) = set (Workers inp) \<and>
       (currentVersion p < cm_Version c \<or> cm_Version c = - (2 ^ 63)) \<and>
       quiet cfg view env w w1 \<and>
       refs_ok cfg view env H X (build_payload srt (Assignments inp) (WorkerLabels inp)) (cm_Payloads c) w w1 \<and>
       swapped cfg view env c (lastCommitRev p') w1 w')"
  using publish_covered[OF assms(6,5)] publish_committed[OF assms] by blast

section \<open>An example\<close>

text \<open>Two workers, two partitions, one parked; the store is in memory and nothing else is wired.\<close>

definition ex_cfg :: "asg_value mem_world pub_cfg" where
  "ex_cfg = fst (NewAssignmentPublisher (\<lambda>w. (snd w, w)) (\<lambda>w. (False, w)) (\<lambda>n w. w)
     \<lparr>cfg_AssignmentKV = mem_kv [], cfg_HeartbeatKV = None, cfg_Prefix = ''a'', cfg_HeartbeatPrefix = [],
      cfg_LeaderCheckFn = Some (\<lambda>n w. (n \<noteq> 7, w)), cfg_GCTriggerFn = None,
      cfg_IsShuttingDown = Some (\<lambda>w. (False, w)), cfg_Now = None\<rparr>)"

definition ex_publisher :: publisher where
  "ex_publisher = \<lparr>currentVersion = 0, lastCommitRev = 0, lastCommit = None, lastCommitObservedAtMono = 0,
     commitReseedPending = False, lastRebalance = 0, inflightRefs = []\<rparr>"

definition ex_world :: "asg_value mem_world" where
  "ex_world = (\<lparr>bk_last = 0, bk_entries = \<lambda>_. None\<rparr>, 1000)"

definition ex_hash :: "asg_value \<Rightarrow> string" where
  "ex_hash v = (case v of VPayload pl \<Rightarrow> concat (map CanonicalID (pl_Partitions pl)) | _ \<Rightarrow> [])"

definition ex_xxh3 :: xxh3 where
  "ex_xxh3 = \<lparr>HashString = \<lambda>s. 1, HashStringSeed = \<lambda>s n. 1, HashSeed = \<lambda>s n. 1, HasherSum64 = \<lambda>ss. 1\<rparr>"

definition ex_part :: "string \<Rightarrow> partition" where
  "ex_part k = \<lparr>Keys = [k], Weight = 1, Label = []\<rparr>"

definition ex_input :: publish_input where
  "ex_input = \<lparr>Workers = [''w2'', ''w1''], Assignments = [(''w1'', [ex_part ''x'']), (''w2'', [ex_part ''y''])],
     SourcePartitions = [ex_part ''x'', ex_part ''y'', ex_part ''z''], in_SourceRevision = 0, in_SourceRevisionKnown = False,
     LeaderRevision = 7, Lifecycle = ''stable'', WorkersToRemove = [], ParkedPartitions = [ex_part ''z''],
     WorkerLabels = (\<lambda>_. [])\<rparr>"

abbreviation ex_run :: "pub_error option \<times> publisher \<times> asg_value mem_world" where
  "ex_run \<equiv> Publish ex_cfg ex_hash ex_xxh3 (sort_by canonical_cmp) ex_input ex_publisher ex_world"

lemma ex_laws: "cfg_laws ex_cfg fst (=)"
  by (simp add: cfg_laws_def ex_cfg_def NewAssignmentPublisher_def mem_kv_laws)

lemma ex_ok: "input_ok ex_input" "view_inv ex_cfg ex_publisher (fst ex_world)" "bucket_wf (fst ex_world)" "Workers ex_input \<noteq> []"
  by (auto simp: input_ok_def ex_input_def view_inv_def ex_publisher_def ex_world_def bucket_wf_def in_i64_def
      isProtocolSubcomponent_def has_prefix_def protocolKeyMarker_def)

lemma ex_publishes: "fst ex_run = None"
  by code_simp

lemma ex_run_split: "ex_run = (None, fst (snd ex_run), snd (snd ex_run))"
  using ex_publishes by (metis prod.collapse)

theorem publish_commits_witness:
  "\<exists>c. lastCommit (fst (snd ex_run)) = Some c \<and> cm_Workers c = sort [''w2'', ''w1''] \<and>
     fst ` set (cm_Payloads c) = {''w1'', ''w2''} \<and> currentVersion (fst (snd ex_run)) = cm_Version c"
proof -
  have w: "Workers ex_input = [''w2'', ''w1'']" by (simp add: ex_input_def)
  show ?thesis
    using publish_commits[OF ex_laws ex_ok ex_run_split] unfolding w by (auto simp: insert_commute)
qed

section \<open>The life of a publisher\<close>

text \<open>What the publisher may do to the bucket: touch keys other than the commit, and replace the
  commit by one of a larger version.\<close>

definition pub_step :: "'w pub_cfg \<Rightarrow> asg_value bucket \<Rightarrow> asg_value bucket \<Rightarrow> bool" where
  "pub_step cfg b b' \<longleftrightarrow> touches (\<lambda>k. k \<noteq> commit_key cfg) b b' \<or> (\<exists>c n. commit_step cfg c n b b')"

lemma quiet_evo: "quiet cfg view env w w' \<Longrightarrow> evo view env (pub_step cfg) w w'"
  by (erule evo_mono) (simp add: pub_step_def)

lemma swapped_evo: "swapped cfg view env c n w w' \<Longrightarrow> evo view env (pub_step cfg) w w'"
proof -
  assume "swapped cfg view env c n w w'"
  then obtain w1 w2 where 1: "quiet cfg view env w w1" "commit_step cfg c n (view w1) (view w2)" "quiet cfg view env w2 w'"
    by (auto simp: swapped_def)
  have "evo view env (pub_step cfg) w w2"
    by (rule evo_own[OF quiet_evo[OF 1(1)]]) (use 1(2) in \<open>auto simp: pub_step_def\<close>)
  then show ?thesis by (rule evo_trans) (rule quiet_evo[OF 1(3)])
qed

lemma batch_evo: "batch_result cfg view env mk r p w w' \<Longrightarrow> evo view env (pub_step cfg) w w'"
  by (auto simp: batch_result_def split: option.splits intro: quiet_evo swapped_evo)

lemma pub_step_touches: "pub_step cfg b b' \<Longrightarrow> touches (\<lambda>_. True) b b'"
  by (auto simp: pub_step_def commit_step_def elim: touches_mono dest!: eff_put_touches)

lemma publish_props:
  assumes L: "cfg_laws cfg view env" and ok: "input_ok inp" and inv: "view_inv cfg p (view w)" "bucket_wf (view w)"
    and pub: "Publish cfg H X srt inp p w = (r, p', w')"
  shows "view_inv cfg p' (view w') \<and> evo view env (pub_step cfg) w w'"
proof (cases "Workers inp = []")
  case False
  from pub False show ?thesis
  proof (cases rule: publish_cases)
    case (payloads e w1)
    have q: "quiet cfg view env w1 w'" by (rule step_payloads(1)[OF L payloads(3)])
    note g = gate_props[OF L payloads(1) inv]
    have "quiet cfg view env w w'" by (rule evo_trans[OF conjunct1[OF g] q])
    moreover have "view_inv cfg p' (view w')"
      using quiet_wf[OF L q] view_inv_evolves[of cfg p' "view w1"] g by simp
    ultimately show ?thesis by (simp add: quiet_evo)
  next
    case (batch p1 w1 refs pls w2 q l1 l2)
    note b = publish_batch_props[OF L ok inv batch(1,3,4)]
    have "evo view env (pub_step cfg) w w2" "evo view env (pub_step cfg) w2 w'"
      using b quiet_evo[of view env cfg w w2] batch_evo[of cfg view env _ r q w2 w'] by blast+
    then have "evo view env (pub_step cfg) w w'" by (rule evo_trans)
    then show ?thesis using b batch(5) by simp
  next
    case (gate e)
    then show ?thesis using gate_props[OF L gate(1) inv] by (simp add: quiet_evo)
  next
    case (coverage e)
    then show ?thesis using gate_props[OF L coverage(1) inv] by (simp add: quiet_evo)
  qed
qed (use pub inv in \<open>auto simp: Publish_def\<close>)

text \<open>A publisher starts fresh, takes over (\<open>DiscoverHighestVersion\<close>, \<open>BootstrapLastCommit\<close>), publishes
  and cleans up, in any order; between two operations others may write.\<close>

inductive pub_life ::
  "'w pub_cfg \<Rightarrow> ('w \<Rightarrow> 'w \<Rightarrow> bool) \<Rightarrow> (asg_value \<Rightarrow> string) \<Rightarrow> xxh3 \<Rightarrow> (partition list \<Rightarrow> partition list) \<Rightarrow> 'w \<Rightarrow>
     publisher \<Rightarrow> 'w \<Rightarrow> bool"
  for cfg env H X srt w0 where
  life_new: "p = snd (NewAssignmentPublisher tn ce bo (c :: 'w publisher_config)) \<Longrightarrow> pub_life cfg env H X srt w0 p w0"
| life_env: "pub_life cfg env H X srt w0 p w \<Longrightarrow> env w w' \<Longrightarrow> pub_life cfg env H X srt w0 p w'"
| life_discover: "pub_life cfg env H X srt w0 p w \<Longrightarrow> DiscoverHighestVersion cfg p w = (r, p', w') \<Longrightarrow>
    pub_life cfg env H X srt w0 p' w'"
| life_bootstrap: "pub_life cfg env H X srt w0 p w \<Longrightarrow> BootstrapLastCommit cfg p w = (p', w') \<Longrightarrow>
    pub_life cfg env H X srt w0 p' w'"
| life_publish: "pub_life cfg env H X srt w0 p w \<Longrightarrow> input_ok inp \<Longrightarrow> Publish cfg H X srt inp p w = (e, p', w') \<Longrightarrow>
    pub_life cfg env H X srt w0 p' w'"
| life_cleanup: "pub_life cfg env H X srt w0 p w \<Longrightarrow> CleanupAllAssignments cfg w = (e', w') \<Longrightarrow>
    pub_life cfg env H X srt w0 p w'"

lemma unmarshal_range: "unmarshal_commit v = Some c \<Longrightarrow> in_i64 (cm_Version c)"
  "unmarshal_assignment v = Some a \<Longrightarrow> in_i64 (as_Version a)"
  by (auto simp: unmarshal_assignment_def unmarshal_commit_def split: asg_value.splits option.splits if_splits)

lemma observe_commit:
  assumes L: "cfg_laws cfg view env" and g: "kv_Get (assignmentKV cfg) (commit_key cfg) w = (Inr e, w')"
    and inv: "view_inv cfg p (view w)" "bucket_wf (view w)" and c: "unmarshal_commit (ent_Value e) = Some c"
    and p': "lastCommitRev p' = ent_Revision e \<or> lastCommitRev p' = max (lastCommitRev p) (ent_Revision e)"
      "currentVersion p' = max (currentVersion p) (cm_Version c)"
  shows "view_inv cfg p' (view w')"
proof -
  obtain x where x: "env w x" "bk_entries (view x) (commit_key cfg) = Some e" "env x w'"
    using kv_get_ok[OF law_kv[OF L] g] by (auto simp: get_resp_def)
  have q: "quiet cfg view env w x" "quiet cfg view env x w'" by (rule quiet_env, rule x)+
  have wx: "bucket_wf (view x)" "evolves (view w) (view x)" using quiet_wf[OF L q(1) inv(2)] by auto
  have "view_inv cfg p (view x)" by (rule view_inv_evolves[OF inv(1) wx(2)])
  moreover have "ent_Revision e \<le> bk_last (view x)" using wx(1) x(2) by (simp add: bucket_wf_def)
  ultimately have "view_inv cfg p' (view x)"
    using c p' x(2) unmarshal_range(1)[OF c] by (auto simp: view_inv_def max_def split: if_splits)
  then show ?thesis using view_inv_evolves quiet_wf[OF L q(2) wx(1)] by blast
qed

lemma discover_keys_props: "cfg_laws cfg view env \<Longrightarrow> discover_keys cfg s ks hv ids w = (hv', ids', w') \<Longrightarrow> in_i64 hv \<Longrightarrow>
    quiet cfg view env w w' \<and> in_i64 hv'"
proof (induction ks arbitrary: hv ids w)
  case (Cons k ks)
  obtain g w1 where g: "GetJSON (assignmentKV cfg) unmarshal_assignment k w = (g, w1)" by fastforce
  have q: "quiet cfg view env w w1"
    using g step_get[OF Cons.prems(1), of k w] by (auto simp: GetJSON_def split: prod.splits sum.splits kv_error.splits option.splits)
  have a: "in_i64 (as_Version a)" if "g = Inr (Some (a, n))" for a n
    using g that unmarshal_range(2) by (auto simp: GetJSON_def split: prod.splits sum.splits kv_error.splits option.splits)
  consider ids1 where "discover_keys cfg s ks hv ids1 w = (hv', ids', w')"
    | ids1 hv1 where "discover_keys cfg s ks hv1 ids1 w1 = (hv', ids', w')" "in_i64 hv1"
    using Cons.prems(2,3) g a by (fastforce simp: Let_def split: if_splits sum.splits option.splits)
  then show ?case
  proof cases
    case 2
    then show ?thesis using Cons.IH[OF Cons.prems(1) 2] evo_trans[OF q, of w'] by simp
  qed (use Cons.IH[OF Cons.prems(1) _ Cons.prems(3)] in simp)
qed simp

lemma view_inv_version: "view_inv cfg p b \<Longrightarrow> in_i64 v \<Longrightarrow> view_inv cfg (p\<lparr>currentVersion := max (currentVersion p) v\<rparr>) b"
  by (auto simp: view_inv_def max_def)

lemma discover_props:
  assumes L: "cfg_laws cfg view env" and d: "DiscoverHighestVersion cfg p w = (r, p', w')"
    and inv: "view_inv cfg p (view w)" "bucket_wf (view w)"
  shows "view_inv cfg p' (view w') \<and> quiet cfg view env w w'"
proof -
  obtain l w1 where 1: "ListKeys (assignmentKV cfg) (keyPrefix cfg) False w = (l, w1)" by fastforce
  obtain s p2 w2 where 2: "seed_commit cfg p w1 = (s, p2, w2)" by (metis prod_cases3)
  have q1: "quiet cfg view env w w1" by (rule quiet_env[of env, OF listKeys_env[OF law_kv[OF L] 1]])
  have inv1: "view_inv cfg p (view w1)" "bucket_wf (view w1)"
    using view_inv_evolves[OF inv(1)] quiet_wf[OF L q1 inv(2)] by auto
  have s2: "quiet cfg view env w1 w2 \<and> view_inv cfg p2 (view w2)"
  proof -
    obtain g where g: "kv_Get (assignmentKV cfg) (commit_key cfg) w1 = (g, w2)"
      and pc: "p2 = p \<or> (\<exists>e c. g = Inr e \<and> unmarshal_commit (ent_Value e) = Some c \<and>
        p2 = p\<lparr>lastCommitRev := ent_Revision e, currentVersion := max (currentVersion p) (cm_Version c)\<rparr>)"
      using 2 by (auto simp: seed_commit_def max_def split: prod.splits sum.splits option.splits)
    have q: "quiet cfg view env w1 w2" by (rule step_get[OF L g])
    then have same: "view_inv cfg p (view w2)" using view_inv_evolves[OF inv1(1)] quiet_wf[OF L q inv1(2)] by auto
    show ?thesis
    proof (cases "p2 = p")
      case False
      then obtain e c where "g = Inr e" "unmarshal_commit (ent_Value e) = Some c"
        "p2 = p\<lparr>lastCommitRev := ent_Revision e, currentVersion := max (currentVersion p) (cm_Version c)\<rparr>" using pc by blast
      then show ?thesis using observe_commit[OF L _ inv1, of e w2 c p2] g q by simp
    qed (use q same in simp)
  qed
  show ?thesis
  proof (cases l)
    case (Inl e)
    then show ?thesis using d 1 q1 inv1 by (auto simp: DiscoverHighestVersion_def)
  next
    case (Inr ks)
    obtain hv ids w3 where 3: "discover_keys cfg s ks 0 [] w2 = (hv, ids, w3)" by (metis prod_cases3)
    have p': "p' = p2\<lparr>currentVersion := max (currentVersion p2) hv\<rparr>" "w' = w3"
      using d 1 2 3 Inr by (auto simp: DiscoverHighestVersion_def max_def)
    have q3: "quiet cfg view env w2 w3" and hv: "in_i64 hv"
      using discover_keys_props[OF L 3] by (auto simp: in_i64_def)
    have wf2: "bucket_wf (view w2)" using quiet_wf[OF L _ inv1(2)] s2 by blast
    have "view_inv cfg p2 (view w3)" using view_inv_evolves[of cfg p2 "view w2"] s2 quiet_wf[OF L q3 wf2] by blast
    moreover have "quiet cfg view env w w3" by (rule evo_trans[OF evo_trans[OF q1 conjunct1[OF s2]] q3])
    ultimately show ?thesis using p' view_inv_version[OF _ hv] by simp
  qed
qed

lemma bootstrap_props:
  assumes L: "cfg_laws cfg view env" and d: "BootstrapLastCommit cfg p w = (p', w')"
    and inv: "view_inv cfg p (view w)" "bucket_wf (view w)"
  shows "view_inv cfg p' (view w') \<and> quiet cfg view env w w'"
proof -
  obtain g w1 where g: "kv_Get (assignmentKV cfg) (commit_key cfg) w = (g, w1)" by fastforce
  have q: "quiet cfg view env w w1" by (rule step_get[OF L g])
  have same: "view_inv cfg p (view w1)" "bucket_wf (view w1)"
    using view_inv_evolves[OF inv(1)] quiet_wf[OF L q inv(2)] by auto
  consider "p' = p" "w' = w1"
    | e c t where "g = Inr e" "unmarshal_commit (ent_Value e) = Some c" "time_Now cfg w1 = (t, w')"
        "lastCommitRev p' = max (lastCommitRev p) (ent_Revision e)" "currentVersion p' = max (currentVersion p) (cm_Version c)"
    using d g by (auto simp: BootstrapLastCommit_def max_def split: prod.splits sum.splits option.splits)
  then show ?thesis
  proof cases
    case (2 e c t)
    have "view_inv cfg p' (view w1)" using observe_commit[OF L _ inv, of e w1 c p'] g 2 by simp
    moreover have qt: "quiet cfg view env w1 w'" by (rule step_time[OF L 2(3)])
    ultimately show ?thesis
      using view_inv_evolves[of cfg p' "view w1"] quiet_wf[OF L qt same(2)] evo_trans[OF q qt] by simp
  qed (use same q in simp)
qed

lemma step_cleanup_all: assumes L: "cfg_laws cfg view env" and c: "CleanupAllAssignments cfg w = (r, w')"
  shows "quiet cfg view env w w'"
proof -
  obtain k w1 where k: "kv_Keys (assignmentKV cfg) w = (k, w1)" by fastforce
  have q: "quiet cfg view env w w1" by (rule kv_keys_evo[OF law_kv[OF L] k])
  obtain ws where "w' = w1 \<or> w' = cleanupStaleAssignmentsLocked cfg ws w1"
    using c k by (auto simp: CleanupAllAssignments_def Let_def split: sum.splits kv_error.splits)
  then show ?thesis using q evo_trans[OF q step_cleanup[OF L]] by auto
qed

lemma life_inv:
  assumes "pub_life cfg env H X srt w0 p w" and L: "cfg_laws cfg view env" and "bucket_wf (view w0)"
  shows "view_inv cfg p (view w) \<and> bucket_wf (view w) \<and> evo view env (pub_step cfg) w0 w"
  using assms(1,3)
proof induction
  case (life_new p tn ce bo c)
  then show ?case
    by (fastforce simp: NewAssignmentPublisher_def Let_def view_inv_def in_i64_def bucket_wf_def)
next
  case (life_env p w w')
  have "quiet cfg view env w w'" by (rule quiet_env[of env, OF life_env(2)])
  moreover have "evo view env (pub_step cfg) w0 w'" using life_env by (blast intro: evo.evo_env)
  ultimately show ?case using life_env view_inv_evolves quiet_wf[OF L] by blast
next
  case (life_discover p w r p' w')
  then have "view_inv cfg p' (view w') \<and> quiet cfg view env w w'" using discover_props[OF L] by blast
  then show ?case using life_discover quiet_wf[OF L] quiet_evo[of view env cfg w w'] evo_trans[of view env _ w0 w w'] by blast
next
  case (life_bootstrap p w p' w')
  then have "view_inv cfg p' (view w') \<and> quiet cfg view env w w'" using bootstrap_props[OF L] by blast
  then show ?case using life_bootstrap quiet_wf[OF L] quiet_evo[of view env cfg w w'] evo_trans[of view env _ w0 w w'] by blast
next
  case (life_publish p w inp e p' w')
  then have i: "view_inv cfg p (view w)" "bucket_wf (view w)" and e: "evo view env (pub_step cfg) w0 w" by auto
  have "view_inv cfg p' (view w') \<and> evo view env (pub_step cfg) w w'" by (rule publish_props[OF L life_publish(2) i life_publish(3)])
  then show ?case
    using evo_trans[OF e, of w'] evo_wf[of view env "pub_step cfg" w w', OF _ i(2) law_kv[OF L] pub_step_touches[of cfg]] by blast
next
  case (life_cleanup p w e' w')
  have "quiet cfg view env w w'" by (rule step_cleanup_all[OF L life_cleanup(2)])
  then show ?case
    using life_cleanup quiet_wf[OF L] view_inv_evolves quiet_evo[of view env cfg w w'] evo_trans[of view env _ w0 w w'] by blast
qed

text \<open>C5: over the whole life of a publisher, whatever others write in between and whichever
  operations fail, the publisher changes the commit key only by replacing the live commit by one of
  a larger version (until the 64-bit counter overflows), and its view stays valid: the commit it
  would swap out never has a version above its own.\<close>

theorem commit_versions_increase:
  assumes "cfg_laws cfg view env" "bucket_wf (view w0)" "pub_life cfg env H X srt w0 p w"
  shows "evo view env (pub_step cfg) w0 w \<and> view_inv cfg p (view w)"
  using life_inv[OF assms(3,1,2)] by blast

theorem commit_versions_increase_witness:
  "evo fst (=) (pub_step ex_cfg) ex_world (snd (snd ex_run)) \<and> view_inv ex_cfg (fst (snd ex_run)) (fst (snd (snd ex_run)))"
proof -
  have p: "ex_publisher = snd (NewAssignmentPublisher (\<lambda>w. (snd w, w)) (\<lambda>w. (False, w)) (\<lambda>n w. w)
     \<lparr>cfg_AssignmentKV = mem_kv [], cfg_HeartbeatKV = None, cfg_Prefix = ''a'', cfg_HeartbeatPrefix = [],
      cfg_LeaderCheckFn = None, cfg_GCTriggerFn = None, cfg_IsShuttingDown = None, cfg_Now = None\<rparr> :: asg_value mem_world pub_cfg \<times> publisher)"
    by (simp add: NewAssignmentPublisher_def ex_publisher_def)
  show ?thesis
    by (rule commit_versions_increase[OF ex_laws ex_ok(3) life_publish[OF life_new[OF p] ex_ok(1) ex_run_split]])
qed

text \<open>C17: a publish that returns an error has left the commit key alone, unless the swap itself
  ended in an error that says nothing about its outcome (a timeout); in particular a batch that
  fails the coverage check, a leadership fence, the alias barrier, the shutdown check or the swap's
  condition is not committed.\<close>

theorem publish_error_no_commit:
  assumes "cfg_laws cfg view env" "input_ok inp" "view_inv cfg p (view w)" "bucket_wf (view w)"
    and "Publish cfg H X srt inp p w = (Some err, p', w')"
    and "\<And>e. err = ErrCommitCASFailed (CasWrite e) \<Longrightarrow> e = ErrKeyExists"
  shows "quiet cfg view env w w'"
proof -
  have "Workers inp \<noteq> []" using assms(5) by (auto simp: Publish_def)
  with assms(5) show ?thesis
  proof (cases rule: publish_cases)
    case (payloads e w1)
    then show ?thesis
      using evo_trans[OF conjunct1[OF gate_props[OF assms(1) payloads(1) assms(3,4)]] step_payloads(1)[OF assms(1) payloads(3)]] by simp
  next
    case (batch p1 w1 refs pls w2 q l1 l2)
    note b = publish_batch_props[OF assms(1-4) batch(1,3,4)]
    then have "quiet cfg view env w2 w'" using assms(6) by (auto simp: batch_result_def)
    then show ?thesis using evo_trans[OF conjunct1[OF b]] by blast
  next
    case (gate e)
    then show ?thesis using gate_props[OF assms(1) gate(1) assms(3,4)] by simp
  next
    case (coverage e)
    then show ?thesis using gate_props[OF assms(1) coverage(1) assms(3,4)] by simp
  qed
qed

definition ex_stale :: publish_input where
  "ex_stale = ex_input\<lparr>LeaderRevision := 6\<rparr>"

lemma ex_stale_fails:
  "fst (Publish ex_cfg ex_hash ex_xxh3 (sort_by canonical_cmp) ex_stale ex_publisher ex_world) = Some (ErrLeadershipLostPreAlias 6)"
  by code_simp

theorem publish_error_no_commit_witness:
  "evo fst (=) (touches (\<lambda>k. k \<noteq> ''a._commit'')) ex_world
     (snd (snd (Publish ex_cfg ex_hash ex_xxh3 (sort_by canonical_cmp) ex_stale ex_publisher ex_world)))"
proof -
  have k: "commit_key ex_cfg = ''a._commit''"
    by (simp add: commit_key_def ex_cfg_def NewAssignmentPublisher_def commitKeyName_def)
  have i: "input_ok ex_stale" using ex_ok(1) by (simp add: input_ok_def ex_stale_def)
  have s: "Publish ex_cfg ex_hash ex_xxh3 (sort_by canonical_cmp) ex_stale ex_publisher ex_world =
      (Some (ErrLeadershipLostPreAlias 6), fst (snd (Publish ex_cfg ex_hash ex_xxh3 (sort_by canonical_cmp) ex_stale ex_publisher ex_world)),
       snd (snd (Publish ex_cfg ex_hash ex_xxh3 (sort_by canonical_cmp) ex_stale ex_publisher ex_world)))"
    using ex_stale_fails by (metis prod.collapse)
  show ?thesis using publish_error_no_commit[OF ex_laws i ex_ok(2,3) s] unfolding k by simp
qed

text \<open>The publisher has read a commit from the store and its view is at least that commit.\<close>

definition winner_read :: "'w pub_cfg \<Rightarrow> publisher \<Rightarrow> bool" where
  "winner_read cfg p \<longleftrightarrow> \<not> commitReseedPending p \<and>
     (\<exists>w w' e c. kv_Get (assignmentKV cfg) (commit_key cfg) w = (Inr e, w') \<and> unmarshal_commit (ent_Value e) = Some c \<and>
        lastCommit p = Some c \<and> cm_Version c \<le> currentVersion p \<and> ent_Revision e \<le> lastCommitRev p)"

lemma reseed_read: "reseedFromLiveCommitLocked cfg p w = (r, p', w') \<Longrightarrow> commitReseedPending p \<Longrightarrow>
    commitReseedPending p' \<or> winner_read cfg p'"
  by (auto simp: reseedFromLiveCommitLocked_def winner_read_def split: prod.splits sum.splits option.splits)
    (meson not_less order_refl)+

lemma surrender_latches: "surrenderCommitCASLocked cfg ErrKeyExists p w = (r, p', w') \<Longrightarrow> commitReseedPending p' \<or> winner_read cfg p'"
proof -
  assume s: "surrenderCommitCASLocked cfg ErrKeyExists p w = (r, p', w')"
  obtain x where "reseedFromLiveCommitLocked cfg (p\<lparr>commitReseedPending := True\<rparr>) w = (x, p', w')"
    using s by (auto simp: surrenderCommitCASLocked_def reseedAfterCommitCASLossLocked_def split: prod.splits)
      (metis prod.collapse snd_conv)
  then show ?thesis by (rule reseed_read) simp
qed

lemma surrender_error: "surrenderCommitCASLocked cfg e p w = (err, p', w') \<Longrightarrow> err = ErrCommitCASFailed (CasWrite e)"
  by (auto simp: surrenderCommitCASLocked_def split: prod.splits)

lemma commit_batch_latches:
  assumes "commit_batch cfg X inp refs pls lg v p w = (Some (ErrCommitCASFailed (CasWrite ErrKeyExists)), p', w')"
  shows "commitReseedPending p' \<or> winner_read cfg p'"
proof -
  obtain e w1 where "surrenderCommitCASLocked cfg e p w1 = (ErrCommitCASFailed (CasWrite ErrKeyExists), p', w')"
    using assms by (auto simp: commit_batch_def Let_def abortIfShuttingDown_def
        split: prod.splits option.splits sum.splits if_splits)
  moreover from surrender_error[OF this] have "e = ErrKeyExists" by simp
  ultimately show ?thesis using surrender_latches[of cfg p w1] by simp
qed

lemma barrier_error: "alias_barrier cfg inp pls v ws w = (Some e, w') \<Longrightarrow> \<exists>wk f. e = ErrAliasBarrierFailed wk f"
  by (induction ws arbitrary: w) (auto simp: Let_def split: prod.splits option.splits)

lemma fenced_batch_latches:
  assumes "fenced_batch cfg X inp refs pls v p w = (Some (ErrCommitCASFailed (CasWrite ErrKeyExists)), p', w')"
  shows "commitReseedPending p' \<or> winner_read cfg p'"
  using assms commit_batch_latches
  by (fastforce simp: fenced_batch_def checkLeadership_def runAliasBarrier_def dest: barrier_error
      split: prod.splits option.splits if_splits)

lemma lost_swap_latches:
  assumes "Publish cfg H X srt inp p w = (Some (ErrCommitCASFailed (CasWrite ErrKeyExists)), p', w')"
  shows "commitReseedPending p' \<or> winner_read cfg p'"
proof -
  have "Workers inp \<noteq> []" using assms by (auto simp: Publish_def)
  with assms show ?thesis
  proof (cases rule: publish_cases)
    case (batch p1 w1 refs pls w2 q l1 l2)
    then show ?thesis using fenced_batch_latches[OF batch(4)] by (simp add: winner_read_def)
  next
    case (gate e)
    then show ?thesis by (auto simp: ensureCommitViewCurrentLocked_def split: if_splits option.splits prod.splits)
  next
    case (coverage e)
    then show ?thesis by (auto simp: checkCoverage_def Let_def split: if_splits)
  qed auto
qed

text \<open>C18: after a lost swap the publisher fails closed. It has read the winner's commit back, so
  that its version and revision are at least the winner's, or it is latched; while it is latched
  and the live commit cannot be read, a publish returns the same class of error, changes nothing in
  the publisher and does nothing but that one read.\<close>

theorem lost_swap_fails_closed:
  assumes "Publish cfg H X srt inp p w = (Some (ErrCommitCASFailed (CasWrite ErrKeyExists)), p', w')"
    and "Workers inp2 \<noteq> []"
  shows "winner_read cfg p' \<or>
    commitReseedPending p' \<and>
     (\<forall>w2 e w3. kv_Get (assignmentKV cfg) (commit_key cfg) w2 = (Inl e, w3) \<longrightarrow>
        Publish cfg H X srt inp2 p' w2 = (Some (ErrCommitCASFailed (CasReseedPending (ReadLiveCommit e))), p', w3))"
proof -
  have "Publish cfg H X srt inp2 p' w2 = (Some (ErrCommitCASFailed (CasReseedPending (ReadLiveCommit e))), p', w3)"
    if "commitReseedPending p'" "kv_Get (assignmentKV cfg) (commit_key cfg) w2 = (Inl e, w3)" for w2 e w3
    using that assms(2) by (simp add: Publish_def ensureCommitViewCurrentLocked_def reseedFromLiveCommitLocked_def)
  then show ?thesis using lost_swap_latches[OF assms(1)] by blast
qed

text \<open>The example's publisher after another leader has committed first.\<close>

definition ex_taken :: "asg_value mem_world" where
  "ex_taken = (\<lparr>bk_last = 3, bk_entries = (\<lambda>_. None)(''a._commit'' \<mapsto> \<lparr>ent_Value = VCommit (zero_commit\<lparr>cm_Version := 41\<rparr>),
     ent_Revision = 3, ent_Created = 0\<rparr>)\<rparr>, 1000)"

lemma ex_taken_lost:
  "fst (Publish ex_cfg ex_hash ex_xxh3 (sort_by canonical_cmp) ex_input ex_publisher ex_taken) =
     Some (ErrCommitCASFailed (CasWrite ErrKeyExists))"
  by code_simp

theorem lost_swap_fails_closed_witness:
  "winner_read ex_cfg (fst (snd (Publish ex_cfg ex_hash ex_xxh3 (sort_by canonical_cmp) ex_input ex_publisher ex_taken))) \<or>
   commitReseedPending (fst (snd (Publish ex_cfg ex_hash ex_xxh3 (sort_by canonical_cmp) ex_input ex_publisher ex_taken)))"
proof -
  have "Publish ex_cfg ex_hash ex_xxh3 (sort_by canonical_cmp) ex_input ex_publisher ex_taken =
     (Some (ErrCommitCASFailed (CasWrite ErrKeyExists)),
      fst (snd (Publish ex_cfg ex_hash ex_xxh3 (sort_by canonical_cmp) ex_input ex_publisher ex_taken)),
      snd (snd (Publish ex_cfg ex_hash ex_xxh3 (sort_by canonical_cmp) ex_input ex_publisher ex_taken)))"
    using ex_taken_lost by (metis prod.collapse)
  from lost_swap_fails_closed[OF this ex_ok(4)] show ?thesis by blast
qed

end
