(* ===== verification/Commit_GC.thy ===== *)
theory Commit_GC
  imports Publisher_Safety
begin

text \<open>
  The garbage collector of payload keys, \<^verbatim>\<open>internal/assignment/commit_gc.go\<close>: the live set
  (the payloads of the current commit, of the last commit logs, and those of a publish in flight)
  and the sweep, whose deletions are conditioned on the revision that was read.
\<close>

section \<open>Model\<close>

definition DefaultPayloadGCInterval :: duration where "DefaultPayloadGCInterval = 5 * 60 * 1000000000"
definition DefaultPayloadGCRetention :: duration where "DefaultPayloadGCRetention = 24 * 3600 * 1000000000"
definition DefaultPayloadGCKeepCommits :: i64 where "DefaultPayloadGCKeepCommits = 10"

text \<open>A provider of in-flight references answers with a snapshot of the moment it is asked.\<close>

record 'w gc_config =
  gcc_Publisher :: "'w pub_cfg option"
  gcc_LiveRefsProvider :: "('w \<Rightarrow> string list \<times> 'w) option"
  gcc_Interval :: duration
  gcc_Retention :: duration
  gcc_KeepCommits :: i64
  gcc_Now :: "('w \<Rightarrow> time \<times> 'w) option"

record 'w commit_gc =
  gc_pub :: "'w pub_cfg"
  gc_liveRefs :: "'w \<Rightarrow> string list \<times> 'w"
  gc_Interval :: duration
  gc_Retention :: duration
  gc_KeepCommits :: i64
  gc_now :: "'w \<Rightarrow> time \<times> 'w"

text \<open>\<open>pubRefs\<close> is \<open>LiveRefs\<close> of the publisher, whose state is part of the world here.\<close>

definition NewCommitGC ::
  "('w \<Rightarrow> time \<times> 'w) \<Rightarrow> ('w \<Rightarrow> string list \<times> 'w) \<Rightarrow> 'w gc_config \<Rightarrow> 'w commit_gc option" where
  "NewCommitGC timeNow pubRefs cfg =
     (case gcc_Publisher cfg of
        None \<Rightarrow> None
      | Some pub \<Rightarrow> Some \<lparr>
          gc_pub = pub,
          gc_liveRefs = (case gcc_LiveRefsProvider cfg of None \<Rightarrow> pubRefs | Some f \<Rightarrow> f),
          gc_Interval = (if gcc_Interval cfg \<le> 0 then DefaultPayloadGCInterval else gcc_Interval cfg),
          gc_Retention = (if gcc_Retention cfg \<le> 0 then DefaultPayloadGCRetention else gcc_Retention cfg),
          gc_KeepCommits = (if gcc_KeepCommits cfg \<le> 0 then DefaultPayloadGCKeepCommits else gcc_KeepCommits cfg),
          gc_now = (case gcc_Now cfg of None \<Rightarrow> timeNow | Some f \<Rightarrow> f)\<rparr>)"

definition unmarshal_log :: "asg_value \<Rightarrow> assignment_commit_log option" where
  "unmarshal_log v =
     (case v of
        VCommitLog l \<Rightarrow> if in_i64 (cl_Version l) then Some l else None
      | _ \<Rightarrow> map_option (\<lambda>c. \<lparr>cl_Version = cm_Version c, cl_LeaderRevision = cm_LeaderRevision c,
               cl_PublishedAt = cm_PublishedAt c, cl_PayloadKeys = []\<rparr>) (unmarshal_commit v))"

text \<open>The walk over the commit logs, newest first: \<open>n\<close> rounds are left, \<open>v\<close> is the version of
  the round.\<close>

fun live_logs :: "'w commit_gc \<Rightarrow> nat \<Rightarrow> i64 \<Rightarrow> string list \<Rightarrow> 'w \<Rightarrow> string list \<times> 'w" where
  "live_logs g 0 v live w = (live, w)"
| "live_logs g (Suc n) v live w =
     (if v \<le> 0 then (live, w)
      else case kv_Get (assignmentKV (gc_pub g)) (log_key (gc_pub g) v) w of
             (Inl _, w) \<Rightarrow> live_logs g n (v - 1) live w
           | (Inr entry, w) \<Rightarrow>
               (case unmarshal_log (ent_Value entry) of
                  None \<Rightarrow> live_logs g n (v - 1) live w
                | Some logEntry \<Rightarrow> live_logs g n (v - 1) (live @ cl_PayloadKeys logEntry) w))"

definition commit_refs :: "assignment_commit \<Rightarrow> string list" where
  "commit_refs c = map (\<lambda>(_, ref). ref_Key ref) (cm_Payloads c)"

definition computeLiveSet :: "'w commit_gc \<Rightarrow> 'w \<Rightarrow> (kv_error + string list \<times> i64) \<times> 'w" where
  "computeLiveSet g w =
     (let finish = (\<lambda>live ver w.
            case live_logs g (nat (gc_KeepCommits g)) ver live w of
              (live, w) \<Rightarrow> (Inr (live, ver), w))
      in case kv_Get (assignmentKV (gc_pub g)) (commit_key (gc_pub g)) w of
           (Inr entry, w) \<Rightarrow>
             (case unmarshal_commit (ent_Value entry) of
                None \<Rightarrow> finish [] 0 w
              | Some commit \<Rightarrow> finish (commit_refs commit) (cm_Version commit) w)
         | (Inl ErrKeyNotFound, w) \<Rightarrow> finish [] 0 w
         | (Inl err, w) \<Rightarrow> (Inl err, w))"

definition payload_prefix :: "'w commit_gc \<Rightarrow> string" where
  "payload_prefix g = keyPrefix (gc_pub g) @ payloadKeyPrefix"

text \<open>One candidate of the sweep.\<close>

definition sweep_key :: "'w commit_gc \<Rightarrow> string list \<Rightarrow> time \<Rightarrow> string \<Rightarrow> 'w \<Rightarrow> 'w" where
  "sweep_key g live t k w =
     (if \<not> has_prefix k (payload_prefix g) then w
      else if k \<in> set live then w
      else case kv_Get (assignmentKV (gc_pub g)) k w of
             (Inl _, w) \<Rightarrow> w
           | (Inr entry, w) \<Rightarrow>
               if gc_Retention g > 0 \<and> time_sub t (ent_Created entry) < gc_Retention g then w
               else case gc_liveRefs g w of
                      (refs, w) \<Rightarrow>
                        if k \<in> set refs then w
                        else snd (kv_Delete (assignmentKV (gc_pub g)) k (Some (ent_Revision entry)) w))"

fun sweep_keys :: "'w commit_gc \<Rightarrow> string list \<Rightarrow> time \<Rightarrow> string list \<Rightarrow> 'w \<Rightarrow> 'w" where
  "sweep_keys g live t [] w = w"
| "sweep_keys g live t (k # ks) w = sweep_keys g live t ks (sweep_key g live t k w)"

definition RunOnce :: "'w commit_gc \<Rightarrow> 'w \<Rightarrow> kv_error option \<times> 'w" where
  "RunOnce g w =
     (case computeLiveSet g w of
        (Inl err, w) \<Rightarrow> (Some err, w)
      | (Inr (live, ver), w) \<Rightarrow>
          (case gc_liveRefs g w of
             (refs, w) \<Rightarrow>
               (case kv_Keys (assignmentKV (gc_pub g)) w of
                  (Inl ErrNoKeysFound, w) \<Rightarrow> (None, w)
                | (Inl err, w) \<Rightarrow> (Some err, w)
                | (Inr keys, w) \<Rightarrow>
                    (case gc_now g w of
                       (t, w) \<Rightarrow> (None, sweep_keys g (live @ refs) t keys w)))))"

text \<open>The background loop. A started collector has its stop channel; the trigger channel holds at
  most one notification. A wake-up is the case that \<open>select\<close> has chosen.\<close>

record gc_life =
  gc_started :: bool
  gc_triggered :: bool

definition Start :: "gc_life \<Rightarrow> bool \<times> gc_life" where
  "Start l = (if gc_started l then (False, l) else (True, l\<lparr>gc_started := True\<rparr>))"

definition Stop :: "gc_life \<Rightarrow> gc_life" where
  "Stop l = l\<lparr>gc_started := False\<rparr>"

definition Trigger :: "gc_life \<Rightarrow> gc_life" where
  "Trigger l = l\<lparr>gc_triggered := True\<rparr>"

datatype gc_wake = WakeCtxDone | WakeStop | WakeTick | WakeTrigger

fun gc_loop :: "'w commit_gc \<Rightarrow> gc_wake list \<Rightarrow> 'w \<Rightarrow> 'w" where
  "gc_loop g [] w = w"
| "gc_loop g (x # xs) w =
     (case x of
        WakeCtxDone \<Rightarrow> w
      | WakeStop \<Rightarrow> w
      | WakeTick \<Rightarrow> gc_loop g xs (snd (RunOnce g w))
      | WakeTrigger \<Rightarrow> gc_loop g xs (snd (RunOnce g w)))"

section \<open>Safety\<close>

definition gc_laws :: "'w commit_gc \<Rightarrow> ('w \<Rightarrow> asg_value bucket) \<Rightarrow> ('w \<Rightarrow> 'w \<Rightarrow> bool) \<Rightarrow> bool" where
  "gc_laws g view env \<longleftrightarrow> kv_laws (assignmentKV (gc_pub g)) view env \<and>
     (\<forall>w. env w (snd (gc_liveRefs g w))) \<and> (\<forall>w. env w (snd (gc_now g w)))"

text \<open>A deletion of the collector: a payload key outside the live set, whose entry is older than
  the retention.\<close>

definition gc_delete :: "'w commit_gc \<Rightarrow> string list \<Rightarrow> time \<Rightarrow> asg_value bucket \<Rightarrow> asg_value bucket \<Rightarrow> bool" where
  "gc_delete g live t b b' \<longleftrightarrow>
     (\<exists>k e n. eff_del k b n b' \<and> has_prefix k (payload_prefix g) \<and> k \<notin> set live \<and> bk_entries b k = Some e \<and>
        (gc_Retention g > 0 \<longrightarrow> gc_Retention g \<le> time_sub t (ent_Created e)))"

lemma gc_env_get: "gc_laws g view env \<Longrightarrow> kv_Get (assignmentKV (gc_pub g)) k w = (r, w') \<Longrightarrow> evo view env own w w'"
  by (auto simp: gc_laws_def intro: kv_get_evo)

lemma gc_env_refs: "gc_laws g view env \<Longrightarrow> gc_liveRefs g w = (r, w') \<Longrightarrow> env w w'"
  by (metis gc_laws_def snd_conv)

lemma sweep_key_evo:
  assumes L: "gc_laws g view env" and wf: "bucket_wf (view w)"
  shows "evo view env (gc_delete g live t) w (sweep_key g live t k w)"
proof (cases "has_prefix k (payload_prefix g) \<and> k \<notin> set live")
  case True
  have kl: "kv_laws (assignmentKV (gc_pub g)) view env" using L by (simp add: gc_laws_def)
  obtain x w1 where 1: "kv_Get (assignmentKV (gc_pub g)) k w = (x, w1)" by fastforce
  obtain refs w2 where 2: "gc_liveRefs g w1 = (refs, w2)" by fastforce
  have e1: "evo view env (gc_delete g live t) w w1" by (rule gc_env_get[OF L 1])
  have e12: "env w1 w2" by (rule gc_env_refs[OF L 2])
  have e2: "evo view env (gc_delete g live t) w w2" by (rule evo.evo_env[OF e1]) (rule e12)
  show ?thesis
  proof (cases x)
    case (Inr e)
    obtain d w3 where del: "kv_Delete (assignmentKV (gc_pub g)) k (Some (ent_Revision e)) w2 = (d, w3)" by fastforce
    have sk: "sweep_key g live t k w = (if gc_Retention g > 0 \<and> time_sub t (ent_Created e) < gc_Retention g then w1
        else if k \<in> set refs then w2 else w3)"
      using True 1 2 Inr del by (simp add: sweep_key_def)
    consider "sweep_key g live t k w = w1" | "sweep_key g live t k w = w2"
      | "sweep_key g live t k w = w3" "gc_Retention g > 0 \<longrightarrow> gc_Retention g \<le> time_sub t (ent_Created e)"
      using sk by (auto split: if_splits)
    then show ?thesis
    proof cases
      case 3
      obtain y where y: "env w y" "bk_entries (view y) k = Some e" "env y w1"
        using kv_get_ok[OF kl 1] Inr by (auto simp: get_resp_def)
      obtain u v where u: "env w2 u" "del_resp (\<lambda>b. Some (ent_Revision e) = None \<or> rev_at b k = Some (ent_Revision e)) (eff_del k) (view u) d (view v)" "env v w3"
        using kv_delete_ok[OF kl del] by blast
      have wfy: "bucket_wf (view y)" using kv_env_wf[OF kl y(1) wf] by blast
      have "env y u" using kv_env_trans[OF kl] y(3) e12 u(1) by meson
      then have ev: "evolves (view y) (view u)" using kv_env_wf[OF kl _ wfy] by blast
      have own: "gc_delete g live t (view u) (view v)" if "rev_at (view u) k = Some (ent_Revision e)" "eff_del k (view u) n (view v)" for n
        using same_revision[OF y(2) ev wfy that(1)] that(2) True 3(2) unfolding gc_delete_def by blast
      have "evo view env (gc_delete g live t) w u" by (rule evo.evo_env[OF e2]) (rule u(1))
      moreover have "view v = view u \<or> gc_delete g live t (view u) (view v)"
        using u(2) own by (auto simp: del_resp_def split: option.splits kv_error.splits)
      ultimately have "evo view env (gc_delete g live t) w v" by (rule evo_same_or)
      then show ?thesis unfolding 3(1) by (rule evo.evo_env) (rule u(3))
    qed (use e1 e2 in simp_all)
  qed (use True 1 e1 in \<open>simp add: sweep_key_def\<close>)
qed (auto simp: sweep_key_def)

lemma gc_delete_touches: "gc_delete g live t b b' \<Longrightarrow> touches (\<lambda>_. True) b b'"
  by (auto simp: gc_delete_def elim: touches_mono dest!: eff_del_touches)

lemma sweep_keys_evo: "gc_laws g view env \<Longrightarrow> bucket_wf (view w) \<Longrightarrow>
    evo view env (gc_delete g live t) w (sweep_keys g live t ks w)"
proof (induction ks arbitrary: w)
  case (Cons k ks)
  note e = sweep_key_evo[OF Cons.prems, of live t k]
  have "bucket_wf (view (sweep_key g live t k w))"
    using evo_wf[OF e Cons.prems(2) _ gc_delete_touches[of g live t], of "assignmentKV (gc_pub g)"] Cons.prems(1)
    by (simp add: gc_laws_def)
  then show ?case using Cons.IH[OF Cons.prems(1)] e by (auto intro: evo_trans)
qed simp

lemma live_logs_props: "gc_laws g view env \<Longrightarrow> live_logs g n v live w = (live', w') \<Longrightarrow>
    evo view env own w w' \<and> set live \<subseteq> set live'"
proof (induction n arbitrary: v live w)
  case (Suc n)
  obtain x w1 where 1: "kv_Get (assignmentKV (gc_pub g)) (log_key (gc_pub g) v) w = (x, w1)" by fastforce
  have e: "evo view env own w w1" by (rule gc_env_get[OF Suc.prems(1) 1])
  consider "v \<le> 0" | l where "live_logs g n (v - 1) l w1 = (live', w')" "set live \<subseteq> set l"
    using Suc.prems(2) 1 by (auto split: if_splits sum.splits option.splits)
  then show ?case
  proof cases
    case (2 l)
    then show ?thesis using Suc.IH[OF Suc.prems(1) 2(1)] evo_trans[OF e, of w'] by auto
  qed (use Suc.prems(2) in auto)
qed auto

text \<open>The live set contains the payloads of the commit that was live when it was computed.\<close>

lemma compute_live_props:
  assumes L: "gc_laws g view env" and c: "computeLiveSet g w = (r, w')"
  shows "evo view env own w w' \<and>
    (\<forall>live v. r = Inr (live, v) \<longrightarrow>
      (\<exists>w1. evo view env own w w1 \<and> evo view env own w1 w' \<and>
        (\<forall>e c. bk_entries (view w1) (commit_key (gc_pub g)) = Some e \<longrightarrow> unmarshal_commit (ent_Value e) = Some c \<longrightarrow>
           set (commit_refs c) \<subseteq> set live)))"
proof -
  have kl: "kv_laws (assignmentKV (gc_pub g)) view env" using L by (simp add: gc_laws_def)
  obtain x w1 where 1: "kv_Get (assignmentKV (gc_pub g)) (commit_key (gc_pub g)) w = (x, w1)" by fastforce
  obtain y where y: "env w y" "get_resp (commit_key (gc_pub g)) (view y) x" "env y w1" using kv_get_ok[OF kl 1] by blast
  have ey: "evo view env own w y" "evo view env own y w1" by (rule evo_env1[of env], rule y)+
  consider (err) "isl r" "w' = w1"
    | (live) l0 l v where "r = Inr (l, v)" "live_logs g (nat (gc_KeepCommits g)) v l0 w1 = (l, w')"
        "\<forall>e c. bk_entries (view y) (commit_key (gc_pub g)) = Some e \<longrightarrow> unmarshal_commit (ent_Value e) = Some c \<longrightarrow> set (commit_refs c) \<subseteq> set l0"
    using c 1 y(2) by (auto simp: computeLiveSet_def Let_def get_resp_def split: sum.splits kv_error.splits option.splits prod.splits)
  then show ?thesis
  proof cases
    case err
    then show ?thesis using evo_trans[OF ey] by (cases r) auto
  next
    case live
    note ll = live_logs_props[OF L live(2), of own]
    have "evo view env own y w'" by (rule evo_trans[OF ey(2) conjunct1[OF ll]])
    then show ?thesis using live(1,3) ll ey(1) evo_trans[OF ey(1), of w'] by blast
  qed
qed

lemma run_once_cases:
  assumes L: "gc_laws g view env" and wf: "bucket_wf (view w)" and r: "RunOnce g w = (r, w')"
  obtains (quiet) "\<And>own. evo view env own w w'"
  | (sweep) live refs ver t w1 w2 where "computeLiveSet g w = (Inr (live, ver), w1)" "gc_liveRefs g w1 = (refs, w2)"
      "evo view env (gc_delete g (live @ refs) t) w2 w'"
proof -
  have kl: "kv_laws (assignmentKV (gc_pub g)) view env" using L by (simp add: gc_laws_def)
  obtain x w1 where 1: "computeLiveSet g w = (x, w1)" by fastforce
  obtain refs w2 where 2: "gc_liveRefs g w1 = (refs, w2)" by fastforce
  obtain ks w3 where 3: "kv_Keys (assignmentKV (gc_pub g)) w2 = (ks, w3)" by fastforce
  obtain t w4 where 4: "gc_now g w3 = (t, w4)" by fastforce
  have e1: "evo view env own w w1" for own using compute_live_props[OF L 1] by blast
  have e2: "evo view env own w w2" for own by (rule evo.evo_env[OF e1]) (rule gc_env_refs[OF L 2])
  have n23: "env w2 w3" by (rule kv_keys_env[OF kl 3])
  have e3: "evo view env own w w3" for own by (rule evo.evo_env[OF e2]) (rule n23)
  have n34: "env w3 w4" using L 4 by (metis gc_laws_def snd_conv)
  have e24: "evo view env own w2 w4" for own by (rule evo.evo_env[OF evo_env1[of env, OF n23]]) (rule n34)
  have "bucket_wf (view w4)"
    using evo_wf[OF evo_trans[OF e2 e24] wf kl, of "\<lambda>_ _. False"] by blast
  then have sw: "evo view env (gc_delete g l t) w2 (sweep_keys g l t k w4)" for l k
    using evo_trans[OF e24 sweep_keys_evo[OF L]] by blast
  consider "w' = w1" | "w' = w3" | live ver k where "x = Inr (live, ver)" "ks = Inr k" "w' = sweep_keys g (live @ refs) t k w4"
    using r 1 2 3 4 by (auto simp: RunOnce_def split: sum.splits prod.splits kv_error.splits)
  then show thesis
  proof cases
    case 3
    then show thesis using sweep[OF _ 2] 1 sw by blast
  qed (use e1 e3 quiet in blast)+
qed


text \<open>When the live commit cannot be read, for a reason other than its absence, the sweep
  reports the error and deletes nothing.\<close>

lemma gc_aborts_on_unreadable_commit:
  assumes "gc_laws g view env" "kv_Get (assignmentKV (gc_pub g)) (commit_key (gc_pub g)) w = (Inl err, w')" "err \<noteq> ErrKeyNotFound"
  shows "RunOnce g w = (Some err, w') \<and> env w w'"
proof -
  have "computeLiveSet g w = (Inl err, w')"
    using assms(2,3) by (auto simp: computeLiveSet_def Let_def split: kv_error.splits)
  moreover have "env w w'" using assms(1,2) kv_get_env by (auto simp: gc_laws_def)
  ultimately show ?thesis by (simp add: RunOnce_def)
qed

section \<open>An example\<close>

text \<open>A bucket after the example publish of \<open>Publisher_Safety\<close>, with an orphan, two days later.\<close>

definition ex_gc_world :: "asg_value mem_world" where
  "ex_gc_world = (\<lparr>bk_last = 9, bk_entries = (\<lambda>_. None)(''a._payload.old'' \<mapsto> \<lparr>ent_Value = VRaw [], ent_Revision = 4, ent_Created = 0\<rparr>)\<rparr>,
     2 * DefaultPayloadGCRetention)"

definition ex_gc :: "asg_value mem_world commit_gc" where
  "ex_gc = the (NewCommitGC (\<lambda>w. (snd w, w)) (\<lambda>w. ([], w))
     \<lparr>gcc_Publisher = Some (ex_cfg\<lparr>assignmentKV := mem_kv [''a._payload.old'']\<rparr>), gcc_LiveRefsProvider = None, gcc_Interval = 0,
      gcc_Retention = 0, gcc_KeepCommits = 0, gcc_Now = None\<rparr>)"

lemma ex_gc_laws: "gc_laws ex_gc fst (=)"
  by (simp add: gc_laws_def ex_gc_def NewCommitGC_def mem_kv_laws)

lemma ex_gc_wf: "bucket_wf (fst ex_gc_world)"
  by (auto simp: bucket_wf_def ex_gc_world_def split: if_splits)


end
