(* ===== verification/Claims.thy ===== *)
theory Claims
  imports KV Go_Float
begin

text \<open>
  Ownership claims of partitions, \<^verbatim>\<open>internal/assignment/handoff/claims.go\<close>, and the store of
  claims over the key-value store, \<^verbatim>\<open>kv_store.go\<close>, whose write is conditioned on the epoch of
  the claim. The contract of the store is the locale \<open>claim_store_laws\<close>; the NATS store satisfies
  it for every key-value store with the documented laws.
\<close>

section \<open>Claims\<close>

type_synonym ClaimState = string

definition ClaimStateStable :: ClaimState where "ClaimStateStable = ''stable''"
definition ClaimStatePrepare :: ClaimState where "ClaimStatePrepare = ''prepare''"
definition ClaimStateCommit :: ClaimState where "ClaimStateCommit = ''commit''"
definition ClaimStateAbort :: ClaimState where "ClaimStateAbort = ''abort''"
definition ClaimStateUnknown :: ClaimState where "ClaimStateUnknown = ''unknown''"

lemmas claim_states = ClaimStateStable_def ClaimStatePrepare_def ClaimStateCommit_def ClaimStateAbort_def
  ClaimStateUnknown_def

record claim =
  PartitionID :: string
  Owner :: string
  PendingOwner :: string
  State :: ClaimState
  Epoch :: i64
  LastUpdated :: time
  TTLSeconds :: i64
  ConflictCount :: i64

definition zero_claim :: claim where
  "zero_claim = \<lparr>PartitionID = [], Owner = [], PendingOwner = [], State = [], Epoch = 0, LastUpdated = 0,
     TTLSeconds = 0, ConflictCount = 0\<rparr>"

definition NewInitialClaim :: "string \<Rightarrow> string \<Rightarrow> time \<Rightarrow> duration \<Rightarrow> claim" where
  "NewInitialClaim partitionID owner t ttl =
     \<lparr>PartitionID = partitionID, Owner = owner, PendingOwner = [], State = ClaimStateStable, Epoch = 1,
      LastUpdated = t, TTLSeconds = f64_to_int (duration_Seconds ttl), ConflictCount = 0\<rparr>"

text \<open>What the bucket holds: the JSON of a claim, or bytes that are none.\<close>

datatype claim_value = VClaim claim | VBytes bytes

definition Marshal :: "claim \<Rightarrow> claim_value" where
  "Marshal c = VClaim c"

definition unmarshal_claim :: "claim_value \<Rightarrow> claim option" where
  "unmarshal_claim v = (case v of VClaim c \<Rightarrow> Some c | VBytes b \<Rightarrow> None)"

definition UnmarshalClaim :: "claim_value \<Rightarrow> claim option" where
  "UnmarshalClaim v =
     (case unmarshal_claim v of
        None \<Rightarrow> None
      | Some c \<Rightarrow> Some (if State c = [] then c\<lparr>State := ClaimStateUnknown\<rparr> else c))"

definition NextPrepare :: "claim \<Rightarrow> string \<Rightarrow> time \<Rightarrow> claim" where
  "NextPrepare c pendingOwner t =
     c\<lparr>PendingOwner := pendingOwner, State := ClaimStatePrepare, Epoch := wrap64 (Epoch c + 1), LastUpdated := t\<rparr>"

definition NextCommit :: "claim \<Rightarrow> time \<Rightarrow> claim" where
  "NextCommit c t =
     (let c = (if PendingOwner c \<noteq> [] then c\<lparr>Owner := PendingOwner c, PendingOwner := []\<rparr> else c)
      in c\<lparr>State := ClaimStateCommit, Epoch := wrap64 (Epoch c + 1), LastUpdated := t\<rparr>)"

definition NextStable :: "claim \<Rightarrow> time \<Rightarrow> claim" where
  "NextStable c t = c\<lparr>State := ClaimStateStable, Epoch := wrap64 (Epoch c + 1), LastUpdated := t\<rparr>"

definition IsExpired :: "claim \<Rightarrow> time \<Rightarrow> bool" where
  "IsExpired c t =
     (if TTLSeconds c \<le> 0 then False else t > LastUpdated c + wrap64 (TTLSeconds c * 1000000000))"

lemma unmarshal_Marshal [simp]: "unmarshal_claim (Marshal c) = Some c"
  by (simp add: unmarshal_claim_def Marshal_def)

section \<open>The interface of the store\<close>

datatype store_error = StoreGet json_error | EpochMismatch i64 | EpochConflict i64 i64 | StoreKV kv_error

record kv_stream_pos =
  pos_Created :: time
  pos_LastSeq :: u64
  pos_Msgs :: u64
  pos_MaxAge :: duration
  pos_AllowMsgTTL :: bool
  pos_SubjectDeleteMarkerTTL :: duration

definition Same :: "kv_stream_pos \<Rightarrow> kv_stream_pos \<Rightarrow> bool" where
  "Same p q \<longleftrightarrow> pos_Created p = pos_Created q \<and> pos_LastSeq p = pos_LastSeq q \<and> pos_Msgs p = pos_Msgs q"

definition UnsafeConfig :: "kv_stream_pos \<Rightarrow> bool" where
  "UnsafeConfig p \<longleftrightarrow> pos_MaxAge p \<noteq> 0 \<or> pos_AllowMsgTTL p \<or> pos_SubjectDeleteMarkerTTL p \<noteq> 0"

datatype probe_error = ErrNoProbeHandle | ErrProbe string

text \<open>A store without the capability to probe the position of its stream has \<open>cs_BucketPos = None\<close>.\<close>

record 'w claim_store =
  cs_Get :: "string \<Rightarrow> 'w \<Rightarrow> (store_error + claim \<times> nat) \<times> 'w"
  cs_PutIfEpoch :: "string \<Rightarrow> i64 \<Rightarrow> claim \<Rightarrow> 'w \<Rightarrow> (store_error + nat) \<times> 'w"
  cs_ListKeys :: "'w \<Rightarrow> (kv_error + string list) \<times> 'w"
  cs_Delete :: "string \<Rightarrow> nat \<Rightarrow> 'w \<Rightarrow> kv_error option \<times> 'w"
  cs_BucketPos :: "('w \<Rightarrow> (probe_error + kv_stream_pos) \<times> 'w) option"

type_synonym claim_map = "string \<Rightarrow> (claim \<times> nat) option"

text \<open>The effects: a write needs the epoch of the claim it replaces (0 for none), a deletion the
  revision of the claim.\<close>

definition put_effect :: "string \<Rightarrow> i64 \<Rightarrow> claim \<Rightarrow> nat \<Rightarrow> claim_map \<Rightarrow> claim_map \<Rightarrow> bool" where
  "put_effect pid epoch c n m m' \<longleftrightarrow> m' = m(pid \<mapsto> (c, n)) \<and> 0 < n \<and>
     (case m pid of None \<Rightarrow> epoch = 0 | Some (c0, _) \<Rightarrow> Epoch c0 = epoch)"

definition delete_effect :: "string \<Rightarrow> nat \<Rightarrow> claim_map \<Rightarrow> claim_map \<Rightarrow> bool" where
  "delete_effect pid n m m' \<longleftrightarrow> m' = m(pid := None) \<and> (\<forall>c i. m pid = Some (c, i) \<longrightarrow> i = n)"

locale claim_store_laws =
  fixes S :: "'w claim_store" and claims :: "'w \<Rightarrow> claim_map" and env :: "'w \<Rightarrow> 'w \<Rightarrow> bool" and ok :: "'w \<Rightarrow> bool"
  assumes env_refl: "ok w \<Longrightarrow> env w w"
    and env_trans: "ok w \<Longrightarrow> env w w' \<Longrightarrow> env w' w'' \<Longrightarrow> env w w''"
    and env_ok: "ok w \<Longrightarrow> env w w' \<Longrightarrow> ok w'"
    and env_rev: "ok w \<Longrightarrow> env w w' \<Longrightarrow> claims w pid = Some (c, n) \<Longrightarrow> claims w' pid = Some (c', n) \<Longrightarrow> c' = c"
    and get_law: "ok w \<Longrightarrow> cs_Get S pid w = (r, w') \<Longrightarrow> \<exists>w1. env w w1 \<and> env w1 w' \<and>
      (\<forall>c n. r = Inr (c, n) \<longrightarrow> claims w1 pid = (if n = 0 then None else Some (c, n)))"
    and put_law: "ok w \<Longrightarrow> cs_PutIfEpoch S pid epoch c w = (pr, w') \<Longrightarrow> \<exists>w1 w2. env w w1 \<and> ok w2 \<and> env w2 w' \<and>
      (claims w2 = claims w1 \<and> isl pr \<or>
       (\<exists>n. put_effect pid epoch c n (claims w1) (claims w2) \<and> (\<forall>i. pr = Inr i \<longrightarrow> i = n)))"
    and list_law: "ok w \<Longrightarrow> cs_ListKeys S w = (ks, w') \<Longrightarrow> env w w'"
    and delete_law: "ok w \<Longrightarrow> cs_Delete S pid n w = (e, w') \<Longrightarrow> \<exists>w1 w2. env w w1 \<and> ok w2 \<and> env w2 w' \<and>
      (claims w2 = claims w1 \<and> e \<noteq> None \<or> delete_effect pid n (claims w1) (claims w2))"

section \<open>The NATS store\<close>

definition build_prefix :: "string \<Rightarrow> string" where
  "build_prefix p = (if p \<noteq> [] \<and> last p \<noteq> CHR ''/'' then p @ ''/'' else p)"

definition nats_Get :: "(claim_value, 'w) kv \<Rightarrow> string \<Rightarrow> string \<Rightarrow> 'w \<Rightarrow> (store_error + claim \<times> nat) \<times> 'w" where
  "nats_Get K pref partitionID w =
     (case GetJSON K unmarshal_claim (pref @ partitionID) w of
        (Inl (err, _), w) \<Rightarrow> (Inl (StoreGet err), w)
      | (Inr None, w) \<Rightarrow> (Inr (zero_claim, 0), w)
      | (Inr (Some (cl, n)), w) \<Rightarrow> (Inr (cl, n), w))"

definition nats_PutIfEpoch ::
  "(claim_value, 'w) kv \<Rightarrow> string \<Rightarrow> string \<Rightarrow> i64 \<Rightarrow> claim \<Rightarrow> 'w \<Rightarrow> (store_error + nat) \<times> 'w" where
  "nats_PutIfEpoch K pref partitionID expectedEpoch next w =
     (case GetJSON K unmarshal_claim (pref @ partitionID) w of
        (Inl (err, _), w) \<Rightarrow> (Inl (StoreGet err), w)
      | (Inr None, w) \<Rightarrow>
          if expectedEpoch \<noteq> 0 then (Inl (EpochMismatch expectedEpoch), w)
          else (case kv_Create K (pref @ partitionID) (Marshal next) w of
                  (Inl perr, w) \<Rightarrow> (Inl (StoreKV perr), w)
                | (Inr n, w) \<Rightarrow> (Inr n, w))
      | (Inr (Some (cl, n)), w) \<Rightarrow>
          if Epoch cl \<noteq> expectedEpoch then (Inl (EpochConflict (Epoch cl) expectedEpoch), w)
          else (case kv_Update K (pref @ partitionID) (Marshal next) n w of
                  (Inl err, w) \<Rightarrow> (Inl (StoreKV err), w)
                | (Inr n, w) \<Rightarrow> (Inr n, w)))"

definition nats_ListKeys :: "(claim_value, 'w) kv \<Rightarrow> string \<Rightarrow> 'w \<Rightarrow> (kv_error + string list) \<times> 'w" where
  "nats_ListKeys K pref w = ListKeys K pref True w"

definition nats_Delete :: "(claim_value, 'w) kv \<Rightarrow> string \<Rightarrow> string \<Rightarrow> nat \<Rightarrow> 'w \<Rightarrow> kv_error option \<times> 'w" where
  "nats_Delete K pref partitionID revision w = kv_Delete K (pref @ partitionID) (Some revision) w"

text \<open>\<open>probe\<close> is the answer of \<open>ProbeKVStreamPos\<close> on the dedicated handle, if there is one.\<close>

definition nats_BucketPos ::
  "('w \<Rightarrow> (probe_error + kv_stream_pos) \<times> 'w) option \<Rightarrow> 'w \<Rightarrow> (probe_error + kv_stream_pos) \<times> 'w" where
  "nats_BucketPos probe w = (case probe of None \<Rightarrow> (Inl ErrNoProbeHandle, w) | Some f \<Rightarrow> f w)"

definition NewNATSClaimStoreWithProbe ::
  "(claim_value, 'w) kv \<Rightarrow> ('w \<Rightarrow> (probe_error + kv_stream_pos) \<times> 'w) option \<Rightarrow> string \<Rightarrow> 'w claim_store" where
  "NewNATSClaimStoreWithProbe K probe prefix =
     (let pref = build_prefix prefix
      in \<lparr>cs_Get = nats_Get K pref, cs_PutIfEpoch = nats_PutIfEpoch K pref, cs_ListKeys = nats_ListKeys K pref,
          cs_Delete = nats_Delete K pref, cs_BucketPos = Some (nats_BucketPos probe)\<rparr>)"

definition NewNATSClaimStore :: "(claim_value, 'w) kv \<Rightarrow> string \<Rightarrow> 'w claim_store" where
  "NewNATSClaimStore K prefix = NewNATSClaimStoreWithProbe K None prefix"

text \<open>The claims that a bucket holds under a prefix.\<close>

definition bucket_claims :: "string \<Rightarrow> claim_value bucket \<Rightarrow> claim_map" where
  "bucket_claims pref b pid =
     (case bk_entries b (pref @ pid) of
        None \<Rightarrow> None
      | Some e \<Rightarrow> map_option (\<lambda>c. (c, ent_Revision e)) (unmarshal_claim (ent_Value e)))"

definition nats_ok :: "(claim_value, 'w) kv \<Rightarrow> ('w \<Rightarrow> claim_value bucket) \<Rightarrow> ('w \<Rightarrow> 'w \<Rightarrow> bool) \<Rightarrow> 'w \<Rightarrow> bool" where
  "nats_ok K view env w \<longleftrightarrow> kv_laws K view env \<and> bucket_wf (view w)"

lemma bucket_claims_rev:
  assumes "evolves b b'" "bucket_wf b" "bucket_claims p b pid = Some (c, n)" "bucket_claims p b' pid = Some (c', n)"
  shows "c' = c"
proof -
  obtain e e' where "bk_entries b (p @ pid) = Some e" "bk_entries b' (p @ pid) = Some e'"
    "unmarshal_claim (ent_Value e) = Some c" "unmarshal_claim (ent_Value e') = Some c'" "ent_Revision e = n" "ent_Revision e' = n"
    using assms(3,4) by (auto simp: bucket_claims_def split: option.splits)
  moreover from this have "e' = e" using same_revision[OF _ assms(1,2)] by (fastforce simp: rev_at_def)
  ultimately show ?thesis by simp
qed

lemma claims_put: "eff_put (p @ pid) (VClaim c) b n b' \<Longrightarrow> bucket_claims p b' = (bucket_claims p b)(pid \<mapsto> (c, n))"
  by (auto simp: eff_put_def bucket_claims_def unmarshal_claim_def fun_eq_iff)

lemma claims_del: "eff_del (p @ pid) b n b' \<Longrightarrow> bucket_claims p b' = (bucket_claims p b)(pid := None)"
  by (auto simp: eff_del_def bucket_claims_def fun_eq_iff)

lemma getJSON_claim:
  assumes K: "kv_laws K view env" and wf: "bucket_wf (view w)" and g: "GetJSON K unmarshal_claim (p @ pid) w = (r, w')"
  shows "\<exists>w1. env w w1 \<and> env w1 w' \<and> (r = Inr None \<longrightarrow> bk_entries (view w1) (p @ pid) = None) \<and>
    (\<forall>c n. r = Inr (Some (c, n)) \<longrightarrow> 0 < n \<and> rev_at (view w1) (p @ pid) = Some n \<and> bucket_claims p (view w1) pid = Some (c, n))"
proof -
  obtain x where x: "kv_Get K (p @ pid) w = (x, w')"
    using g by (auto simp: GetJSON_def split: prod.splits sum.splits kv_error.splits option.splits)
  obtain w1 where w1: "env w w1" "get_resp (p @ pid) (view w1) x" "env w1 w'" using kv_get_ok[OF K x] by blast
  have wf1: "bucket_wf (view w1)" using kv_env_wf[OF K w1(1) wf] by blast
  have "r = Inr None \<longrightarrow> bk_entries (view w1) (p @ pid) = None"
    using g x w1(2) by (auto simp: GetJSON_def get_resp_def split: sum.splits kv_error.splits option.splits)
  moreover have "0 < n \<and> rev_at (view w1) (p @ pid) = Some n \<and> bucket_claims p (view w1) pid = Some (c, n)" if "r = Inr (Some (c, n))" for c n
    using that g x w1(2) wf1
    by (auto simp: GetJSON_def get_resp_def bucket_claims_def rev_at_def bucket_wf_def split: sum.splits kv_error.splits option.splits)
  ultimately show ?thesis using w1 by blast
qed

lemma write_claim:
  assumes "write_resp guard (eff_put (p @ pid) (VClaim c)) b r b'" "bucket_wf b"
    and "\<And>n. guard b \<Longrightarrow> case bucket_claims p b pid of None \<Rightarrow> epoch = 0 | Some (c0, _) \<Rightarrow> Epoch c0 = epoch"
  shows "bucket_claims p b' = bucket_claims p b \<and> isl r \<or>
    (\<exists>n. put_effect pid epoch c n (bucket_claims p b) (bucket_claims p b') \<and> (\<forall>i. r = Inr i \<longrightarrow> i = n))"
proof -
  have e: "put_effect pid epoch c n (bucket_claims p b) (bucket_claims p b')"
    if "guard b" "eff_put (p @ pid) (VClaim c) b n b'" for n
    using claims_put[OF that(2)] assms(3)[OF that(1)] that(2) by (auto simp: put_effect_def eff_put_def)
  show ?thesis
    using assms(1) e by (auto simp: write_resp_def split: sum.splits kv_error.splits) 
qed

lemma nats_put:
  assumes K: "kv_laws K view env" and wf: "bucket_wf (view w)" and p: "nats_PutIfEpoch K pref pid epoch c w = (r, w')"
  shows "\<exists>w1 w2. env w w1 \<and> bucket_wf (view w2) \<and> env w2 w' \<and>
    (bucket_claims pref (view w2) = bucket_claims pref (view w1) \<and> isl r \<or>
     (\<exists>n. put_effect pid epoch c n (bucket_claims pref (view w1)) (bucket_claims pref (view w2)) \<and> (\<forall>i. r = Inr i \<longrightarrow> i = n)))"
proof -
  obtain g w1 where g: "GetJSON K unmarshal_claim (pref @ pid) w = (g, w1)" by fastforce
  obtain x where x: "env w x" "env x w1" "g = Inr None \<longrightarrow> bk_entries (view x) (pref @ pid) = None"
    "\<forall>c n. g = Inr (Some (c, n)) \<longrightarrow> 0 < n \<and> rev_at (view x) (pref @ pid) = Some n \<and> bucket_claims pref (view x) pid = Some (c, n)"
    using getJSON_claim[OF K wf g] by blast
  have wfx: "bucket_wf (view x)" using kv_env_wf[OF K x(1) wf] by blast
  have e1: "env w w1" by (rule kv_env_trans[OF K x(1,2)])
  have wf1: "bucket_wf (view w1)" using kv_env_wf[OF K e1 wf] by blast
  have fail: ?thesis if "isl r" "w' = w1" using that e1 wf1 kv_env_refl[OF K] by blast
  have written: ?thesis
    if "env w1 y" "write_resp guard (eff_put (pref @ pid) (VClaim c)) (view y) q (view z)" "env z w'"
      "isl q = isl r" "\<forall>i. r = Inr i \<longrightarrow> q = Inr i"
      "\<And>n. guard (view y) \<Longrightarrow> case bucket_claims pref (view y) pid of None \<Rightarrow> epoch = 0 | Some (c0, _) \<Rightarrow> Epoch c0 = epoch"
    for y z q guard
  proof -
    have wy: "bucket_wf (view y)" using kv_env_wf[OF K that(1) wf1] by blast
    have "bucket_wf (view z)" using write_resp_touches[OF that(2)] wy by (simp add: touches_def)
    moreover have "env w y" by (rule kv_env_trans[OF K e1 that(1)])
    moreover have "bucket_claims pref (view z) = bucket_claims pref (view y) \<and> isl r \<or>
        (\<exists>n. put_effect pid epoch c n (bucket_claims pref (view y)) (bucket_claims pref (view z)) \<and> (\<forall>i. r = Inr i \<longrightarrow> i = n))"
      using write_claim[OF that(2) wy that(6)] that(4,5) by auto
    ultimately show ?thesis using that(3) by (intro exI[of _ y] exI[of _ z]) simp
  qed
  consider "isl r" "w' = w1"
    | q where "g = Inr None" "epoch = 0" "kv_Create K (pref @ pid) (VClaim c) w1 = (q, w')" "isl q = isl r" "\<forall>i. r = Inr i \<longrightarrow> q = Inr i"
    | c0 n q where "g = Inr (Some (c0, n))" "Epoch c0 = epoch" "kv_Update K (pref @ pid) (VClaim c) n w1 = (q, w')"
        "isl q = isl r" "\<forall>i. r = Inr i \<longrightarrow> q = Inr i"
    using p g by (auto simp: nats_PutIfEpoch_def Marshal_def split: sum.splits option.splits prod.splits if_splits)
  then show ?thesis
  proof cases
    case 2
    obtain y z where "env w1 y" "write_resp (\<lambda>b. rev_at b (pref @ pid) = None) (eff_put (pref @ pid) (VClaim c)) (view y) q (view z)" "env z w'"
      using kv_create_ok[OF K 2(3)] by blast
    then show ?thesis using written[of y] 2 by (auto simp: rev_at_def bucket_claims_def)
  next
    case 3
    obtain y z where y: "env w1 y" "write_resp (\<lambda>b. rev_at b (pref @ pid) = Some n) (eff_put (pref @ pid) (VClaim c)) (view y) q (view z)" "env z w'"
      using kv_update_ok[OF K 3(3)] by blast
    have xy: "evolves (view x) (view y)" using kv_env_wf[OF K kv_env_trans[OF K x(2) y(1)] wfx] by blast
    have "bucket_claims pref (view y) pid = Some (c0, n)" if "rev_at (view y) (pref @ pid) = Some n"
    proof -
      obtain e where e: "bk_entries (view x) (pref @ pid) = Some e" "ent_Revision e = n" using x(4) 3(1) by (auto simp: rev_at_def)
      then have "bk_entries (view y) (pref @ pid) = Some e" using same_revision[OF _ xy wfx] that by blast
      then show ?thesis using x(4) 3(1) e(1) by (auto simp: bucket_claims_def)
    qed
    then show ?thesis using written[OF y 3(4,5)] 3(2) by auto
  qed (use fail in blast)
qed

lemma nats_get:
  assumes "nats_ok K view env w" "nats_Get K pref pid w = (r, w')"
  shows "\<exists>w1. env w w1 \<and> env w1 w' \<and>
    (\<forall>c n. r = Inr (c, n) \<longrightarrow> bucket_claims pref (view w1) pid = (if n = 0 then None else Some (c, n)))"
proof -
  have K: "kv_laws K view env" and wf: "bucket_wf (view w)" using assms(1) by (auto simp: nats_ok_def)
  obtain g where g: "GetJSON K unmarshal_claim (pref @ pid) w = (g, w')" and
    r: "\<forall>c n. r = Inr (c, n) \<longrightarrow> g = Inr None \<and> n = 0 \<or> g = Inr (Some (c, n))"
    using assms(2) by (auto simp: nats_Get_def split: prod.splits sum.splits option.splits)
  show ?thesis using getJSON_claim[OF K wf g] r by (fastforce simp: bucket_claims_def)
qed

lemma nats_delete:
  assumes "nats_ok K view env w" "nats_Delete K pref pid n w = (e, w')"
  shows "\<exists>w1 w2. env w w1 \<and> nats_ok K view env w2 \<and> env w2 w' \<and>
    (bucket_claims pref (view w2) = bucket_claims pref (view w1) \<and> e \<noteq> None \<or>
     delete_effect pid n (bucket_claims pref (view w1)) (bucket_claims pref (view w2)))"
proof -
  have K: "kv_laws K view env" and wf: "bucket_wf (view w)" using assms(1) by (auto simp: nats_ok_def)
  obtain y z where y: "env w y" "env z w'"
    "del_resp (\<lambda>b. Some n = None \<or> rev_at b (pref @ pid) = Some n) (eff_del (pref @ pid)) (view y) e (view z)"
    using kv_delete_ok[OF K assms(2)[unfolded nats_Delete_def]] by blast
  have "bucket_wf (view y)" using kv_env_wf[OF K y(1) wf] by blast
  then have "bucket_wf (view z)" using del_resp_touches[OF y(3)] by (simp add: touches_def)
  moreover have "delete_effect pid n (bucket_claims pref (view y)) (bucket_claims pref (view z))"
    if "rev_at (view y) (pref @ pid) = Some n" "eff_del (pref @ pid) (view y) i (view z)" for i
    using claims_del[OF that(2)] that(1) by (auto simp: delete_effect_def bucket_claims_def rev_at_def split: option.splits)
  then have "bucket_claims pref (view z) = bucket_claims pref (view y) \<and> e \<noteq> None \<or>
      delete_effect pid n (bucket_claims pref (view y)) (bucket_claims pref (view z))"
    using y(3) by (auto simp: del_resp_def split: option.splits kv_error.splits)
  ultimately show ?thesis using y(1,2) K by (intro exI[of _ y] exI[of _ z]) (simp add: nats_ok_def)
qed

lemma nats_ops:
  "cs_Get (NewNATSClaimStoreWithProbe K probe prefix) = nats_Get K (build_prefix prefix)"
  "cs_PutIfEpoch (NewNATSClaimStoreWithProbe K probe prefix) = nats_PutIfEpoch K (build_prefix prefix)"
  "cs_ListKeys (NewNATSClaimStoreWithProbe K probe prefix) = nats_ListKeys K (build_prefix prefix)"
  "cs_Delete (NewNATSClaimStoreWithProbe K probe prefix) = nats_Delete K (build_prefix prefix)"
  by (simp_all add: NewNATSClaimStoreWithProbe_def Let_def)

interpretation nats: claim_store_laws "NewNATSClaimStoreWithProbe K probe prefix"
  "\<lambda>w. bucket_claims (build_prefix prefix) (view w)" env "nats_ok K view env" for K probe prefix view env
proof (unfold_locales, goal_cases)
  case (1 w)
  then show ?case by (auto simp: nats_ok_def intro: kv_env_refl)
next
  case (2 w w' w'')
  then show ?case by (auto simp: nats_ok_def intro: kv_env_trans)
next
  case (3 w w')
  then show ?case using kv_env_wf[of K view env w w'] by (auto simp: nats_ok_def)
next
  case (4 w w' pid c n c')
  then show ?case using bucket_claims_rev kv_env_wf[of K view env w w'] by (auto simp: nats_ok_def)
next
  case (5 w pid r w')
  show ?case by (rule nats_get[OF 5(1) 5(2)[unfolded nats_ops]])
next
  case (6 w pid epoch c pr w')
  have "kv_laws K view env" "bucket_wf (view w)" using 6(1) by (auto simp: nats_ok_def)
  then show ?case using nats_put[OF _ _ 6(2)[unfolded nats_ops], of view env] unfolding nats_ok_def by blast
next
  case (7 w ks w')
  then show ?case using listKeys_env[of K view env] by (auto simp: nats_ops nats_ok_def nats_ListKeys_def)
next
  case (8 w pid n e w')
  show ?case by (rule nats_delete[OF 8(1) 8(2)[unfolded nats_ops]])
qed


definition ex_claims :: "claim_value mem_world" where
  "ex_claims = (\<lparr>bk_last = 0, bk_entries = \<lambda>_. None\<rparr>, 1000)"

definition ex_claim :: claim where
  "ex_claim = zero_claim\<lparr>PartitionID := ''p'', Owner := ''w1'', State := ClaimStateStable, Epoch := 1\<rparr>"


end
