(* ===== verification/Handoff.thy ===== *)
theory Handoff
  imports Claims Partition_Types
begin

text \<open>
  The handoff coordinators, \<^verbatim>\<open>internal/assignment/handoff\<close>: the two-phase coordinator
  (\<^verbatim>\<open>twophase.go\<close>) with its claim transitions, the phases of \<open>Apply\<close> and the sweep with scan
  gate and orphan reaping, the direct one (\<^verbatim>\<open>direct.go\<close>) and their construction
  (\<^verbatim>\<open>coordinator.go\<close>). Metrics, logging and test hooks are left out. The goroutines of a phase
  work on one claim each; the model runs them one after the other.
\<close>

section \<open>Configuration and state\<close>

datatype apply_error =
    ClaimGet store_error
  | ClaimRetries store_error
  | LimiterError
  | CtxError
  | GuardError string
  | UpdaterError string

text \<open>The collaborators: \<open>hc_wait\<close> waits for a duration and tells whether the context ended first,
  \<open>hc_backoff\<close> is the wait after the given attempt, \<open>hc_limiter\<close> the paced wait before a write.\<close>

record 'w handoff_cfg =
  hc_ConsumerUpdater :: "(string \<Rightarrow> partition list \<Rightarrow> 'w \<Rightarrow> string option \<times> 'w) option"
  hc_RemovalGuard :: "(string \<Rightarrow> assignment \<Rightarrow> assignment \<Rightarrow> 'w \<Rightarrow> string option \<times> 'w) option"
  hc_Now :: "'w \<Rightarrow> time \<times> 'w"
  hc_Store :: "'w claim_store option"
  hc_TTL :: duration
  hc_SweepInterval :: duration
  hc_MaxRetries :: i64
  hc_backoff :: "nat \<Rightarrow> 'w \<Rightarrow> bool \<times> 'w"
  hc_limiter :: "'w \<Rightarrow> bool \<times> 'w"
  hc_wait :: "duration \<Rightarrow> 'w \<Rightarrow> bool \<times> 'w"
  hc_DelayAfterPrepare :: duration
  hc_DelayBeforeStable :: duration
  hc_LivePartitions :: "('w \<Rightarrow> ((string \<Rightarrow> bool) \<times> bool) \<times> 'w) option"
  hc_OrphanGrace :: duration
  hc_SweepAuthority :: "('w \<Rightarrow> bool \<times> 'w) option"
  hc_SweepPhaseSeed :: u64

record orphan_clock =
  oc_since :: time
  oc_gen :: u64

record vouch_snapshot =
  vs_now :: time
  vs_gen :: u64

datatype sweep_origin = sweepOriginApply | sweepOriginTicker

text \<open>\<open>lastSweep = None\<close> is the zero time; \<open>prober\<close> tells whether the store's capability to probe
  is in use.\<close>

record coordinator =
  lastSweep :: "time option"
  started :: bool
  unvouchedGen :: u64
  backstopDue :: bool
  orphanAbsentSince :: "string \<rightharpoonup> orphan_clock"
  sweepCacheValid :: bool
  sweepCachePos :: kv_stream_pos
  sweepCache :: "(string, claim \<times> nat) gomap"
  sweepSkipsSinceFull :: int
  sweepMaxSkips :: int
  unsafeSeen :: bool
  prober :: bool

definition ScanGateMaxSkippedPasses :: int where "ScanGateMaxSkippedPasses = 19"

definition zero_pos :: kv_stream_pos where
  "zero_pos = \<lparr>pos_Created = 0, pos_LastSeq = 0, pos_Msgs = 0, pos_MaxAge = 0, pos_AllowMsgTTL = False,
     pos_SubjectDeleteMarkerTTL = 0\<rparr>"

definition new_coordinator :: "'w handoff_cfg \<Rightarrow> coordinator" where
  "new_coordinator cfg =
     \<lparr>lastSweep = None, started = False, unvouchedGen = 0, backstopDue = False, orphanAbsentSince = (\<lambda>_. None),
      sweepCacheValid = False, sweepCachePos = zero_pos, sweepCache = [], sweepSkipsSinceFull = 0,
      sweepMaxSkips = ScanGateMaxSkippedPasses, unsafeSeen = False,
      prober = (case hc_Store cfg of None \<Rightarrow> False | Some S \<Rightarrow> cs_BucketPos S \<noteq> None)\<rparr>"

datatype 'w handoff_coordinator = TwoPhase "'w handoff_cfg" coordinator | Direct "'w handoff_cfg"

text \<open>The configuration values for which \<open>New\<close> has defaults; the durations of the backoff are part
  of \<open>hc_backoff\<close>.\<close>

definition New :: "'w handoff_cfg \<Rightarrow> bool \<Rightarrow> 'w handoff_coordinator" where
  "New cfg enableTwoPhase =
     (let cfg = cfg\<lparr>hc_MaxRetries := (if hc_MaxRetries cfg \<le> 0 then 3 else hc_MaxRetries cfg),
            hc_SweepInterval := (if hc_SweepInterval cfg = 0 then 30 * 1000000000 else hc_SweepInterval cfg),
            hc_TTL := (if hc_Store cfg \<noteq> None \<and> hc_TTL cfg = 0 then 60 * 1000000000 else hc_TTL cfg)\<rparr>
      in if enableTwoPhase then TwoPhase cfg (new_coordinator cfg) else Direct cfg)"

section \<open>Claim transitions\<close>

text \<open>What each phase makes of the claim it reads; \<open>None\<close> is "no update".\<close>

definition prepare_transform :: "string \<Rightarrow> string \<Rightarrow> time \<Rightarrow> duration \<Rightarrow> claim option \<Rightarrow> claim option" where
  "prepare_transform pid workerID t ttl cur =
     (case cur of
        None \<Rightarrow> Some (NewInitialClaim pid workerID t ttl)
      | Some c \<Rightarrow>
          if Owner c \<noteq> workerID then Some (NextPrepare c workerID t)
          else if State c \<noteq> ClaimStateStable \<or> PendingOwner c \<noteq> []
          then Some (c\<lparr>PendingOwner := [], State := ClaimStateStable, Epoch := wrap64 (Epoch c + 1), LastUpdated := t\<rparr>)
          else None)"

definition commit_transform :: "string \<Rightarrow> time \<Rightarrow> claim option \<Rightarrow> claim option" where
  "commit_transform workerID t cur =
     (case cur of
        None \<Rightarrow> None
      | Some c \<Rightarrow>
          if Owner c = workerID \<and> State c = ClaimStateStable then None
          else if PendingOwner c = workerID \<or> Owner c \<noteq> workerID
          then Some (if State c \<noteq> ClaimStateCommit then NextCommit c t else c)
          else None)"

definition stabilize_transform :: "string \<Rightarrow> time \<Rightarrow> claim option \<Rightarrow> claim option" where
  "stabilize_transform workerID t cur =
     (case cur of
        None \<Rightarrow> None
      | Some c \<Rightarrow>
          if Owner c \<noteq> workerID then None
          else if State c \<noteq> ClaimStateCommit then None
          else Some (NextStable c t))"

definition sweepReconcile :: "claim option \<Rightarrow> time \<Rightarrow> claim option" where
  "sweepReconcile cur t =
     (case cur of
        None \<Rightarrow> None
      | Some c \<Rightarrow>
          if State c = ClaimStateStable \<or> State c = ClaimStateAbort then None
          else if State c = ClaimStateCommit \<and> PendingOwner c = [] then Some (NextStable c t)
          else if IsExpired c t then Some (c\<lparr>State := ClaimStateStable, PendingOwner := [], LastUpdated := t\<rparr>)
          else None)"

section \<open>Read, modify, write\<close>

text \<open>One attempt per round, \<open>left\<close> rounds are left after this one.\<close>

fun update_attempts ::
  "'w handoff_cfg \<Rightarrow> 'w claim_store \<Rightarrow> string \<Rightarrow> (claim option \<Rightarrow> claim option) \<Rightarrow> nat \<Rightarrow> nat \<Rightarrow> 'w \<Rightarrow> apply_error option \<times> 'w" where
  "update_attempts cfg S pid transform attempt left w =
     (case cs_Get S pid w of
        (Inl getErr, w) \<Rightarrow> (Some (ClaimGet getErr), w)
      | (Inr (cur, n), w) \<Rightarrow>
          (case transform (if n > 0 then Some cur else None) of
             None \<Rightarrow> (None, w)
           | Some next \<Rightarrow>
               (case hc_limiter cfg w of
                  (True, w) \<Rightarrow> (Some LimiterError, w)
                | (False, w) \<Rightarrow>
                    (case cs_PutIfEpoch S pid (if n = 0 then 0 else Epoch cur) next w of
                       (Inr _, w) \<Rightarrow> (None, w)
                     | (Inl casErr, w) \<Rightarrow>
                         (case left of
                            0 \<Rightarrow> (Some (ClaimRetries casErr), w)
                          | Suc left' \<Rightarrow>
                              if attempt = 0 then update_attempts cfg S pid transform (Suc attempt) left' w
                              else (case hc_backoff cfg attempt w of
                                      (True, w) \<Rightarrow> (Some CtxError, w)
                                    | (False, w) \<Rightarrow> update_attempts cfg S pid transform (Suc attempt) left' w))))))"

declare update_attempts.simps [simp del]

definition updateClaim ::
  "'w handoff_cfg \<Rightarrow> 'w claim_store \<Rightarrow> string \<Rightarrow> (claim option \<Rightarrow> claim option) \<Rightarrow> 'w \<Rightarrow> apply_error option \<times> 'w" where
  "updateClaim cfg S pid transform w = update_attempts cfg S pid transform 0 (nat (hc_MaxRetries cfg)) w"

text \<open>The update of every partition of a phase; the first error is returned.\<close>

fun update_all ::
  "'w handoff_cfg \<Rightarrow> 'w claim_store \<Rightarrow> (string \<Rightarrow> claim option \<Rightarrow> claim option) \<Rightarrow> partition list \<Rightarrow> 'w \<Rightarrow> apply_error option \<times> 'w" where
  "update_all cfg S transform [] w = (None, w)"
| "update_all cfg S transform (p # ps) w =
     (case updateClaim cfg S (SubjectKey p) (transform (SubjectKey p)) w of
        (r, w) \<Rightarrow> (case update_all cfg S transform ps w of
                      (r', w) \<Rightarrow> (case r of None \<Rightarrow> r' | Some e \<Rightarrow> Some e, w)))"

definition preparePhase ::
  "'w handoff_cfg \<Rightarrow> xxh3 \<Rightarrow> string \<Rightarrow> assignment \<Rightarrow> assignment \<Rightarrow> 'w \<Rightarrow> apply_error option \<times> 'w" where
  "preparePhase cfg X workerID previous next w =
     (case hc_Store cfg of
        None \<Rightarrow> (None, w)
      | Some S \<Rightarrow>
          (case hc_Now cfg w of
             (t, w) \<Rightarrow>
               let oldIndex = map (HashID X) (as_Partitions previous);
                   toPrepare = filter (\<lambda>p. HashID X p \<notin> set oldIndex) (as_Partitions next)
               in if toPrepare = [] then (None, w)
                  else update_all cfg S (\<lambda>pid. prepare_transform pid workerID t (hc_TTL cfg)) toPrepare w))"

definition commitPhase :: "'w handoff_cfg \<Rightarrow> string \<Rightarrow> assignment \<Rightarrow> 'w \<Rightarrow> apply_error option \<times> 'w" where
  "commitPhase cfg workerID next w =
     (case hc_Store cfg of
        None \<Rightarrow> (None, w)
      | Some S \<Rightarrow>
          (case hc_Now cfg w of
             (t, w) \<Rightarrow> update_all cfg S (\<lambda>_. commit_transform workerID t) (as_Partitions next) w))"

definition stabilizePhase :: "'w handoff_cfg \<Rightarrow> string \<Rightarrow> assignment \<Rightarrow> 'w \<Rightarrow> apply_error option \<times> 'w" where
  "stabilizePhase cfg workerID next w =
     (case hc_Store cfg of
        None \<Rightarrow> (None, w)
      | Some S \<Rightarrow>
          (case hc_Now cfg w of
             (t, w) \<Rightarrow> update_all cfg S (\<lambda>_. stabilize_transform workerID t) (as_Partitions next) w))"

section \<open>Orphans\<close>

definition resolveLiveSet ::
  "'w handoff_cfg \<Rightarrow> coordinator \<Rightarrow> 'w \<Rightarrow> ((string \<Rightarrow> bool) \<times> bool \<times> vouch_snapshot) \<times> coordinator \<times> 'w" where
  "resolveLiveSet cfg st w =
     (let none = ((\<lambda>_. False), False, \<lparr>vs_now = 0, vs_gen = 0\<rparr>)
      in if hc_OrphanGrace cfg \<le> 0 then (none, st, w)
         else case hc_LivePartitions cfg of
                None \<Rightarrow> (none, st, w)
              | Some f \<Rightarrow>
                  (case f w of
                     ((live, liveOK), w) \<Rightarrow>
                       if \<not> liveOK
                       then ((live, False, \<lparr>vs_now = 0, vs_gen = 0\<rparr>),
                             st\<lparr>orphanAbsentSince := (\<lambda>_. None), unvouchedGen := unvouchedGen st + 1\<rparr>, w)
                       else (case hc_Now cfg w of
                               (t, w) \<Rightarrow>
                                 ((live, True, \<lparr>vs_now = t, vs_gen = unvouchedGen st\<rparr>),
                                  st\<lparr>orphanAbsentSince := (\<lambda>pid. if live pid then None else orphanAbsentSince st pid)\<rparr>, w))))"

definition sampleAuthority :: "'w handoff_cfg \<Rightarrow> coordinator \<Rightarrow> 'w \<Rightarrow> bool \<times> coordinator \<times> 'w" where
  "sampleAuthority cfg st w =
     (case hc_SweepAuthority cfg of
        None \<Rightarrow> (True, st, w)
      | Some f \<Rightarrow>
          (case f w of
             (authorized, w) \<Rightarrow>
               (authorized, if \<not> authorized then st\<lparr>unvouchedGen := unvouchedGen st + 1\<rparr> else st, w)))"

definition maybeReapOrphan ::
  "'w handoff_cfg \<Rightarrow> 'w claim_store \<Rightarrow> string \<Rightarrow> claim \<Rightarrow> nat \<Rightarrow> (string \<Rightarrow> bool) \<Rightarrow> time \<Rightarrow> vouch_snapshot \<Rightarrow> coordinator \<Rightarrow>
     'w \<Rightarrow> coordinator \<times> 'w" where
  "maybeReapOrphan cfg S pid cur n live t vouch st w =
     (if live pid then (st\<lparr>orphanAbsentSince := (orphanAbsentSince st)(pid := None)\<rparr>, w)
      else if State cur \<noteq> ClaimStateStable \<or> PendingOwner cur \<noteq> [] then (st, w)
      else case orphanAbsentSince st pid of
             None \<Rightarrow> (st\<lparr>orphanAbsentSince := (orphanAbsentSince st)(pid \<mapsto> \<lparr>oc_since = vs_now vouch, oc_gen = vs_gen vouch\<rparr>)\<rparr>, w)
           | Some clock \<Rightarrow>
               if time_sub t (oc_since clock) < hc_OrphanGrace cfg then (st, w)
               else if oc_gen clock \<noteq> unvouchedGen st
               then (st\<lparr>orphanAbsentSince := (orphanAbsentSince st)(pid := None)\<rparr>, w)
               else (case cs_Delete S pid n w of
                       (None, w) \<Rightarrow> (st\<lparr>orphanAbsentSince := (orphanAbsentSince st)(pid := None)\<rparr>, w)
                     | (Some e, w) \<Rightarrow>
                         if e = ErrKeyExists \<or> e = ErrKeyNotFound then (st, w)
                         else (st\<lparr>unvouchedGen := unvouchedGen st + 1\<rparr>, w)))"

definition pruneOrphanCandidates :: "string list \<Rightarrow> coordinator \<Rightarrow> coordinator" where
  "pruneOrphanCandidates listed st =
     st\<lparr>orphanAbsentSince := (\<lambda>pid. if pid \<in> set listed then orphanAbsentSince st pid else None)\<rparr>"

section \<open>The sweep\<close>

definition sweepClaim ::
  "'w handoff_cfg \<Rightarrow> 'w claim_store \<Rightarrow> string \<Rightarrow> claim \<Rightarrow> nat \<Rightarrow> (string \<Rightarrow> bool) \<Rightarrow> bool \<Rightarrow> time \<Rightarrow> vouch_snapshot \<Rightarrow>
     coordinator \<Rightarrow> 'w \<Rightarrow> coordinator \<times> 'w" where
  "sweepClaim cfg S pid cur n live liveOK t vouch st w =
     (if sweepReconcile (Some cur) t \<noteq> None
      then (st, snd (updateClaim cfg S pid (\<lambda>c. sweepReconcile c t) w))
      else if liveOK then maybeReapOrphan cfg S pid cur n live t vouch st w
      else (st, w))"

text \<open>The walk of a full pass over the listed keys. The cache is built when \<open>latching\<close>; the second
  component of the result tells whether a read failed.\<close>

fun sweep_list ::
  "'w handoff_cfg \<Rightarrow> 'w claim_store \<Rightarrow> (string \<Rightarrow> bool) \<Rightarrow> bool \<Rightarrow> time \<Rightarrow> vouch_snapshot \<Rightarrow> string list \<Rightarrow>
     (string, claim \<times> nat) gomap \<Rightarrow> bool \<Rightarrow> coordinator \<Rightarrow> 'w \<Rightarrow> (string, claim \<times> nat) gomap \<times> bool \<times> coordinator \<times> 'w" where
  "sweep_list cfg S live liveOK t vouch [] cache getFailed st w = (cache, getFailed, st, w)"
| "sweep_list cfg S live liveOK t vouch (pid # ks) cache getFailed st w =
     (case cs_Get S pid w of
        (Inl _, w) \<Rightarrow> sweep_list cfg S live liveOK t vouch ks cache True st w
      | (Inr (cur, n), w) \<Rightarrow>
          if n = 0 then sweep_list cfg S live liveOK t vouch ks cache getFailed st w
          else (case sweepClaim cfg S pid cur n live liveOK t vouch st w of
                  (st, w) \<Rightarrow>
                    sweep_list cfg S live liveOK t vouch ks (AList.update pid (cur, n) cache) getFailed st w))"

definition latchCache :: "(string, claim \<times> nat) gomap \<Rightarrow> kv_stream_pos \<Rightarrow> coordinator \<Rightarrow> coordinator" where
  "latchCache cache pos st = st\<lparr>sweepCache := cache, sweepCachePos := pos, sweepCacheValid := True\<rparr>"

definition sweepPass ::
  "'w handoff_cfg \<Rightarrow> 'w claim_store \<Rightarrow> time \<Rightarrow> kv_stream_pos option \<Rightarrow> coordinator \<Rightarrow> 'w \<Rightarrow> coordinator \<times> 'w" where
  "sweepPass cfg S t latch st w =
     (case cs_ListKeys S w of
        (Inl _, w) \<Rightarrow> (if latch \<noteq> None then st\<lparr>sweepCacheValid := False\<rparr> else st, w)
      | (Inr [], w) \<Rightarrow> (case latch of None \<Rightarrow> st | Some pos \<Rightarrow> latchCache [] pos st, w)
      | (Inr ks, w) \<Rightarrow>
          (case resolveLiveSet cfg st w of
             ((live, liveOK, vouch), st, w) \<Rightarrow>
               (case sweep_list cfg S live liveOK t vouch ks [] False st w of
                  (cache, getFailed, st, w) \<Rightarrow>
                    let st = (if liveOK then pruneOrphanCandidates ks st else st)
                    in (case latch of
                          None \<Rightarrow> st
                        | Some pos \<Rightarrow> if getFailed then st\<lparr>sweepCacheValid := False\<rparr> else latchCache cache pos st,
                        w))))"

fun sweep_cached ::
  "'w handoff_cfg \<Rightarrow> 'w claim_store \<Rightarrow> (string \<Rightarrow> bool) \<Rightarrow> bool \<Rightarrow> time \<Rightarrow> vouch_snapshot \<Rightarrow> (string, claim \<times> nat) gomap \<Rightarrow>
     coordinator \<Rightarrow> 'w \<Rightarrow> coordinator \<times> 'w" where
  "sweep_cached cfg S live liveOK t vouch [] st w = (st, w)"
| "sweep_cached cfg S live liveOK t vouch ((pid, (cur, n)) # cs) st w =
     (case sweepClaim cfg S pid cur n live liveOK t vouch st w of
        (st, w) \<Rightarrow> sweep_cached cfg S live liveOK t vouch cs st w)"

definition sweepCachedPass :: "'w handoff_cfg \<Rightarrow> 'w claim_store \<Rightarrow> time \<Rightarrow> coordinator \<Rightarrow> 'w \<Rightarrow> coordinator \<times> 'w" where
  "sweepCachedPass cfg S t st w =
     (let st = st\<lparr>sweepSkipsSinceFull := sweepSkipsSinceFull st + 1\<rparr>
      in if sweepCache st = [] then (st, w)
         else case resolveLiveSet cfg st w of
                ((live, liveOK, vouch), st, w) \<Rightarrow>
                  (case sweep_cached cfg S live liveOK t vouch (sweepCache st) st w of
                     (st, w) \<Rightarrow>
                       (if liveOK then st\<lparr>orphanAbsentSince :=
                            (\<lambda>pid. if has_key (sweepCache st) pid then orphanAbsentSince st pid else None)\<rparr> else st,
                        w)))"

text \<open>The probe of the stream position; the third component tells whether it can be used.\<close>

definition Check :: "kv_stream_pos \<Rightarrow> coordinator \<Rightarrow> bool \<times> coordinator" where
  "Check pos st =
     (if UnsafeConfig pos then (False, st\<lparr>unsafeSeen := True\<rparr>) else (True, st\<lparr>unsafeSeen := False\<rparr>))"

definition sweepProbe ::
  "'w claim_store \<Rightarrow> coordinator \<Rightarrow> 'w \<Rightarrow> kv_stream_pos \<times> bool \<times> coordinator \<times> 'w" where
  "sweepProbe S st w =
     (case cs_BucketPos S of
        None \<Rightarrow> (zero_pos, False, st, w)
      | Some f \<Rightarrow>
          (case f w of
             (Inl err, w) \<Rightarrow>
               (zero_pos, False,
                st\<lparr>sweepCacheValid := False, prober := (if err = ErrNoProbeHandle then False else prober st)\<rparr>, w)
           | (Inr pos, w) \<Rightarrow>
               (case Check pos st of
                  (False, st) \<Rightarrow> (pos, False, st\<lparr>sweepCacheValid := False\<rparr>, w)
                | (True, st) \<Rightarrow> (pos, True, st, w))))"

definition sweepConfirmGap :: duration where
  "sweepConfirmGap = 2 * 1000000000"

text \<open>\<open>free\<close> is the outcome of \<open>sweepMu.TryLock\<close>.\<close>

definition maybeSweepClaims ::
  "'w handoff_cfg \<Rightarrow> sweep_origin \<Rightarrow> bool \<Rightarrow> coordinator \<Rightarrow> 'w \<Rightarrow> bool \<times> coordinator \<times> 'w" where
  "maybeSweepClaims cfg origin free st w =
     (case hc_Store cfg of
        None \<Rightarrow> (False, st, w)
      | Some S \<Rightarrow>
          if \<not> free then (False, st, w)
          else (case hc_Now cfg w of
             (t, w) \<Rightarrow>
               if hc_SweepInterval cfg > 0 \<and>
                  (case lastSweep st of None \<Rightarrow> False | Some l \<Rightarrow> time_sub t l < hc_SweepInterval cfg)
               then (False, st, w)
               else let st = st\<lparr>lastSweep := Some t\<rparr>;
                        full = (\<lambda>latch st w. case sweepPass cfg S t latch st w of
                                  (st, w) \<Rightarrow> (True, st\<lparr>sweepSkipsSinceFull := 0\<rparr>, w))
                    in if origin \<noteq> sweepOriginTicker \<or> \<not> prober st
                       then (case sweepPass cfg S t None st w of (st, w) \<Rightarrow> (True, st, w))
                       else (case sweepProbe S st w of
                          (pos, ok, st, w) \<Rightarrow>
                            if ok \<and> sweepCacheValid st \<and> Same pos (sweepCachePos st) \<and>
                               \<not> sweepSkipsSinceFull st \<ge> sweepMaxSkips st
                            then (case hc_wait cfg sweepConfirmGap w of
                                    (True, w) \<Rightarrow> (True, st, w)
                                  | (False, w) \<Rightarrow>
                                      (case sweepProbe S st w of
                                         (pos2, ok2, st, w) \<Rightarrow>
                                           if ok2 \<and> Same pos2 (sweepCachePos st)
                                           then (case sweepCachedPass cfg S t st w of (st, w) \<Rightarrow> (True, st, w))
                                           else full (if ok2 then Some pos2 else None) st w))
                            else full (if ok then Some pos else None) st w)))"

section \<open>Apply\<close>

definition transitionVersionAdjacent :: "assignment \<Rightarrow> assignment \<Rightarrow> bool" where
  "transitionVersionAdjacent previous next \<longleftrightarrow> wrap64 (as_Version previous + 1) = as_Version next"

definition empty_assignment :: assignment where
  "empty_assignment = \<lparr>as_Version = 0, as_Lifecycle = [], as_Partitions = [], as_LeaderRevision = 0,
     as_SourceRevision = 0, as_SourceRevisionKnown = False, as_TotalWorkers = 0, as_WorkerLabels = [],
     as_WorkerLabelsKnown = False\<rparr>"

definition delay :: "'w handoff_cfg \<Rightarrow> duration \<Rightarrow> 'w \<Rightarrow> apply_error option \<times> 'w" where
  "delay cfg d w =
     (if d > 0 then (case hc_wait cfg d w of (b, w) \<Rightarrow> (if b then Some CtxError else None, w)) else (None, w))"

definition removal_guard ::
  "'w handoff_cfg \<Rightarrow> string \<Rightarrow> assignment \<Rightarrow> assignment \<Rightarrow> 'w \<Rightarrow> apply_error option \<times> 'w" where
  "removal_guard cfg workerID previous next w =
     (case hc_RemovalGuard cfg of
        None \<Rightarrow> (None, w)
      | Some f \<Rightarrow> (case f workerID previous next w of (e, w) \<Rightarrow> (map_option GuardError e, w)))"

definition update_consumer :: "'w handoff_cfg \<Rightarrow> string \<Rightarrow> assignment \<Rightarrow> 'w \<Rightarrow> apply_error option \<times> 'w" where
  "update_consumer cfg workerID next w =
     (case hc_ConsumerUpdater cfg of
        None \<Rightarrow> (None, w)
      | Some f \<Rightarrow> (case f workerID (as_Partitions next) w of (e, w) \<Rightarrow> (map_option UpdaterError e, w)))"

text \<open>The steps of \<open>Apply\<close> in order; the first error ends it.\<close>

fun run_steps :: "('w \<Rightarrow> apply_error option \<times> 'w) list \<Rightarrow> 'w \<Rightarrow> apply_error option \<times> 'w" where
  "run_steps [] w = (None, w)"
| "run_steps (f # fs) w = (case f w of (Some e, w) \<Rightarrow> (Some e, w) | (None, w) \<Rightarrow> run_steps fs w)"

definition apply_phases ::
  "'w handoff_cfg \<Rightarrow> xxh3 \<Rightarrow> string \<Rightarrow> assignment \<Rightarrow> assignment \<Rightarrow> 'w \<Rightarrow> apply_error option \<times> 'w" where
  "apply_phases cfg X workerID previous next w =
     (let preparePrevious = (if \<not> transitionVersionAdjacent previous next then empty_assignment else previous)
      in run_steps
           [preparePhase cfg X workerID preparePrevious next,
            delay cfg (hc_DelayAfterPrepare cfg),
            removal_guard cfg workerID previous next,
            update_consumer cfg workerID next,
            commitPhase cfg workerID next,
            delay cfg (hc_DelayBeforeStable cfg),
            stabilizePhase cfg workerID next] w)"

definition Apply ::
  "'w handoff_cfg \<Rightarrow> xxh3 \<Rightarrow> bool \<Rightarrow> string \<Rightarrow> assignment \<Rightarrow> assignment \<Rightarrow> coordinator \<Rightarrow> 'w \<Rightarrow>
     apply_error option \<times> coordinator \<times> 'w" where
  "Apply cfg X free workerID previous next st w =
     (case maybeSweepClaims cfg sweepOriginApply free st w of
        (admitted, st, w) \<Rightarrow>
          (case apply_phases cfg X workerID previous next w of (r, w) \<Rightarrow> (r, st, w)))"

definition direct_Apply :: "'w handoff_cfg \<Rightarrow> string \<Rightarrow> assignment \<Rightarrow> assignment \<Rightarrow> 'w \<Rightarrow> apply_error option \<times> 'w" where
  "direct_Apply cfg workerID previous next w = update_consumer cfg workerID next w"

section \<open>The ticker\<close>

definition followerBackstopTarget :: duration where
  "followerBackstopTarget = 5 * 60 * 1000000000"

definition backstopEveryFor :: "duration \<Rightarrow> int" where
  "backstopEveryFor interval = max 1 (go_div followerBackstopTarget interval)"

text \<open>\<open>Start\<close> returns whether the background loop is launched.\<close>

definition Start_sweep :: "'w handoff_cfg \<Rightarrow> coordinator \<Rightarrow> bool \<times> coordinator" where
  "Start_sweep cfg st =
     (if hc_SweepInterval cfg \<le> 0 then (False, st)
      else if started st then (False, st)
      else (True, st\<lparr>started := True\<rparr>))"

text \<open>One tick of the loop: \<open>tick\<close> is the counter after the increment. The result tells whether a
  pass was attempted.\<close>

definition on_tick :: "'w handoff_cfg \<Rightarrow> u64 \<Rightarrow> bool \<Rightarrow> coordinator \<Rightarrow> 'w \<Rightarrow> bool \<times> coordinator \<times> 'w" where
  "on_tick cfg tick free st w =
     (let backstopEvery = (of_int (backstopEveryFor (hc_SweepInterval cfg)) :: u64);
          phase = hc_SweepPhaseSeed cfg mod backstopEvery
      in case sampleAuthority cfg st w of
           (authorized, st, w) \<Rightarrow>
             if \<not> authorized \<and> (tick + phase) mod backstopEvery \<noteq> 0 \<and> \<not> backstopDue st then (False, st, w)
             else let st = (if \<not> authorized then st\<lparr>backstopDue := True\<rparr> else st)
                  in case maybeSweepClaims cfg sweepOriginTicker free st w of
                       (admitted, st, w) \<Rightarrow> (True, if admitted then st\<lparr>backstopDue := False\<rparr> else st, w))"

end
