(* ===== verification/Handoff_Safety.thy ===== *)
theory Handoff_Safety
  imports Handoff
begin

text \<open>
  What the two-phase handoff guarantees. The clients of the claim store are reasoned about once, in
  the locale of its contract, and the results are instantiated for the NATS store: every write of
  \<open>Apply\<close> is a step of the claim protocol, in which the owner changes only to the recorded pending
  owner. The hypothesis that an epoch identifies the content of a claim is needed; the expired reset
  of the sweep breaks it.
\<close>

section \<open>Steps of the claim protocol\<close>

text \<open>A step keeps the identity of the claim; the owner changes only on the way into the commit
  state, to the pending owner.\<close>

definition protocol_step :: "claim option \<Rightarrow> claim \<Rightarrow> bool" where
  "protocol_step cur c' \<longleftrightarrow>
     (case cur of
        None \<Rightarrow> State c' = ClaimStateStable \<and> PendingOwner c' = [] \<and> Epoch c' = 1
      | Some c \<Rightarrow>
          PartitionID c' = PartitionID c \<and> TTLSeconds c' = TTLSeconds c \<and>
          (Epoch c' = wrap64 (Epoch c + 1) \<or> Epoch c' = Epoch c) \<and>
          (Owner c' \<noteq> Owner c \<longrightarrow> Owner c' = PendingOwner c \<and> PendingOwner c \<noteq> [] \<and> State c \<noteq> ClaimStateCommit \<and>
             State c' = ClaimStateCommit \<and> Epoch c' = wrap64 (Epoch c + 1)) \<and>
          (PendingOwner c' \<noteq> PendingOwner c \<longrightarrow> State c' = ClaimStatePrepare \<or> PendingOwner c' = []))"

lemma prepare_protocol: "prepare_transform pid wk t ttl cur = Some c' \<Longrightarrow> protocol_step cur c'"
  by (auto simp: prepare_transform_def protocol_step_def NewInitialClaim_def NextPrepare_def split: option.splits if_splits)

lemma commit_protocol: "commit_transform wk t cur = Some c' \<Longrightarrow> protocol_step cur c'"
  by (auto simp: commit_transform_def protocol_step_def NextCommit_def Let_def split: option.splits if_splits)

lemma stabilize_protocol: "stabilize_transform wk t cur = Some c' \<Longrightarrow> protocol_step cur c'"
  by (auto simp: stabilize_transform_def protocol_step_def NextStable_def split: option.splits if_splits)

lemma sweep_protocol: "sweepReconcile cur t = Some c' \<Longrightarrow> protocol_step cur c'"
  by (auto simp: sweepReconcile_def protocol_step_def NextStable_def split: option.splits if_splits)

text \<open>The sweep never changes an owner.\<close>

lemma sweep_keeps_owner: "sweepReconcile (Some c) t = Some c' \<Longrightarrow> Owner c' = Owner c"
  by (auto simp: sweepReconcile_def NextStable_def split: if_splits)

section \<open>The coordinator as a client of the store\<close>

text \<open>The callbacks do not write claims.\<close>

definition handoff_env :: "'w handoff_cfg \<Rightarrow> ('w \<Rightarrow> 'w \<Rightarrow> bool) \<Rightarrow> bool" where
  "handoff_env cfg env \<longleftrightarrow>
     (\<forall>w. env w (snd (hc_Now cfg w))) \<and> (\<forall>n w. env w (snd (hc_backoff cfg n w))) \<and> (\<forall>w. env w (snd (hc_limiter cfg w))) \<and>
     (\<forall>d w. env w (snd (hc_wait cfg d w))) \<and>
     (\<forall>f a b c w. hc_RemovalGuard cfg = Some f \<longrightarrow> env w (snd (f a b c w))) \<and>
     (\<forall>f a b w. hc_ConsumerUpdater cfg = Some f \<longrightarrow> env w (snd (f a b w))) \<and>
     (\<forall>f w. hc_LivePartitions cfg = Some f \<longrightarrow> env w (snd (f w))) \<and>
     (\<forall>f w. hc_SweepAuthority cfg = Some f \<longrightarrow> env w (snd (f w)))"

text \<open>The epoch that \<open>PutIfEpoch\<close> compares is 0 for an absent claim. What others do never leaves a
  different claim under the same epoch.\<close>

definition epoch_at :: "claim_map \<Rightarrow> string \<Rightarrow> i64" where
  "epoch_at m pid = (case m pid of None \<Rightarrow> 0 | Some (c, _) \<Rightarrow> Epoch c)"

definition epoch_rely :: "('w \<Rightarrow> claim_map) \<Rightarrow> ('w \<Rightarrow> 'w \<Rightarrow> bool) \<Rightarrow> ('w \<Rightarrow> bool) \<Rightarrow> bool" where
  "epoch_rely claims env ok \<longleftrightarrow>
     (\<forall>w w' pid. ok w \<longrightarrow> env w w' \<longrightarrow> epoch_at (claims w') pid = epoch_at (claims w) pid \<longrightarrow>
        map_option fst (claims w' pid) = map_option fst (claims w pid))"

lemma relyD: "epoch_rely claims env ok \<Longrightarrow> ok w \<Longrightarrow> env w w' \<Longrightarrow> epoch_at (claims w') pid = epoch_at (claims w) pid \<Longrightarrow>
    map_option fst (claims w' pid) = map_option fst (claims w pid)"
  unfolding epoch_rely_def by meson

lemma put_effect_epoch: "put_effect pid epoch c n m m' \<Longrightarrow> epoch_at m pid = epoch"
  by (auto simp: put_effect_def epoch_at_def split: option.splits)

text \<open>A write of a transformation of the claim that it replaces.\<close>

definition exact_write :: "string \<Rightarrow> (claim option \<Rightarrow> claim option) \<Rightarrow> claim_map \<Rightarrow> claim_map \<Rightarrow> bool" where
  "exact_write pid f m m' \<longleftrightarrow> (\<exists>c' n. f (map_option fst (m pid)) = Some c' \<and> m' = m(pid \<mapsto> (c', n)))"

definition protocol_write :: "claim_map \<Rightarrow> claim_map \<Rightarrow> bool" where
  "protocol_write m m' \<longleftrightarrow> (\<exists>pid c' n. protocol_step (map_option fst (m pid)) c' \<and> m' = m(pid \<mapsto> (c', n)))"

text \<open>A settled claim is removed.\<close>

definition orphan_delete :: "claim_map \<Rightarrow> claim_map \<Rightarrow> bool" where
  "orphan_delete m m' \<longleftrightarrow> (\<exists>pid. m' = m(pid := None) \<and>
     (\<forall>c n. m pid = Some (c, n) \<longrightarrow> State c = ClaimStateStable \<and> PendingOwner c = []))"

definition handoff_own :: "claim_map \<Rightarrow> claim_map \<Rightarrow> bool" where
  "handoff_own m m' \<longleftrightarrow> protocol_write m m' \<or> orphan_delete m m'"

lemma exact_own:
  assumes "\<And>cur c'. f cur = Some c' \<Longrightarrow> protocol_step cur c'" "exact_write pid f m m'"
  shows "handoff_own m m'"
  using assms unfolding handoff_own_def protocol_write_def exact_write_def by blast

lemma env_Now: "handoff_env cfg env \<Longrightarrow> hc_Now cfg w = (t, w') \<Longrightarrow> env w w'"
  unfolding handoff_env_def by (metis snd_conv)

lemma env_wait: "handoff_env cfg env \<Longrightarrow> hc_wait cfg d w = (b, w') \<Longrightarrow> env w w'"
  unfolding handoff_env_def by (metis snd_conv)

lemma env_live: "handoff_env cfg env \<Longrightarrow> hc_LivePartitions cfg = Some f \<Longrightarrow> f w = (b, w') \<Longrightarrow> env w w'"
  unfolding handoff_env_def by (metis snd_conv)

context claim_store_laws
begin

lemma ok_evo_env: "ok w \<Longrightarrow> env w w' \<Longrightarrow> evo claims env own w w' \<and> ok w'"
  using env_ok evo_env1[of env w w'] by blast

text \<open>A put that follows the read of \<open>x\<close> replaces exactly the claim that was read.\<close>

lemma put_exact:
  assumes R: "epoch_rely claims env ok" and o: "ok x" "claims x pid = (if n = 0 then None else Some (c, n))" and e: "env x w"
    and p: "cs_PutIfEpoch S pid (if n = 0 then 0 else Epoch c) c' w = (r, w')"
    and f: "f (if n > 0 then Some c else None) = Some c'"
  shows "evo claims env (exact_write pid f) w w' \<and> ok w'"
proof -
  have okw: "ok w" by (rule env_ok[OF o(1) e])
  obtain w1 w2 where w1: "env w w1" "ok w2" "env w2 w'" and ef: "claims w2 = claims w1 \<and> isl r \<or>
      (\<exists>i. put_effect pid (if n = 0 then 0 else Epoch c) c' i (claims w1) (claims w2) \<and> (\<forall>j. r = Inr j \<longrightarrow> j = i))"
    using put_law[OF okw p] by blast
  have ex: "env x w1" by (rule env_trans[OF o(1) e w1(1)])
  have "exact_write pid f (claims w1) (claims w2)" if "put_effect pid (if n = 0 then 0 else Epoch c) c' i (claims w1) (claims w2)" for i
  proof -
    have "epoch_at (claims w1) pid = epoch_at (claims x) pid" using put_effect_epoch[OF that] o(2) by (simp add: epoch_at_def)
    then have "map_option fst (claims w1 pid) = (if n > 0 then Some c else None)" using relyD[OF R o(1) ex] o(2) by simp
    then show ?thesis using f that by (auto simp: exact_write_def put_effect_def)
  qed
  then have own: "claims w2 = claims w1 \<or> exact_write pid f (claims w1) (claims w2)" using ef by blast
  have "evo claims env (exact_write pid f) w w1" using ok_evo_env[OF okw w1(1)] by blast
  then have "evo claims env (exact_write pid f) w w2" using own by (rule evo_same_or)
  then show ?thesis using evo.evo_env[of claims env _ w w2 w'] w1(2,3) env_ok by blast
qed

lemma attempt_step:
  assumes H: "handoff_env cfg env" and R: "epoch_rely claims env ok" and okw: "ok w"
    and u: "update_attempts cfg S pid f m l w = (r, w')"
  shows "evo claims env (exact_write pid f) w w' \<and> ok w' \<or>
    (\<exists>l' x. l = Suc l' \<and> evo claims env (exact_write pid f) w x \<and> ok x \<and> update_attempts cfg S pid f (Suc m) l' x = (r, w'))"
proof -
  obtain g w1 where g: "cs_Get S pid w = (g, w1)" by fastforce
  obtain x where x: "env w x" "env x w1" "\<forall>c n. g = Inr (c, n) \<longrightarrow> claims x pid = (if n = 0 then None else Some (c, n))"
    using get_law[OF okw g] by blast
  have okx: "ok x" by (rule env_ok[OF okw x(1)])
  have e1: "evo claims env (exact_write pid f) w w1 \<and> ok w1" using ok_evo_env[OF okw env_trans[OF okw x(1,2)]] .
  show ?thesis
  proof (cases g)
    case (Inl e)
    then show ?thesis using u g e1 by (simp add: update_attempts.simps)
  next
    case (Inr y)
    obtain c n where y: "g = Inr (c, n)" using Inr by fastforce
    show ?thesis
    proof (cases "f (if n > 0 then Some c else None)")
      case None
      then show ?thesis using u g y e1 by (simp add: update_attempts.simps)
    next
      case (Some c')
      obtain b w2 where lim: "hc_limiter cfg w1 = (b, w2)" by fastforce
      have n12: "env w1 w2" using H lim unfolding handoff_env_def by (metis snd_conv)
      have ex2: "env x w2" by (rule env_trans[OF okx x(2) n12])
      obtain q w3 where p: "cs_PutIfEpoch S pid (if n = 0 then 0 else Epoch c) c' w2 = (q, w3)" by fastforce
      have e2: "evo claims env (exact_write pid f) w w2 \<and> ok w2"
        using ok_evo_env[OF okw env_trans[OF okw x(1) ex2]] .
      have e3: "evo claims env (exact_write pid f) w w3 \<and> ok w3"
        using put_exact[where f = f, OF R okx _ ex2 p Some] x(3) y e2 by (auto intro: evo_trans)
      obtain d w4 where bo: "hc_backoff cfg m w3 = (d, w4)" by fastforce
      have "env w3 w4" using H bo unfolding handoff_env_def by (metis snd_conv)
      then have e4: "evo claims env (exact_write pid f) w w4 \<and> ok w4" using e3 env_ok evo.evo_env[of claims env _ w w3 w4] by blast
      consider "w' = w2" | "w' = w3" | "w' = w4"
        | l' where "l = Suc l'" "update_attempts cfg S pid f (Suc m) l' w3 = (r, w') \<or> update_attempts cfg S pid f (Suc m) l' w4 = (r, w')"
        using u g y Some lim p bo
        by (subst (asm) update_attempts.simps) (auto split: bool.splits sum.splits nat.splits if_splits)
      then show ?thesis using e2 e3 e4 by cases blast+
    qed
  qed
qed

lemma update_exact:
  assumes H: "handoff_env cfg env" and R: "epoch_rely claims env ok"
  shows "ok w \<Longrightarrow> updateClaim cfg S pid f w = (r, w') \<Longrightarrow> evo claims env (exact_write pid f) w w' \<and> ok w'"
proof -
  have "ok w \<Longrightarrow> update_attempts cfg S pid f m l w = (r, w') \<Longrightarrow> evo claims env (exact_write pid f) w w' \<and> ok w'" for m l w
  proof (induction l arbitrary: m w)
    case (Suc l)
    from attempt_step[OF H R Suc.prems] show ?case using Suc.IH by (auto intro: evo_trans)
  qed (use attempt_step[OF H R] in blast)
  then show "ok w \<Longrightarrow> updateClaim cfg S pid f w = (r, w') \<Longrightarrow> evo claims env (exact_write pid f) w w' \<and> ok w'"
    by (simp add: updateClaim_def)
qed

text \<open>An operation is safe when it changes claims by the protocol only.\<close>

definition safe :: "'w \<Rightarrow> 'w \<Rightarrow> bool" where
  "safe w w' \<longleftrightarrow> (ok w \<longrightarrow> evo claims env handoff_own w w' \<and> ok w')"

lemma safe_refl: "safe w w"
  by (simp add: safe_def)

lemma safe_trans: "safe w w1 \<Longrightarrow> safe w1 w2 \<Longrightarrow> safe w w2"
  unfolding safe_def by (blast intro: evo_trans)

lemma safe_env: "env w w' \<Longrightarrow> safe w w'"
  using ok_evo_env by (auto simp: safe_def)

lemma safe_update:
  assumes "handoff_env cfg env" "epoch_rely claims env ok" "\<And>cur c'. f cur = Some c' \<Longrightarrow> protocol_step cur c'"
    and "updateClaim cfg S pid f w = (r, w')"
  shows "safe w w'"
proof -
  have "evo claims env handoff_own w w' \<and> ok w'" if "ok w"
    using update_exact[OF assms(1,2) that assms(4)] evo_mono[of claims env _ w w' handoff_own] exact_own[OF assms(3)] by blast
  then show ?thesis by (simp add: safe_def)
qed

lemma safe_update_all:
  assumes "handoff_env cfg env" "epoch_rely claims env ok" "\<And>pid cur c'. T pid cur = Some c' \<Longrightarrow> protocol_step cur c'"
  shows "update_all cfg S T ps w = (r, w') \<Longrightarrow> safe w w'"
proof (induction ps arbitrary: w r)
  case (Cons p ps)
  obtain q w1 where 1: "updateClaim cfg S (SubjectKey p) (T (SubjectKey p)) w = (q, w1)" by fastforce
  obtain q' where 2: "update_all cfg S T ps w1 = (q', w')" using Cons.prems 1 by (auto split: prod.splits)
  show ?case by (rule safe_trans[OF safe_update[OF assms(1,2,3) 1] Cons.IH[OF 2]])
qed (simp add: safe_refl)

lemma safe_steps: "(\<And>f w r w'. f \<in> set fs \<Longrightarrow> f w = (r, w') \<Longrightarrow> safe w w') \<Longrightarrow> run_steps fs w = (r, w') \<Longrightarrow> safe w w'"
proof (induction fs arbitrary: w)
  case (Cons f fs)
  obtain q w1 where 1: "f w = (q, w1)" by fastforce
  have s: "safe w w1" by (rule Cons.prems(1)[of f w q w1]) (simp_all add: 1)
  show ?case
  proof (cases q)
    case None
    then have "run_steps fs w1 = (r, w')" using Cons.prems(2) 1 by simp
    then have "safe w1 w'" using Cons.IH[of w1] Cons.prems(1) by (metis list.set_intros(2))
    then show ?thesis by (rule safe_trans[OF s])
  qed (use Cons.prems(2) 1 s in simp)
qed (simp add: safe_refl)

lemma safe_phases:
  assumes H: "handoff_env cfg env" and R: "epoch_rely claims env ok" and S: "hc_Store cfg = Some S"
    and a: "apply_phases cfg X wk prev next w = (r, w')"
  shows "safe w w'"
proof -
  have phase: "safe u u'" if "(case hc_Now cfg u of (t, u) \<Rightarrow> g t u) = (q, u')" "\<And>t v q v'. g t v = (q, v') \<Longrightarrow> safe v v'" for g u q u'
  proof -
    obtain t v where n: "hc_Now cfg u = (t, v)" by fastforce
    show ?thesis using that(2)[of t v q u'] that(1) n safe_trans[OF safe_env[OF env_Now[OF H n]]] by auto
  qed
  have prep: "safe u u'" if "preparePhase cfg X wk p nx u = (q, u')" for p nx u q u'
    by (rule phase[OF that[unfolded preparePhase_def S option.case]])
      (auto simp: Let_def safe_refl split: if_splits intro: safe_update_all[OF H R, of "\<lambda>pid. prepare_transform pid wk t (hc_TTL cfg)" for t] dest: prepare_protocol)
  have comm: "safe u u'" if "commitPhase cfg wk nx u = (q, u')" for nx u q u'
    by (rule phase[OF that[unfolded commitPhase_def S option.case]])
      (rule safe_update_all[OF H R], rule commit_protocol, assumption+)
  have stab: "safe u u'" if "stabilizePhase cfg wk nx u = (q, u')" for nx u q u'
    by (rule phase[OF that[unfolded stabilizePhase_def S option.case]])
      (rule safe_update_all[OF H R], rule stabilize_protocol, assumption+)
  have del: "safe u u'" if "delay cfg d u = (q, u')" for d u q u'
    using that H by (auto simp: delay_def safe_refl split: if_splits prod.splits intro: safe_env env_wait)
  have grd: "safe u u'" if "removal_guard cfg wk p nx u = (q, u')" for p nx u q u'
    using that H by (auto simp: removal_guard_def safe_refl handoff_env_def split: option.splits prod.splits intro!: safe_env) (metis snd_conv)
  have upd: "safe u u'" if "update_consumer cfg wk nx u = (q, u')" for nx u q u'
    using that H by (auto simp: update_consumer_def safe_refl handoff_env_def split: option.splits prod.splits intro!: safe_env) (metis snd_conv)
  show ?thesis
    by (rule safe_steps[OF _ a[unfolded apply_phases_def Let_def]]) (auto dest: prep comm stab del grd upd)
qed

lemma safe_reap:
  assumes x: "ok x" "claims x pid = Some (cur, n)" "env x w" and m: "maybeReapOrphan cfg S pid cur n live t vouch st w = (st', w')"
  shows "safe w w'"
proof -
  have okw: "ok w" by (rule env_ok[OF x(1,3)])
  have "evo claims env handoff_own w w1 \<and> ok w1"
    if settled: "State cur = ClaimStateStable" "PendingOwner cur = []" and d: "cs_Delete S pid n w = (e, w1)" for e w1
  proof -
    obtain u v where u: "env w u" "ok v" "env v w1" "claims v = claims u \<or> delete_effect pid n (claims u) (claims v)"
      using delete_law[OF okw d] by blast
    have xu: "env x u" by (rule env_trans[OF x(1,3) u(1)])
    have "claims v = claims u \<or> handoff_own (claims u) (claims v)"
      using u(4) env_rev[OF x(1) xu x(2)] settled by (fastforce simp: handoff_own_def orphan_delete_def delete_effect_def)
    moreover have "evo claims env handoff_own w u" using ok_evo_env[OF okw u(1)] by blast
    ultimately have "evo claims env handoff_own w v" by (metis evo_same_or)
    then show ?thesis using evo.evo_env[of claims env _ w v w1] u(2,3) env_ok by blast
  qed
  then have "w' = w \<or> evo claims env handoff_own w w' \<and> ok w'" using m unfolding maybeReapOrphan_def
    by (auto split: if_splits option.splits prod.splits)
  then show ?thesis using okw by (auto simp: safe_def)
qed

lemma safe_sweepClaim:
  assumes H: "handoff_env cfg env" and R: "epoch_rely claims env ok" and x: "ok x" "claims x pid = Some (cur, n)" "env x w"
    and m: "sweepClaim cfg S pid cur n live liveOK t vouch st w = (st', w')"
  shows "safe w w'"
proof -
  have "safe w (snd (updateClaim cfg S pid (\<lambda>c. sweepReconcile c t) w))"
    by (rule safe_update[OF H R sweep_protocol]) (auto simp: prod_eq_iff)
  then show ?thesis using m safe_reap[OF x] by (auto simp: sweepClaim_def safe_refl split: if_splits)
qed

lemma safe_sweep_list:
  assumes H: "handoff_env cfg env" and R: "epoch_rely claims env ok"
  shows "sweep_list cfg S live liveOK t vouch ks cache gf st w = (cache', gf', st', w') \<Longrightarrow> safe w w'"
proof (induction ks arbitrary: cache gf st w)
  case (Cons pid ks)
  obtain r w1 where g: "cs_Get S pid w = (r, w1)" by fastforce
  show ?case unfolding safe_def
  proof
    assume okw: "ok w"
    obtain x where x: "env w x" "env x w1" "\<And>c n. r = Inr (c, n) \<Longrightarrow> claims x pid = (if n = 0 then None else Some (c, n))"
      using get_law[OF okw g] by blast
    have s1: "safe w w1" by (rule safe_env[OF env_trans[OF okw x(1,2)]])
    have "safe w w'"
    proof (cases "\<exists>c n. r = Inr (c, n) \<and> n \<noteq> 0")
      case True
      then obtain c n where r: "r = Inr (c, n)" "n \<noteq> 0" by blast
      obtain st2 w2 where c: "sweepClaim cfg S pid c n live liveOK t vouch st w1 = (st2, w2)" by fastforce
      have "safe w1 w2" by (rule safe_sweepClaim[OF H R env_ok[OF okw x(1)] _ x(2) c]) (simp add: x(3)[OF r(1)] r(2))
      moreover have "safe w2 w'" by (rule Cons.IH) (use Cons.prems g r c in simp)
      ultimately show ?thesis using s1 by (blast intro: safe_trans)
    next
      case False
      then have "safe w1 w'" using Cons.prems g Cons.IH by (cases r) (auto split: if_splits prod.splits)
      then show ?thesis by (rule safe_trans[OF s1])
    qed
    then show "evo claims env handoff_own w w' \<and> ok w'" using okw by (simp add: safe_def)
  qed
qed (simp add: safe_refl)

lemma safe_resolve:
  assumes H: "handoff_env cfg env" and r: "resolveLiveSet cfg st w = (q, st', w')"
  shows "safe w w'"
  using r env_live[OF H] env_Now[OF H] unfolding resolveLiveSet_def Let_def
  by (auto simp: safe_refl split: if_splits option.splits prod.splits intro: safe_env) (blast intro: safe_env safe_trans)+

lemma safe_pass:
  assumes H: "handoff_env cfg env" and R: "epoch_rely claims env ok" and p: "sweepPass cfg S t latch st w = (st', w')"
  shows "safe w w'"
proof -
  obtain r w1 where l: "cs_ListKeys S w = (r, w1)" by fastforce
  have s1: "safe w w1" unfolding safe_def using list_law[OF _ l] ok_evo_env by blast
  show ?thesis
  proof (cases "\<exists>k ks. r = Inr (k # ks)")
    case True
    then obtain k ks where r: "r = Inr (k # ks)" by blast
    obtain live liveOK vouch st2 w2 where v: "resolveLiveSet cfg st w1 = ((live, liveOK, vouch), st2, w2)" by (metis surj_pair)
    obtain cache gf st3 w3 where s: "sweep_list cfg S live liveOK t vouch (k # ks) [] False st2 w2 = (cache, gf, st3, w3)"
      by (metis surj_pair)
    have "w' = w3" using p by (auto simp: sweepPass_def l r v s Let_def simp del: sweep_list.simps)
    then show ?thesis using safe_trans[OF s1 safe_trans[OF safe_resolve[OF H v] safe_sweep_list[OF H R s]]] by simp
  next
    case False
    then have "w' = w1" using p l by (auto simp: sweepPass_def split: sum.splits list.splits)
    then show ?thesis using s1 by simp
  qed
qed

lemma safe_Apply:
  assumes H: "handoff_env cfg env" and R: "epoch_rely claims env ok" and St: "hc_Store cfg = Some S"
    and a: "Apply cfg X free wk prev next st w = (r, st', w')"
  shows "safe w w'"
proof -
  obtain b st1 w1 where m: "maybeSweepClaims cfg sweepOriginApply free st w = (b, st1, w1)" by (metis surj_pair)
  have "safe w w1"
    using m safe_pass[OF H R] env_Now[OF H] unfolding maybeSweepClaims_def St
    by (auto simp: safe_refl Let_def split: if_splits prod.splits intro: safe_env) (blast intro: safe_env safe_trans)+
  moreover have "safe w1 w'" using a safe_phases[OF H R St] by (auto simp: Apply_def m split: prod.splits)
  ultimately show ?thesis by (rule safe_trans)
qed

end

section \<open>Apply on the NATS store\<close>

text \<open>C8: whatever other workers write meanwhile and however the store fails, \<open>Apply\<close> changes the
  claims by steps of the protocol only: a write replaces the claim it was computed from, gives the
  partition away only to the worker that the claim records as pending, and a deletion removes only a
  settled claim. Other workers are assumed to change the epoch when they change a claim.\<close>

theorem apply_protocol:
  assumes "kv_laws K view env" "bucket_wf (view w)" "handoff_env cfg env"
    and "epoch_rely (\<lambda>w. bucket_claims (build_prefix prefix) (view w)) env (nats_ok K view env)"
    and "hc_Store cfg = Some (NewNATSClaimStoreWithProbe K probe prefix)"
    and "Apply cfg X free wk prev next st w = (r, st', w')"
  shows "evo (\<lambda>w. bucket_claims (build_prefix prefix) (view w)) env handoff_own w w'"
  using nats.safe_Apply[OF assms(3,4,5,6)] assms(1,2) by (simp add: nats.safe_def nats_ok_def)

definition hx_cfg :: "claim_value mem_world handoff_cfg" where
  "hx_cfg = \<lparr>hc_ConsumerUpdater = Some (\<lambda>_ _ w. (None, w)), hc_RemovalGuard = Some (\<lambda>_ _ _ w. (None, w)),
     hc_Now = (\<lambda>w. (snd w, w)), hc_Store = Some (NewNATSClaimStoreWithProbe (mem_kv [''claims/p'', ''claims/q'']) None ''claims''),
     hc_TTL = 60000000000, hc_SweepInterval = 30000000000, hc_MaxRetries = 3, hc_backoff = (\<lambda>_ w. (False, w)),
     hc_limiter = (\<lambda>w. (False, w)), hc_wait = (\<lambda>_ w. (False, w)), hc_DelayAfterPrepare = 0, hc_DelayBeforeStable = 0,
     hc_LivePartitions = None, hc_OrphanGrace = 0, hc_SweepAuthority = None, hc_SweepPhaseSeed = 0\<rparr>"

definition hx_xxh3 :: xxh3 where
  "hx_xxh3 = \<lparr>HashString = \<lambda>s. 1, HashStringSeed = \<lambda>s n. 1, HashSeed = \<lambda>s n. 1, HasherSum64 = \<lambda>ss. 1\<rparr>"

definition hx_world :: "claim_value mem_world" where
  "hx_world = (\<lparr>bk_last = 1, bk_entries = (\<lambda>_. None)(''claims/p'' \<mapsto>
     \<lparr>ent_Value = VClaim ex_claim, ent_Revision = 1, ent_Created = 1000\<rparr>)\<rparr>, 100000000000)"

definition hx_next :: assignment where
  "hx_next = empty_assignment\<lparr>as_Version := 1, as_Partitions := [\<lparr>Keys = [''p''], Weight = 1, Label = []\<rparr>]\<rparr>"

abbreviation hx_run :: "apply_error option \<times> coordinator \<times> claim_value mem_world" where
  "hx_run \<equiv> Apply hx_cfg hx_xxh3 True ''w2'' empty_assignment hx_next (new_coordinator hx_cfg) hx_world"

lemma hx_hands_over:
  "fst hx_run = None \<and> map_option (\<lambda>(c, n). (Owner c, State c, Epoch c)) (bucket_claims ''claims/'' (fst (snd (snd hx_run))) ''p'') =
     Some (''w2'', ClaimStateStable, 4)"
  by code_simp

theorem apply_protocol_witness:
  "Owner ex_claim = ''w1'' \<and>
   map_option (\<lambda>(c, n). (Owner c, State c, Epoch c)) (bucket_claims ''claims/'' (fst (snd (snd hx_run))) ''p'') =
     Some (''w2'', ClaimStateStable, 4) \<and>
   evo (\<lambda>w. bucket_claims (build_prefix ''claims'') (fst w)) (=) handoff_own hx_world (snd (snd hx_run))"
proof -
  have 1: "bucket_wf (fst hx_world)" "handoff_env hx_cfg (=)"
    by (simp_all add: bucket_wf_def hx_world_def handoff_env_def hx_cfg_def)
  have 2: "epoch_rely (\<lambda>w. bucket_claims (build_prefix ''claims'') (fst w)) (=)
      (nats_ok (mem_kv [''claims/p'', ''claims/q'']) fst (=))" by (simp add: epoch_rely_def)
  have 3: "hc_Store hx_cfg = Some (NewNATSClaimStoreWithProbe (mem_kv [''claims/p'', ''claims/q'']) None ''claims'')"
    by (simp add: hx_cfg_def)
  have 4: "hx_run = (fst hx_run, fst (snd hx_run), snd (snd hx_run))" by simp
  show ?thesis using apply_protocol[OF mem_kv_laws 1 2 3 4] hx_hands_over by (simp add: ex_claim_def)
qed

text \<open>C20: the reset of an expired claim keeps its epoch, so it does not stop a commit that was
  computed before it: the worker that prepared the handoff takes a partition whose claim records no
  pending owner any more.\<close>

theorem stale_commit_over_reset:
  assumes "bucket_claims pref (fst w) pid = Some (c, n)" "State c = ClaimStatePrepare" "PendingOwner c = wk" "wk \<noteq> []"
    and "Owner c \<noteq> wk" "IsExpired c t" "sweepReconcile (Some c) t = Some reset" "commit_transform wk t' (Some c) = Some committed"
  shows "\<exists>i w1 j w2. nats_PutIfEpoch (mem_kv names) pref pid (Epoch c) reset w = (Inr i, w1) \<and>
     nats_PutIfEpoch (mem_kv names) pref pid (Epoch c) committed w1 = (Inr j, w2) \<and>
     bucket_claims pref (fst w1) pid = Some (reset, i) \<and> Owner reset \<noteq> wk \<and> PendingOwner reset = [] \<and>
     bucket_claims pref (fst w2) pid = Some (committed, j) \<and> Owner committed = wk"
proof -
  have put: "\<exists>j u'. nats_PutIfEpoch (mem_kv names) pref pid (Epoch b) d u = (Inr j, u') \<and> bucket_claims pref (fst u') pid = Some (d, j)"
    if "bucket_claims pref (fst u) pid = Some (b, m)" for b d m u
    using that by (auto simp: nats_PutIfEpoch_def GetJSON_def mem_kv_def bucket_claims_def rev_at_def mem_write_def Let_def
        Marshal_def unmarshal_claim_def split: option.splits)
  obtain i w1 where 1: "nats_PutIfEpoch (mem_kv names) pref pid (Epoch c) reset w = (Inr i, w1)"
    "bucket_claims pref (fst w1) pid = Some (reset, i)" using put[OF assms(1)] by blast
  have "Epoch reset = Epoch c" "Owner reset = Owner c" "PendingOwner reset = []" "Owner committed = wk"
    using assms(2-8) by (auto simp: sweepReconcile_def commit_transform_def NextCommit_def Let_def ClaimStatePrepare_def
        ClaimStateCommit_def ClaimStateStable_def ClaimStateAbort_def split: if_splits)
  then show ?thesis using put[OF 1(2), of committed] 1 assms(5) by auto
qed

definition hx_stale :: claim where
  "hx_stale = ex_claim\<lparr>PendingOwner := ''w2'', State := ClaimStatePrepare, Epoch := 2, TTLSeconds := 60\<rparr>"

definition hx_stale_world :: "claim_value mem_world" where
  "hx_stale_world = (\<lparr>bk_last = 2, bk_entries = (\<lambda>_. None)(''claims/p'' \<mapsto>
     \<lparr>ent_Value = VClaim hx_stale, ent_Revision = 2, ent_Created = 1000\<rparr>)\<rparr>, 100000000000)"

theorem stale_commit_over_reset_witness:
  "\<exists>reset committed i w1 j w2. nats_PutIfEpoch (mem_kv []) ''claims/'' ''p'' 2 reset hx_stale_world = (Inr i, w1) \<and>
     nats_PutIfEpoch (mem_kv []) ''claims/'' ''p'' 2 committed w1 = (Inr j, w2) \<and>
     PendingOwner reset = [] \<and> Owner committed = ''w2''"
proof -
  have "bucket_claims ''claims/'' (fst hx_stale_world) ''p'' = Some (hx_stale, 2)" by code_simp
  moreover have "State hx_stale = ClaimStatePrepare" "PendingOwner hx_stale = ''w2''" "Owner hx_stale \<noteq> ''w2''" "Epoch hx_stale = 2"
    by code_simp+
  moreover have "IsExpired hx_stale 100000000000" by code_simp
  moreover have "sweepReconcile (Some hx_stale) 100000000000 \<noteq> None" "commit_transform ''w2'' 100000000000 (Some hx_stale) \<noteq> None"
    by code_simp+
  ultimately show ?thesis
    using stale_commit_over_reset[of "''claims/''" hx_stale_world "''p''" hx_stale 2 "''w2''"] by fastforce
qed

end
