(* ===== verification/Handoff_Progress.thy ===== *)
theory Handoff_Progress
  imports Handoff_Safety
begin

text \<open>
  What the two-phase handoff achieves. On a store that answers every request and with no other
  writer, the phases of \<open>Apply\<close> leave every new partition stable and owned by the worker. An orphaned
  claim is deleted only after the grace period of uninterrupted absence from the live set. A worker
  without the authority to sweep still attempts a pass in every round of the backstop.
\<close>

section \<open>A store that does not fail\<close>

locale reliable_store =
  fixes S :: "'w claim_store" and claims :: "'w \<Rightarrow> claim_map" and same :: "'w \<Rightarrow> 'w \<Rightarrow> bool" and ok :: "'w \<Rightarrow> bool"
  assumes same_ok: "ok w \<Longrightarrow> same w w' \<Longrightarrow> ok w' \<and> claims w' = claims w"
    and get_ok: "ok w \<Longrightarrow> \<exists>c n w'. cs_Get S pid w = (Inr (c, n), w') \<and> ok w' \<and> claims w' = claims w \<and>
      claims w pid = (if n = 0 then None else Some (c, n))"
    and put_ok: "ok w \<Longrightarrow> epoch_at (claims w) pid = epoch \<Longrightarrow> \<exists>n w'. cs_PutIfEpoch S pid epoch c w = (Inr n, w') \<and> ok w' \<and>
      claims w' = (claims w)(pid \<mapsto> (c, n))"

text \<open>The callbacks do not fail and leave the claims as they are.\<close>

definition handoff_calm :: "'w handoff_cfg \<Rightarrow> ('w \<Rightarrow> 'w \<Rightarrow> bool) \<Rightarrow> bool" where
  "handoff_calm cfg same \<longleftrightarrow>
     (\<forall>w. same w (snd (hc_Now cfg w))) \<and> (\<forall>w. \<not> fst (hc_limiter cfg w) \<and> same w (snd (hc_limiter cfg w))) \<and>
     (\<forall>d w. \<not> fst (hc_wait cfg d w) \<and> same w (snd (hc_wait cfg d w))) \<and>
     (\<forall>f a b c w. hc_RemovalGuard cfg = Some f \<longrightarrow> fst (f a b c w) = None \<and> same w (snd (f a b c w))) \<and>
     (\<forall>f a b w. hc_ConsumerUpdater cfg = Some f \<longrightarrow> fst (f a b w) = None \<and> same w (snd (f a b w)))"

text \<open>The content of a claim after the transformations of a phase.\<close>

definition content :: "claim_map \<Rightarrow> string \<Rightarrow> claim option" where
  "content m pid = map_option fst (m pid)"

definition after :: "(claim option \<Rightarrow> claim option) \<Rightarrow> claim option \<Rightarrow> claim option" where
  "after f cur = (case f cur of None \<Rightarrow> cur | Some c \<Rightarrow> Some c)"

definition settled :: "string \<Rightarrow> claim \<Rightarrow> bool" where
  "settled wk c \<longleftrightarrow> Owner c = wk \<and> State c = ClaimStateStable \<and> PendingOwner c = []"

lemmas claim_states = ClaimStatePrepare_def ClaimStateCommit_def ClaimStateStable_def

lemma prepare_after:
  "\<exists>c. after (prepare_transform pid wk t ttl) cur = Some c \<and> (settled wk c \<or> PendingOwner c = wk \<and> State c = ClaimStatePrepare \<and> Owner c \<noteq> wk)"
  by (cases cur) (auto simp: after_def prepare_transform_def settled_def NewInitialClaim_def NextPrepare_def)

lemma settled_commit: "settled wk c \<Longrightarrow> after (commit_transform wk t) (Some c) = Some c"
  by (simp add: after_def commit_transform_def settled_def)

lemma settled_stabilize: "settled wk c \<Longrightarrow> after (stabilize_transform wk t) (Some c) = Some c"
  by (simp add: after_def stabilize_transform_def settled_def claim_states)

lemma prepared_commit: "PendingOwner c = wk \<Longrightarrow> State c = ClaimStatePrepare \<Longrightarrow> Owner c \<noteq> wk \<Longrightarrow>
    after (commit_transform wk t) (Some c) = Some (NextCommit c t)"
  by (simp add: after_def commit_transform_def claim_states)

lemma committed_stabilize: "PendingOwner c = wk \<Longrightarrow> wk \<noteq> [] \<Longrightarrow>
    after (stabilize_transform wk t) (Some (NextCommit c t')) = Some (NextStable (NextCommit c t') t) \<and> settled wk (NextStable (NextCommit c t') t)"
  by (simp add: after_def stabilize_transform_def NextCommit_def NextStable_def settled_def Let_def)

lemma phases_settle:
  assumes "wk \<noteq> []"
  shows "\<exists>c. after (stabilize_transform wk t3) (after (commit_transform wk t2) (after (prepare_transform pid wk t1 ttl) cur)) = Some c \<and>
    settled wk c"
proof -
  obtain c where c: "after (prepare_transform pid wk t1 ttl) cur = Some c"
    and "settled wk c \<or> PendingOwner c = wk \<and> State c = ClaimStatePrepare \<and> Owner c \<noteq> wk" using prepare_after by blast
  from this(2) show ?thesis
  proof
    assume "settled wk c"
    then show ?thesis by (simp add: c settled_commit settled_stabilize)
  next
    assume "PendingOwner c = wk \<and> State c = ClaimStatePrepare \<and> Owner c \<noteq> wk"
    then show ?thesis using committed_stabilize[OF _ assms] by (simp add: c prepared_commit)
  qed
qed

context reliable_store
begin

lemma update_after:
  assumes C: "handoff_calm cfg same" and okw: "ok w"
  shows "\<exists>w'. updateClaim cfg S pid f w = (None, w') \<and> ok w' \<and> content (claims w') = (content (claims w))(pid := after f (content (claims w) pid))"
proof -
  obtain c n w1 where g: "cs_Get S pid w = (Inr (c, n), w1)" "ok w1" "claims w1 = claims w"
    and cn: "claims w pid = (if n = 0 then None else Some (c, n))" using get_ok[OF okw] by blast
  have cur: "content (claims w) pid = (if n > 0 then Some c else None)" using cn by (simp add: content_def)
  show ?thesis
  proof (cases "f (if n > 0 then Some c else None)")
    case None
    then show ?thesis using g cur by (auto simp: updateClaim_def update_attempts.simps after_def content_def fun_eq_iff)
  next
    case (Some c')
    obtain w2 where l: "hc_limiter cfg w1 = (False, w2)" "same w1 w2" using C unfolding handoff_calm_def by (metis prod.collapse)
    have w2: "ok w2" "claims w2 = claims w" using same_ok[OF g(2) l(2)] g(3) by auto
    have "epoch_at (claims w2) pid = (if n = 0 then 0 else Epoch c)" using cn w2(2) by (simp add: epoch_at_def)
    from put_ok[OF w2(1) this] obtain m w3 where "cs_PutIfEpoch S pid (if n = 0 then 0 else Epoch c) c' w2 = (Inr m, w3)"
      "ok w3" "claims w3 = (claims w2)(pid \<mapsto> (c', m))" by blast
    then show ?thesis using g l Some cur w2(2) by (auto simp: updateClaim_def update_attempts.simps after_def content_def fun_eq_iff)
  qed
qed

lemma update_all_after:
  assumes C: "handoff_calm cfg same"
  shows "ok w \<Longrightarrow> distinct (map SubjectKey ps) \<Longrightarrow> \<exists>w'. update_all cfg S T ps w = (None, w') \<and> ok w' \<and>
    content (claims w') = (\<lambda>pid. if pid \<in> SubjectKey ` set ps then after (T pid) (content (claims w) pid) else content (claims w) pid)"
proof (induction ps arbitrary: w)
  case (Cons p ps)
  obtain w1 where 1: "updateClaim cfg S (SubjectKey p) (T (SubjectKey p)) w = (None, w1)" "ok w1"
    "content (claims w1) = (content (claims w))(SubjectKey p := after (T (SubjectKey p)) (content (claims w) (SubjectKey p)))"
    using update_after[OF C Cons.prems(1)] by blast
  have d: "distinct (map SubjectKey ps)" "SubjectKey p \<notin> SubjectKey ` set ps" using Cons.prems(2) by auto
  from Cons.IH[OF 1(2) d(1)] show ?case using 1 d(2) by (auto simp: fun_eq_iff image_iff)
qed simp

lemma phase_after:
  assumes C: "handoff_calm cfg same" and okw: "ok w" and d: "distinct (map SubjectKey ps)" and p: "p \<in> set ps"
  shows "\<exists>t w'. (case hc_Now cfg w of (t, w) \<Rightarrow> update_all cfg S (T t) ps w) = (None, w') \<and> ok w' \<and>
    content (claims w') (SubjectKey p) = after (T t (SubjectKey p)) (content (claims w) (SubjectKey p))"
proof -
  obtain t w1 where n: "hc_Now cfg w = (t, w1)" "same w w1" using C unfolding handoff_calm_def by (metis prod.collapse)
  have w1: "ok w1" "claims w1 = claims w" using same_ok[OF okw n(2)] by auto
  obtain w' where "update_all cfg S (T t) ps w1 = (None, w')" "ok w'" "content (claims w') =
    (\<lambda>pid. if pid \<in> SubjectKey ` set ps then after (T t pid) (content (claims w1) pid) else content (claims w1) pid)"
    using update_all_after[OF C w1(1) d] by blast
  then show ?thesis using n(1) w1(2) p by (intro exI[of _ t] exI[of _ w']) simp
qed

lemma calm_steps:
  assumes C: "handoff_calm cfg same" and okw: "ok w"
  shows "\<exists>w'. delay cfg d w = (None, w') \<and> ok w' \<and> claims w' = claims w"
    and "\<exists>w'. removal_guard cfg wk p nx w = (None, w') \<and> ok w' \<and> claims w' = claims w"
    and "\<exists>w'. update_consumer cfg wk nx w = (None, w') \<and> ok w' \<and> claims w' = claims w"
proof -
  note c = C[unfolded handoff_calm_def]
  show "\<exists>w'. delay cfg d w = (None, w') \<and> ok w' \<and> claims w' = claims w"
    using c same_ok[OF okw] okw by (auto simp: delay_def split: prod.splits) (metis fst_conv snd_conv)+
  show "\<exists>w'. removal_guard cfg wk p nx w = (None, w') \<and> ok w' \<and> claims w' = claims w"
    using c same_ok[OF okw] okw by (auto simp: removal_guard_def split: option.splits prod.splits) (metis fst_conv snd_conv)+
  show "\<exists>w'. update_consumer cfg wk nx w = (None, w') \<and> ok w' \<and> claims w' = claims w"
    using c same_ok[OF okw] okw by (auto simp: update_consumer_def split: option.splits prod.splits) (metis fst_conv snd_conv)+
qed

lemma phases_complete:
  assumes C: "handoff_calm cfg same" and okw: "ok w" and St: "hc_Store cfg = Some S" and wk: "wk \<noteq> []"
    and d: "distinct (map SubjectKey (as_Partitions nx))" and p: "p \<in> set (as_Partitions nx)"
    and new: "HashID X p \<notin> HashID X ` set (as_Partitions prev) \<or> \<not> transitionVersionAdjacent prev nx"
  shows "\<exists>w' c n. apply_phases cfg X wk prev nx w = (None, w') \<and> claims w' (SubjectKey p) = Some (c, n) \<and>
    settled wk c"
proof -
  define old where "old = (if \<not> transitionVersionAdjacent prev nx then empty_assignment else prev)"
  define ps where "ps = filter (\<lambda>p. HashID X p \<notin> set (map (HashID X) (as_Partitions old))) (as_Partitions nx)"
  have pps: "p \<in> set ps" using new p by (auto simp: ps_def old_def empty_assignment_def)
  have dps: "distinct (map SubjectKey ps)" using d by (simp add: ps_def distinct_map_filter)
  have "ps \<noteq> []" using pps by auto
  then have prep: "preparePhase cfg X wk old nx w =
      (case hc_Now cfg w of (t, w) \<Rightarrow> update_all cfg S (\<lambda>pid. prepare_transform pid wk t (hc_TTL cfg)) ps w)"
    by (simp only: preparePhase_def St option.case Let_def ps_def[symmetric] if_False)
  obtain t1 w1 where 1: "preparePhase cfg X wk old nx w = (None, w1)" "ok w1"
    "content (claims w1) (SubjectKey p) = after (prepare_transform (SubjectKey p) wk t1 (hc_TTL cfg)) (content (claims w) (SubjectKey p))"
    using phase_after[OF C okw dps pps, of "\<lambda>t pid. prepare_transform pid wk t (hc_TTL cfg)"]
    unfolding prep by blast
  obtain w2 where 2: "delay cfg (hc_DelayAfterPrepare cfg) w1 = (None, w2)" "ok w2" "claims w2 = claims w1"
    using calm_steps(1)[OF C 1(2)] by blast
  obtain w3 where 3: "removal_guard cfg wk prev nx w2 = (None, w3)" "ok w3" "claims w3 = claims w2"
    using calm_steps(2)[OF C 2(2)] by blast
  obtain w4 where 4: "update_consumer cfg wk nx w3 = (None, w4)" "ok w4" "claims w4 = claims w3"
    using calm_steps(3)[OF C 3(2)] by blast
  obtain t5 w5 where 5: "commitPhase cfg wk nx w4 = (None, w5)" "ok w5"
    "content (claims w5) (SubjectKey p) = after (commit_transform wk t5) (content (claims w4) (SubjectKey p))"
    using phase_after[OF C 4(2) d p, of "\<lambda>t _. commit_transform wk t"] unfolding commitPhase_def St option.case by blast
  obtain w6 where 6: "delay cfg (hc_DelayBeforeStable cfg) w5 = (None, w6)" "ok w6" "claims w6 = claims w5"
    using calm_steps(1)[OF C 5(2)] by blast
  obtain t7 w7 where 7: "stabilizePhase cfg wk nx w6 = (None, w7)"
    "content (claims w7) (SubjectKey p) = after (stabilize_transform wk t7) (content (claims w6) (SubjectKey p))"
    using phase_after[OF C 6(2) d p, of "\<lambda>t _. stabilize_transform wk t"] unfolding stabilizePhase_def St option.case by blast
  have "apply_phases cfg X wk prev nx w = (None, w7)" by (simp add: apply_phases_def Let_def old_def[symmetric] 1 2 3 4 5 6 7)
  moreover have "\<exists>c. content (claims w7) (SubjectKey p) = Some c \<and> settled wk c"
    using phases_settle[OF wk] 1(3) 2(3) 3(3) 4(3) 5(3) 6(3) 7(2) by metis
  ultimately show ?thesis by (auto simp: content_def)
qed

end

section \<open>The NATS store on a bucket that does not fail\<close>

definition kv_reliable :: "('v, 'w) kv \<Rightarrow> ('w \<Rightarrow> 'v bucket) \<Rightarrow> bool" where
  "kv_reliable K view \<longleftrightarrow>
     (\<forall>k w. \<exists>w'. kv_Get K k w = (case bk_entries (view w) k of None \<Rightarrow> Inl ErrKeyNotFound | Some e \<Rightarrow> Inr e, w') \<and> view w' = view w) \<and>
     (\<forall>k v w. rev_at (view w) k = None \<longrightarrow> (\<exists>n w'. kv_Create K k v w = (Inr n, w') \<and> eff_put k v (view w) n (view w'))) \<and>
     (\<forall>k v m w. rev_at (view w) k = Some m \<longrightarrow> (\<exists>n w'. kv_Update K k v m w = (Inr n, w') \<and> eff_put k v (view w) n (view w')))"

definition readable :: "string \<Rightarrow> claim_value bucket \<Rightarrow> bool" where
  "readable pref b \<longleftrightarrow> bucket_wf b \<and> (\<forall>pid e. bk_entries b (pref @ pid) = Some e \<longrightarrow> unmarshal_claim (ent_Value e) \<noteq> None)"

lemma readable_put: "readable pref b \<Longrightarrow> eff_put (pref @ pid) (VClaim c) b n b' \<Longrightarrow> readable pref b'"
  using eff_put_touches[of "pref @ pid" "VClaim c" b n b'] by (auto simp: readable_def touches_def eff_put_def unmarshal_claim_def split: if_splits)

lemma reliable_getJSON:
  assumes "kv_reliable K view" "readable pref (view w)"
  shows "\<exists>w'. GetJSON K unmarshal_claim (pref @ pid) w = (Inr (bucket_claims pref (view w) pid), w') \<and> view w' = view w"
proof -
  obtain w' where g: "kv_Get K (pref @ pid) w = (case bk_entries (view w) (pref @ pid) of None \<Rightarrow> Inl ErrKeyNotFound | Some e \<Rightarrow> Inr e, w')"
    "view w' = view w" using assms(1) unfolding kv_reliable_def by blast
  show ?thesis using g assms(2) by (cases "bk_entries (view w) (pref @ pid)")
    (auto simp: GetJSON_def bucket_claims_def readable_def split: option.splits)
qed

interpretation natsr: reliable_store "NewNATSClaimStoreWithProbe K probe prefix"
  "\<lambda>w. bucket_claims (build_prefix prefix) (view w)" "\<lambda>w w'. view w' = view w"
  "\<lambda>w. kv_reliable K view \<and> readable (build_prefix prefix) (view w)" for K probe prefix view
proof (unfold_locales, goal_cases)
  case (1 w w')
  then show ?case by simp
next
  case (2 w pid)
  obtain w' where g: "GetJSON K unmarshal_claim (build_prefix prefix @ pid) w = (Inr (bucket_claims (build_prefix prefix) (view w) pid), w')"
    "view w' = view w" using reliable_getJSON[OF conjunct1[OF 2] conjunct2[OF 2], of pid] by blast
  have "n > 0" if "bucket_claims (build_prefix prefix) (view w) pid = Some (c, n)" for c n
    using 2 that by (auto simp: bucket_claims_def readable_def bucket_wf_def split: option.splits)
  then show ?case using g 2 by (cases "bucket_claims (build_prefix prefix) (view w) pid") (auto simp: nats_ops nats_Get_def)
next
  case (3 w pid epoch c)
  let ?p = "build_prefix prefix"
  obtain w1 where g: "GetJSON K unmarshal_claim (?p @ pid) w = (Inr (bucket_claims ?p (view w) pid), w1)" "view w1 = view w"
    using reliable_getJSON[OF conjunct1[OF 3(1)] conjunct2[OF 3(1)], of pid] by blast
  have w1: "readable ?p (view w1)" "kv_reliable K view" using 3(1) g(2) by auto
  show ?case
  proof (cases "bucket_claims ?p (view w) pid")
    case None
    then have "rev_at (view w1) (?p @ pid) = None" using w1(1) g(2) by (fastforce simp: bucket_claims_def readable_def rev_at_def split: option.splits)
    then obtain n w2 where "kv_Create K (?p @ pid) (VClaim c) w1 = (Inr n, w2)" "eff_put (?p @ pid) (VClaim c) (view w1) n (view w2)"
      using w1(2) unfolding kv_reliable_def by blast
    then show ?thesis using g None 3 w1 readable_put[OF w1(1)] claims_put
      by (auto simp: nats_ops nats_PutIfEpoch_def epoch_at_def Marshal_def)
  next
    case (Some a)
    then obtain c0 m where a: "bucket_claims ?p (view w) pid = Some (c0, m)" by (metis surj_pair)
    then have "rev_at (view w1) (?p @ pid) = Some m" using g(2) by (auto simp: bucket_claims_def rev_at_def split: option.splits)
    then obtain n w2 where "kv_Update K (?p @ pid) (VClaim c) m w1 = (Inr n, w2)" "eff_put (?p @ pid) (VClaim c) (view w1) n (view w2)"
      using w1(2) unfolding kv_reliable_def by blast
    then show ?thesis using g a 3 w1 readable_put[OF w1(1)] claims_put
      by (auto simp: nats_ops nats_PutIfEpoch_def epoch_at_def Marshal_def)
  qed
qed

text \<open>C9: on a claim bucket that answers every request and holds readable claims only, with no other
  writer and with a guard and an updater that succeed, the phases of \<open>Apply\<close> return without an error
  and leave every partition that is new to the worker (every partition, when an assignment version
  was skipped) stable, owned by the worker and with no pending owner, whatever its claim was.\<close>

theorem apply_completes:
  assumes "kv_reliable K view" "readable (build_prefix prefix) (view w)" "handoff_calm cfg (\<lambda>w w'. view w' = view w)"
    and "hc_Store cfg = Some (NewNATSClaimStoreWithProbe K probe prefix)" "wk \<noteq> []"
    and "distinct (map SubjectKey (as_Partitions nx))" "p \<in> set (as_Partitions nx)"
    and "HashID X p \<notin> HashID X ` set (as_Partitions prev) \<or> \<not> transitionVersionAdjacent prev nx"
  shows "\<exists>w' c n. apply_phases cfg X wk prev nx w = (None, w') \<and>
     bucket_claims (build_prefix prefix) (view w') (SubjectKey p) = Some (c, n) \<and> settled wk c"
  by (rule natsr.phases_complete[OF assms(3) conjI[OF assms(1,2)] assms(4-8)])

lemma mem_kv_reliable: "kv_reliable (mem_kv names) fst"
  by (auto simp: kv_reliable_def mem_kv_def mem_write_def eff_put_def Let_def)

theorem apply_completes_witness:
  "\<exists>w' c n. apply_phases hx_cfg hx_xxh3 ''w2'' empty_assignment hx_next hx_stale_world = (None, w') \<and>
     bucket_claims (build_prefix ''claims'') (fst w') ''p'' = Some (c, n) \<and> settled ''w2'' c"
proof -
  have 1: "readable (build_prefix ''claims'') (fst hx_stale_world)"
    by (auto simp: readable_def bucket_wf_def hx_stale_world_def unmarshal_claim_def)
  have 2: "handoff_calm hx_cfg (\<lambda>w w'. fst w' = fst w)" by (simp add: handoff_calm_def hx_cfg_def)
  have 3: "hc_Store hx_cfg = Some (NewNATSClaimStoreWithProbe (mem_kv [''claims/p'', ''claims/q'']) None ''claims'')"
    by (simp add: hx_cfg_def)
  have k: "SubjectKey \<lparr>Keys = [''p''], Weight = 1, Label = []\<rparr> = ''p''" by code_simp
  show ?thesis
    using apply_completes[OF mem_kv_reliable 1 2 3, of "''w2''" hx_next "\<lparr>Keys = [''p''], Weight = 1, Label = []\<rparr>" hx_xxh3 empty_assignment]
    by (simp add: hx_next_def empty_assignment_def k)
qed

end
