(* ===== verification/Handoff_Orphans.thy ===== *)
theory Handoff_Orphans
  imports Handoff_Safety
begin

text \<open>
  The grace period of an orphaned claim and the cadence of the background sweep. The steps of the
  coordinator that touch the orphan clocks are collected in a relation that records the history of
  vouched and unvouched live sets; every operation of the coordinator is a sequence of such steps,
  and a claim is deleted only when the history has the whole grace period of vouched absence.
\<close>

section \<open>History of the live set\<close>

text \<open>A live set that was vouched for at a time, or an event that breaks the continuity: an
  unvouched live set, a lost sweep authority, a deletion with an unknown outcome.\<close>

datatype vouch_event = Vouched time "string \<Rightarrow> bool" | Unvouched

text \<open>When a deletion is due, and when its outcome is unknown.\<close>

definition delete_due :: "'w handoff_cfg \<Rightarrow> string \<Rightarrow> claim \<Rightarrow> (string \<Rightarrow> bool) \<Rightarrow> time \<Rightarrow> coordinator \<Rightarrow> bool" where
  "delete_due cfg pid cur live t st \<longleftrightarrow> \<not> live pid \<and> State cur = ClaimStateStable \<and> PendingOwner cur = [] \<and>
     (\<exists>c. orphanAbsentSince st pid = Some c \<and> hc_OrphanGrace cfg \<le> time_sub t (oc_since c) \<and> oc_gen c = unvouchedGen st)"

definition ambiguous :: "kv_error option \<Rightarrow> bool" where
  "ambiguous e \<longleftrightarrow> e \<noteq> None \<and> e \<noteq> Some ErrKeyExists \<and> e \<noteq> Some ErrKeyNotFound"

definition vouching :: "'w handoff_cfg \<Rightarrow> bool" where
  "vouching cfg \<longleftrightarrow> 0 < hc_OrphanGrace cfg \<and> hc_LivePartitions cfg \<noteq> None"

text \<open>The history, latest event first, the live set and snapshot of the pass in progress, and the
  coordinator. The sampling of the authority may fall between any two steps of a pass.\<close>

inductive vouch_run ::
  "'w handoff_cfg \<Rightarrow> 'w claim_store \<Rightarrow> vouch_event list \<Rightarrow> ((string \<Rightarrow> bool) \<times> vouch_snapshot) option \<Rightarrow> coordinator \<Rightarrow> bool" for cfg S where
  run_new: "vouch_run cfg S [] None (new_coordinator cfg)"
| run_vouched: "vouch_run cfg S h p st \<Longrightarrow> resolveLiveSet cfg st w = ((live, True, v), st', w') \<Longrightarrow>
    vouch_run cfg S (Vouched (vs_now v) live # h) (Some (live, v)) st'"
| run_unvouched: "vouch_run cfg S h p st \<Longrightarrow> resolveLiveSet cfg st w = ((live, False, v), st', w') \<Longrightarrow>
    vouch_run cfg S (if vouching cfg then Unvouched # h else h) None st'"
| run_sample: "vouch_run cfg S h p st \<Longrightarrow> sampleAuthority cfg st w = (a, st', w') \<Longrightarrow>
    vouch_run cfg S (if a then h else Unvouched # h) p st'"
| run_reap: "vouch_run cfg S h (Some (live, v)) st \<Longrightarrow> maybeReapOrphan cfg S pid cur n live t v st w = (st', w') \<Longrightarrow>
    vouch_run cfg S (if delete_due cfg pid cur live t st \<and> ambiguous (fst (cs_Delete S pid n w)) then Unvouched # h else h) (Some (live, v)) st'"
| run_prune: "vouch_run cfg S h p st \<Longrightarrow> vouch_run cfg S h p (st\<lparr>orphanAbsentSince := (\<lambda>pid. if Q pid then orphanAbsentSince st pid else None)\<rparr>)"
| run_other: "vouch_run cfg S h p st \<Longrightarrow> orphanAbsentSince st' = orphanAbsentSince st \<Longrightarrow> unvouchedGen st' = unvouchedGen st \<Longrightarrow>
    vouch_run cfg S h p st'"

definition breaks :: "vouch_event list \<Rightarrow> nat" where
  "breaks h = length (filter (\<lambda>e. e = Unvouched) h)"

text \<open>The recent events \<open>h1\<close> never list \<open>pid\<close> as live, back to the event of the clock.\<close>

definition absent_since :: "string \<Rightarrow> time \<Rightarrow> u64 \<Rightarrow> u64 \<Rightarrow> vouch_event list \<Rightarrow> bool" where
  "absent_since pid t0 g gen h \<longleftrightarrow> (\<exists>h1 l0 h2. h = h1 @ Vouched t0 l0 # h2 \<and> \<not> l0 pid \<and>
     (\<forall>t l. Vouched t l \<in> set h1 \<longrightarrow> \<not> l pid) \<and> g + of_nat (breaks h1) = gen)"

definition clocks_ok :: "vouch_event list \<Rightarrow> ((string \<Rightarrow> bool) \<times> vouch_snapshot) option \<Rightarrow> coordinator \<Rightarrow> bool" where
  "clocks_ok h p st \<longleftrightarrow>
     (\<forall>pid c. orphanAbsentSince st pid = Some c \<longrightarrow> absent_since pid (oc_since c) (oc_gen c) (unvouchedGen st) h) \<and>
     (\<forall>live v pid. p = Some (live, v) \<longrightarrow> \<not> live pid \<longrightarrow> absent_since pid (vs_now v) (vs_gen v) (unvouchedGen st) h)"

lemma absent_vouch:
  assumes "absent_since pid t0 g gen h" "\<not> l pid"
  shows "absent_since pid t0 g gen (Vouched t l # h)"
proof -
  obtain h1 l0 h2 where "h = h1 @ Vouched t0 l0 # h2" "\<not> l0 pid" "\<forall>t l. Vouched t l \<in> set h1 \<longrightarrow> \<not> l pid" "g + of_nat (breaks h1) = gen"
    using assms(1) unfolding absent_since_def by blast
  then show ?thesis unfolding absent_since_def using assms(2)
    by (intro exI[of _ "Vouched t l # h1"] exI[of _ l0] exI[of _ h2]) (auto simp: breaks_def)
qed

lemma absent_break: "absent_since pid t0 g gen h \<Longrightarrow> absent_since pid t0 g (gen + 1) (Unvouched # h)"
proof -
  assume "absent_since pid t0 g gen h"
  then obtain h1 l0 h2 where "h = h1 @ Vouched t0 l0 # h2" "\<not> l0 pid" "\<forall>t l. Vouched t l \<in> set h1 \<longrightarrow> \<not> l pid" "g + of_nat (breaks h1) = gen"
    unfolding absent_since_def by blast
  then show ?thesis unfolding absent_since_def by (intro exI[of _ "Unvouched # h1"] exI[of _ l0] exI[of _ h2]) (auto simp: breaks_def)
qed

lemma absent_now: "\<not> l pid \<Longrightarrow> absent_since pid t0 g g (Vouched t0 l # h)"
  unfolding absent_since_def by (intro exI[of _ "[]"] exI[of _ l] exI[of _ h]) (auto simp: breaks_def)

lemma clocks_break: "clocks_ok h p st \<Longrightarrow> orphanAbsentSince st' = orphanAbsentSince st \<Longrightarrow> unvouchedGen st' = unvouchedGen st + 1 \<Longrightarrow>
    clocks_ok (Unvouched # h) p st'"
  by (auto simp: clocks_ok_def intro: absent_break)

lemma gen_step: "(g :: u64) + 1 \<noteq> g"
  by simp

lemma reap_clocks:
  assumes i: "clocks_ok h (Some (live, v)) st" and m: "maybeReapOrphan cfg S pid cur n live t v st w = (st', w')"
  shows "clocks_ok (if delete_due cfg pid cur live t st \<and> ambiguous (fst (cs_Delete S pid n w)) then Unvouched # h else h) (Some (live, v)) st'"
proof (cases "delete_due cfg pid cur live t st \<and> ambiguous (fst (cs_Delete S pid n w))")
  case True
  then have "st' = st\<lparr>unvouchedGen := unvouchedGen st + 1\<rparr>"
    using m by (auto simp: maybeReapOrphan_def delete_due_def ambiguous_def split: if_splits option.splits prod.splits)
  then show ?thesis using clocks_break[OF i] True by simp
next
  case False
  then consider "st' = st" | "st' = st\<lparr>orphanAbsentSince := (orphanAbsentSince st)(pid := None)\<rparr>"
    | "\<not> live pid" "st' = st\<lparr>orphanAbsentSince := (orphanAbsentSince st)(pid \<mapsto> \<lparr>oc_since = vs_now v, oc_gen = vs_gen v\<rparr>)\<rparr>"
    using m by (auto simp: maybeReapOrphan_def delete_due_def ambiguous_def split: if_splits option.splits prod.splits)
  then show ?thesis using False i by cases (auto simp: clocks_ok_def)
qed

lemma resolve_clocks:
  assumes i: "clocks_ok h p st" and r: "resolveLiveSet cfg st w = ((live, ok, v), st', w')"
  shows "clocks_ok (if ok then Vouched (vs_now v) live # h else if vouching cfg then Unvouched # h else h)
    (if ok then Some (live, v) else None) st'"
  using r i by (auto simp: resolveLiveSet_def Let_def clocks_ok_def vouching_def split: if_splits option.splits prod.splits
      intro: absent_now absent_vouch)

lemma vouch_clocks: "vouch_run cfg S h p st \<Longrightarrow> clocks_ok h p st"
proof (induction rule: vouch_run.induct)
  case run_new
  then show ?case by (simp add: clocks_ok_def new_coordinator_def)
next
  case (run_vouched h p st w live v st' w')
  then show ?case using resolve_clocks by fastforce
next
  case (run_unvouched h p st w live v st' w')
  then show ?case using resolve_clocks by fastforce
next
  case (run_sample h p st w a st' w')
  then show ?case using clocks_break by (auto simp: sampleAuthority_def split: option.splits prod.splits if_splits)
next
  case (run_reap h live v st pid cur n t w st' w')
  show ?case by (rule reap_clocks[OF run_reap.IH run_reap.hyps(2)])
next
  case (run_prune h p st Q)
  then show ?case by (auto simp: clocks_ok_def split: if_splits)
next
  case (run_other h p st st')
  then show ?case by (simp add: clocks_ok_def)
qed

section \<open>The operations of the coordinator\<close>

definition tracked :: "'w handoff_cfg \<Rightarrow> 'w claim_store \<Rightarrow> coordinator \<Rightarrow> bool" where
  "tracked cfg S st \<longleftrightarrow> (\<exists>h p. vouch_run cfg S h p st)"

lemma tracked_other: "tracked cfg S st \<Longrightarrow> orphanAbsentSince st' = orphanAbsentSince st \<Longrightarrow> unvouchedGen st' = unvouchedGen st \<Longrightarrow>
    tracked cfg S st'"
  unfolding tracked_def using run_other by blast

lemma tracked_prune: "tracked cfg S st \<Longrightarrow> tracked cfg S (st\<lparr>orphanAbsentSince := (\<lambda>pid. if Q pid then orphanAbsentSince st pid else None)\<rparr>)"
  unfolding tracked_def using run_prune[of cfg S _ _ st Q] by blast

text \<open>Inside a pass with the live set \<open>live\<close>.\<close>

definition in_pass :: "'w handoff_cfg \<Rightarrow> 'w claim_store \<Rightarrow> (string \<Rightarrow> bool) \<Rightarrow> bool \<Rightarrow> vouch_snapshot \<Rightarrow> coordinator \<Rightarrow> bool" where
  "in_pass cfg S live liveOK v st \<longleftrightarrow> (\<exists>h. vouch_run cfg S h (if liveOK then Some (live, v) else None) st)"

lemma in_pass_tracked: "in_pass cfg S live liveOK v st \<Longrightarrow> tracked cfg S st"
  by (auto simp: in_pass_def tracked_def)

lemma in_pass_resolve: "tracked cfg S st \<Longrightarrow> resolveLiveSet cfg st w = ((live, liveOK, v), st', w') \<Longrightarrow> in_pass cfg S live liveOK v st'"
  unfolding tracked_def in_pass_def using run_vouched[of cfg S] run_unvouched[of cfg S] by (cases liveOK) (simp, blast)+

lemma in_pass_claim:
  assumes "in_pass cfg S live liveOK v st" "sweepClaim cfg S pid cur n live liveOK t v st w = (st', w')"
  shows "in_pass cfg S live liveOK v st'"
proof (cases "liveOK \<and> sweepReconcile (Some cur) t = None")
  case True
  then obtain h where "vouch_run cfg S h (Some (live, v)) st" using assms(1) by (auto simp: in_pass_def)
  then show ?thesis using run_reap[of cfg S h live v st] assms(2) True by (fastforce simp: in_pass_def sweepClaim_def)
qed (use assms in \<open>auto simp: sweepClaim_def split: if_splits\<close>)

lemma in_pass_list: "in_pass cfg S live liveOK v st \<Longrightarrow>
    sweep_list cfg S live liveOK t v ks cache gf st w = (cache', gf', st', w') \<Longrightarrow> in_pass cfg S live liveOK v st'"
proof (induction ks arbitrary: cache gf st w)
  case (Cons pid ks)
  then show ?case by (auto split: prod.splits sum.splits if_splits dest: in_pass_claim)
qed simp

lemma in_pass_cached: "in_pass cfg S live liveOK v st \<Longrightarrow>
    sweep_cached cfg S live liveOK t v cs st w = (st', w') \<Longrightarrow> in_pass cfg S live liveOK v st'"
proof (induction cs arbitrary: st w)
  case (Cons c cs)
  then show ?case by (cases c) (auto split: prod.splits dest: in_pass_claim)
qed simp

lemma tracked_pass:
  assumes T: "tracked cfg S st" and p: "sweepPass cfg S t latch st w = (st', w')"
  shows "tracked cfg S st'"
proof -
  obtain r w1 where l: "cs_ListKeys S w = (r, w1)" by fastforce
  show ?thesis
  proof (cases "\<exists>k ks. r = Inr (k # ks)")
    case True
    then obtain k ks where r: "r = Inr (k # ks)" by blast
    obtain live liveOK v st2 w2 where v: "resolveLiveSet cfg st w1 = ((live, liveOK, v), st2, w2)" by (metis surj_pair)
    obtain cache gf st3 w3 where s: "sweep_list cfg S live liveOK t v (k # ks) [] False st2 w2 = (cache, gf, st3, w3)" by (metis surj_pair)
    have 3: "tracked cfg S st3" by (rule in_pass_tracked[OF in_pass_list[OF in_pass_resolve[OF T v] s]])
    have "st' = (let st = (if liveOK then pruneOrphanCandidates (k # ks) st3 else st3) in
        case latch of None \<Rightarrow> st | Some pos \<Rightarrow> if gf then st\<lparr>sweepCacheValid := False\<rparr> else latchCache cache pos st)"
      using p by (auto simp: sweepPass_def l r v s Let_def simp del: sweep_list.simps)
    moreover have "tracked cfg S (if liveOK then pruneOrphanCandidates (k # ks) st3 else st3)"
      using 3 tracked_prune[OF 3, of "\<lambda>pid. pid \<in> set (k # ks)"] by (simp add: pruneOrphanCandidates_def)
    ultimately show ?thesis by (auto simp: Let_def latchCache_def split: option.splits intro: tracked_other)
  next
    case False
    then show ?thesis using T p l
      by (auto simp: sweepPass_def latchCache_def split: sum.splits list.splits option.splits if_splits intro: tracked_other)
  qed
qed

lemma tracked_cachedPass:
  assumes T: "tracked cfg S st" and p: "sweepCachedPass cfg S t st w = (st', w')"
  shows "tracked cfg S st'"
proof -
  let ?st = "st\<lparr>sweepSkipsSinceFull := sweepSkipsSinceFull st + 1\<rparr>"
  have T1: "tracked cfg S ?st" by (rule tracked_other[OF T]) simp_all
  obtain live liveOK v st2 w2 where v: "resolveLiveSet cfg ?st w = ((live, liveOK, v), st2, w2)" by (metis surj_pair)
  obtain st3 w3 where s: "sweep_cached cfg S live liveOK t v (sweepCache st2) st2 w2 = (st3, w3)" by fastforce
  have 3: "tracked cfg S st3" by (rule in_pass_tracked[OF in_pass_cached[OF in_pass_resolve[OF T1 v] s]])
  show ?thesis using p T1 3 tracked_prune[OF 3, of "has_key (sweepCache st3)"]
    by (auto simp: sweepCachedPass_def Let_def v s split: if_splits)
qed

lemma tracked_probe: "tracked cfg S st \<Longrightarrow> sweepProbe S st w = (pos, b, st', w') \<Longrightarrow> tracked cfg S st'"
  by (auto simp: sweepProbe_def Check_def split: option.splits prod.splits sum.splits if_splits intro: tracked_other)

lemma tracked_ticker:
  assumes T: "tracked cfg S st"
    and m: "(case sweepProbe S st w of (pos, ok, st, w) \<Rightarrow>
      if ok \<and> sweepCacheValid st \<and> Same pos (sweepCachePos st) \<and> \<not> sweepSkipsSinceFull st \<ge> sweepMaxSkips st
      then (case hc_wait cfg sweepConfirmGap w of
              (True, w) \<Rightarrow> (True, st, w)
            | (False, w) \<Rightarrow> (case sweepProbe S st w of (pos2, ok2, st, w) \<Rightarrow>
                 if ok2 \<and> Same pos2 (sweepCachePos st) then (case sweepCachedPass cfg S t st w of (st, w) \<Rightarrow> (True, st, w))
                 else (case sweepPass cfg S t (if ok2 then Some pos2 else None) st w of (st, w) \<Rightarrow> (True, st\<lparr>sweepSkipsSinceFull := 0\<rparr>, w))))
      else (case sweepPass cfg S t (if ok then Some pos else None) st w of (st, w) \<Rightarrow> (True, st\<lparr>sweepSkipsSinceFull := 0\<rparr>, w))) = (b, st', w')"
  shows "tracked cfg S st'"
proof -
  obtain pos ok st1 w1 where p1: "sweepProbe S st w = (pos, ok, st1, w1)" by (metis surj_pair)
  obtain x w2 where w: "hc_wait cfg sweepConfirmGap w1 = (x, w2)" by fastforce
  obtain pos2 ok2 st2 w3 where p2: "sweepProbe S st1 w2 = (pos2, ok2, st2, w3)" by (metis surj_pair)
  have T1: "tracked cfg S st1" by (rule tracked_probe[OF T p1])
  have T2: "tracked cfg S st2" by (rule tracked_probe[OF T1 p2])
  have full: "tracked cfg S q" if "(case sweepPass cfg S t l st0 u of (st, w) \<Rightarrow> (True, st\<lparr>sweepSkipsSinceFull := 0\<rparr>, w)) = (b, q, w')"
    "tracked cfg S st0" for l st0 u q
    using that tracked_pass[OF that(2), of t l u] by (auto split: prod.splits intro: tracked_other)
  have cached: "tracked cfg S q" if "(case sweepCachedPass cfg S t st2 w3 of (st, w) \<Rightarrow> (True, st, w)) = (b, q, w')" for q
    using that tracked_cachedPass[OF T2, of t w3] by (auto split: prod.splits)
  show ?thesis using m T1 full[OF _ T1] full[OF _ T2] cached unfolding p1 split w
    by (cases x) (auto simp: p2 split: if_splits)
qed

lemma tracked_sweep:
  assumes T: "tracked cfg S st" and St: "hc_Store cfg = Some S" and m: "maybeSweepClaims cfg origin free st w = (b, st', w')"
  shows "tracked cfg S st'"
proof -
  obtain t w1 where n: "hc_Now cfg w = (t, w1)" by fastforce
  let ?st = "st\<lparr>lastSweep := Some t\<rparr>"
  have T1: "tracked cfg S ?st" by (rule tracked_other[OF T]) simp_all
  have plain: "tracked cfg S q" if "(case sweepPass cfg S t None ?st w1 of (st, w) \<Rightarrow> (True, st, w)) = (b, q, w')" for q
    using that tracked_pass[OF T1, of t None w1] by (auto split: prod.splits)
  consider "st' = st" | "(case sweepPass cfg S t None ?st w1 of (st, w) \<Rightarrow> (True, st, w)) = (b, st', w')"
    | "free" "\<not> (hc_SweepInterval cfg > 0 \<and> (case lastSweep st of None \<Rightarrow> False | Some l \<Rightarrow> time_sub t l < hc_SweepInterval cfg))"
      "\<not> (origin \<noteq> sweepOriginTicker \<or> \<not> prober ?st)"
    using m unfolding maybeSweepClaims_def St n option.case split Let_def by (auto split: if_splits)
  then show ?thesis
  proof cases
    case 3
    show ?thesis by (rule tracked_ticker[OF T1]) (use m 3 in \<open>simp add: maybeSweepClaims_def St n Let_def del: not_less\<close>)
  qed (use T plain in blast)+
qed

text \<open>The states that the ticks and the calls of \<open>Apply\<close> lead to.\<close>

inductive coord_run :: "'w handoff_cfg \<Rightarrow> xxh3 \<Rightarrow> coordinator \<Rightarrow> bool" for cfg X where
  coord_new: "coord_run cfg X (new_coordinator cfg)"
| coord_start: "coord_run cfg X st \<Longrightarrow> Start_sweep cfg st = (b, st') \<Longrightarrow> coord_run cfg X st'"
| coord_tick: "coord_run cfg X st \<Longrightarrow> on_tick cfg tick free st w = (b, st', w') \<Longrightarrow> coord_run cfg X st'"
| coord_apply: "coord_run cfg X st \<Longrightarrow> Apply cfg X free wk prev nx st w = (r, st', w') \<Longrightarrow> coord_run cfg X st'"

lemma tracked_tick:
  assumes T: "tracked cfg S st" and St: "hc_Store cfg = Some S" and m: "on_tick cfg tick free st w = (b, st', w')"
  shows "tracked cfg S st'"
proof -
  obtain a st1 w1 where s: "sampleAuthority cfg st w = (a, st1, w1)" by (metis surj_pair)
  have T1: "tracked cfg S st1" using T run_sample[OF _ s, of S] unfolding tracked_def by blast
  let ?st = "if \<not> a then st1\<lparr>backstopDue := True\<rparr> else st1"
  have T2: "tracked cfg S ?st" by (rule tracked_other[OF T1]) simp_all
  obtain c st3 w3 where p: "maybeSweepClaims cfg sweepOriginTicker free ?st w1 = (c, st3, w3)" by (metis surj_pair)
  have T3: "tracked cfg S st3" by (rule tracked_sweep[OF T2 St p])
  have "st' = st1 \<or> st' = st3 \<or> st' = st3\<lparr>backstopDue := False\<rparr>" using m by (auto simp: on_tick_def Let_def s p split: if_splits)
  then show ?thesis using T1 T3 tracked_other[OF T3, of "st3\<lparr>backstopDue := False\<rparr>"] by auto
qed

text \<open>Ticks of the sweep loop and calls of \<open>Apply\<close>, in any order and with any outcome of the store
  and the callbacks, change the orphan clocks only by the recorded steps.\<close>

lemma coordinator_tracked:
  assumes "hc_Store cfg = Some S" "coord_run cfg X st"
  shows "\<exists>h p. vouch_run cfg S h p st"
proof -
  have "tracked cfg S st" using assms(2)
  proof induction
    case coord_new
    then show ?case unfolding tracked_def using run_new by blast
  next
    case (coord_start st b st')
    then show ?case by (auto simp: Start_sweep_def split: if_splits intro: tracked_other)
  next
    case (coord_tick st tick free w b st' w')
    then show ?case using tracked_tick[OF _ assms(1)] by blast
  next
    case (coord_apply st free wk prev nx w r st' w')
    then show ?case using tracked_sweep[OF _ assms(1)] by (auto simp: Apply_def split: prod.splits)
  qed
  then show ?thesis by (simp add: tracked_def)
qed

definition hx_tick :: "bool \<times> coordinator \<times> claim_value mem_world" where
  "hx_tick = on_tick hx_cfg 1 True (new_coordinator hx_cfg) hx_stale_world"

section \<open>The grace period\<close>

lemma u64_of_nat: "n < 2 ^ 64 \<Longrightarrow> unat (of_nat n :: u64) = n"
  by (simp add: unat_of_nat)

lemma no_breaks:
  assumes "(g :: u64) + of_nat (breaks h) = g" "length h < 2 ^ 64" "e \<in> set h"
  shows "e \<noteq> Unvouched"
proof -
  have lt: "breaks h < 2 ^ 64" unfolding breaks_def by (rule le_less_trans[OF length_filter_le assms(2)])
  have "(of_nat (breaks h) :: u64) = 0" using assms(1) by simp
  then have "breaks h = 0" using u64_of_nat[OF lt] by simp
  then show ?thesis using assms(3) by (auto simp: breaks_def filter_empty_conv)
qed

text \<open>C19: a claim is deleted as an orphan only when it is settled and when the recorded history shows
  the grace period of uninterrupted absence: the partition was missing from a vouched live set at least
  \<open>OrphanGrace\<close> before the pass, it is missing from every live set since, and since then no live set
  was unvouched, no authority sample was negative and no deletion was ambiguous. (The generation
  counter has 64 bits; histories shorter than that are considered.)\<close>

theorem orphan_reap_needs_grace:
  assumes "vouch_run cfg S h (Some (live, v)) st" "length h < 2 ^ 64"
    and "maybeReapOrphan cfg S pid cur n live t v st w = (st', w')" "w' \<noteq> w"
  shows "State cur = ClaimStateStable \<and> PendingOwner cur = [] \<and> \<not> live pid \<and>
     (\<exists>h1 t0 l0 h2. h = h1 @ Vouched t0 l0 # h2 \<and> hc_OrphanGrace cfg \<le> time_sub t t0 \<and> \<not> l0 pid \<and>
        (\<forall>e \<in> set h1. \<exists>t l. e = Vouched t l \<and> \<not> l pid))"
proof -
  obtain c where c: "orphanAbsentSince st pid = Some c" "hc_OrphanGrace cfg \<le> time_sub t (oc_since c)" "oc_gen c = unvouchedGen st"
    and st: "State cur = ClaimStateStable" "PendingOwner cur = []" "\<not> live pid"
    using assms(3,4) by (auto simp: maybeReapOrphan_def split: if_splits option.splits)
  have "absent_since pid (oc_since c) (oc_gen c) (unvouchedGen st) h"
    using vouch_clocks[OF assms(1)] c(1) unfolding clocks_ok_def by blast
  then obtain h1 l0 h2 where h: "h = h1 @ Vouched (oc_since c) l0 # h2" "\<not> l0 pid" "\<forall>t l. Vouched t l \<in> set h1 \<longrightarrow> \<not> l pid"
    and g: "oc_gen c + of_nat (breaks h1) = oc_gen c" unfolding absent_since_def c(3) by blast
  have "\<exists>t l. e = Vouched t l \<and> \<not> l pid" if "e \<in> set h1" for e
    using no_breaks[OF g _ that] h(1,3) assms(2) that by (cases e) auto
  then show ?thesis using h(1,2) c(2) st by blast
qed

definition hx_orphans :: "claim_value mem_world handoff_cfg" where
  "hx_orphans = hx_cfg\<lparr>hc_LivePartitions := Some (\<lambda>w. ((\<lambda>_. False, True), w)), hc_OrphanGrace := 1000000000\<rparr>"

abbreviation hx_store :: "claim_value mem_world claim_store" where
  "hx_store \<equiv> NewNATSClaimStoreWithProbe (mem_kv [''claims/p'', ''claims/q'']) None ''claims''"

abbreviation hx_vouch :: "time \<Rightarrow> vouch_snapshot" where
  "hx_vouch t \<equiv> \<lparr>vs_now = t, vs_gen = 0\<rparr>"

definition hx_waiting :: coordinator where
  "hx_waiting = (new_coordinator hx_orphans)\<lparr>orphanAbsentSince := (\<lambda>_. None)(''p'' \<mapsto> \<lparr>oc_since = 100000000000, oc_gen = 0\<rparr>)\<rparr>"

lemma hx_history: "vouch_run hx_orphans hx_store [Vouched 200000000000 (\<lambda>_. False), Vouched 100000000000 (\<lambda>_. False)]
    (Some (\<lambda>_. False, hx_vouch 200000000000)) hx_waiting"
proof -
  have r: "resolveLiveSet hx_orphans st (b, t) = ((\<lambda>_. False, True, \<lparr>vs_now = t, vs_gen = unvouchedGen st\<rparr>), st, (b, t))" for st b t
    by (simp add: resolveLiveSet_def hx_orphans_def hx_cfg_def)
  have a: "vouch_run hx_orphans hx_store [Vouched 100000000000 (\<lambda>_. False)] (Some (\<lambda>_. False, hx_vouch 100000000000)) (new_coordinator hx_orphans)"
    using run_vouched[OF run_new r[of _ _ 100000000000], of hx_store] by (simp add: new_coordinator_def)
  have m: "maybeReapOrphan hx_orphans hx_store ''p'' ex_claim 1 (\<lambda>_. False) 100000000000 (hx_vouch 100000000000) (new_coordinator hx_orphans) hx_world =
      (hx_waiting, hx_world)"
    by (simp add: maybeReapOrphan_def ex_claim_def zero_claim_def new_coordinator_def hx_waiting_def)
  have "vouch_run hx_orphans hx_store [Vouched 100000000000 (\<lambda>_. False)] (Some (\<lambda>_. False, hx_vouch 100000000000)) hx_waiting"
    using run_reap[OF a m] by (simp add: delete_due_def new_coordinator_def)
  from run_vouched[OF this r[of _ _ 200000000000]] show ?thesis by (simp add: hx_waiting_def new_coordinator_def)
qed

theorem orphan_reap_needs_grace_witness:
  "\<exists>w'. maybeReapOrphan hx_orphans hx_store ''p'' ex_claim 1 (\<lambda>_. False) 200000000000 (hx_vouch 200000000000) hx_waiting hx_world =
      (new_coordinator hx_orphans, w') \<and>
    (\<exists>h1 t0 l0 h2. [Vouched 200000000000 (\<lambda>_. False), Vouched 100000000000 (\<lambda>_. False)] = h1 @ Vouched t0 l0 # h2 \<and>
       hc_OrphanGrace hx_orphans \<le> time_sub 200000000000 t0)"
proof -
  let ?w = "(\<lparr>bk_last = 2, bk_entries = (bk_entries (fst hx_world))(''claims/p'' := None)\<rparr>, 100000000000)"
  have m: "maybeReapOrphan hx_orphans hx_store ''p'' ex_claim 1 (\<lambda>_. False) 200000000000 (hx_vouch 200000000000) hx_waiting hx_world =
      (new_coordinator hx_orphans, ?w)"
    by (simp add: maybeReapOrphan_def ex_claim_def zero_claim_def hx_waiting_def new_coordinator_def hx_orphans_def hx_cfg_def
        nats_ops nats_Delete_def mem_kv_def hx_world_def rev_at_def build_prefix_def time_sub_def)
  have "?w \<noteq> hx_world" by (simp add: hx_world_def)
  from orphan_reap_needs_grace[OF hx_history _ m this] show ?thesis using m by auto
qed

section \<open>Cadence of the background sweep\<close>

lemma backstop_bounds: "1 \<le> backstopEveryFor i" "0 < i \<Longrightarrow> backstopEveryFor i \<le> followerBackstopTarget"
proof -
  show "1 \<le> backstopEveryFor i" by (simp add: backstopEveryFor_def)
  show "0 < i \<Longrightarrow> backstopEveryFor i \<le> followerBackstopTarget"
    using zdiv_mono2[of followerBackstopTarget 1 i]
    by (simp add: backstopEveryFor_def followerBackstopTarget_def go_div_def)
qed

text \<open>In every \<open>backstopEvery\<close> consecutive ticks of the sweep loop there is one at which a pass is
  attempted whatever the authority, the seed and the state of the coordinator are, as long as the tick
  counter does not overflow.\<close>

lemma backstop_cadence:
  assumes "0 < hc_SweepInterval cfg" "unat tick + 2 * nat (backstopEveryFor (hc_SweepInterval cfg)) \<le> 2 ^ 64"
  shows "\<exists>k < nat (backstopEveryFor (hc_SweepInterval cfg)). \<forall>free st w. fst (on_tick cfg (tick + of_nat k) free st w)"
proof -
  let ?B = "nat (backstopEveryFor (hc_SweepInterval cfg))"
  let ?b = "of_int (backstopEveryFor (hc_SweepInterval cfg)) :: u64"
  let ?phase = "hc_SweepPhaseSeed cfg mod ?b"
  have B: "0 < ?B" "?B < 2 ^ 64" using backstop_bounds(1)[of "hc_SweepInterval cfg"] backstop_bounds(2)[OF assms(1)]
    by (auto simp: followerBackstopTarget_def)
  have b: "unat ?b = ?B" using u64_of_nat[OF B(2)] B(1) by simp
  have p: "unat ?phase < ?B" using B(1) by (simp add: unat_mod b)
  obtain k where k: "k < ?B" "(unat tick + unat ?phase + k) mod ?B = 0"
  proof
    let ?r = "(unat tick + unat ?phase) mod ?B"
    show "(?B - ?r) mod ?B < ?B" using B(1) by simp
    have "?r < ?B" using B(1) by simp
    then have "(?r + (?B - ?r)) mod ?B = 0" by simp
    then show "(unat tick + unat ?phase + (?B - ?r) mod ?B) mod ?B = 0" by (simp add: mod_simps)
  qed
  have "unat (tick + of_nat k + ?phase) = unat tick + unat ?phase + k"
  proof -
    have "tick + of_nat k + ?phase = of_nat (unat tick + unat ?phase + k)" by simp
    moreover have "unat tick + unat ?phase + k < 2 ^ 64" using assms(2) k(1) p by linarith
    ultimately show ?thesis using u64_of_nat by metis
  qed
  then have "unat ((tick + of_nat k + ?phase) mod ?b) = 0" using k(2) by (simp add: unat_mod b)
  then have "(tick + of_nat k + ?phase) mod ?b = 0" by (simp add: unat_eq_zero)
  then have "fst (on_tick cfg (tick + of_nat k) free st w)" for free st w
    by (auto simp: on_tick_def Let_def split: prod.splits)
  then show ?thesis using k(1) by blast
qed

end
