(* ===== verification/Manager_State.thy ===== *)
theory Manager_State
  imports Partition_Types "HOL-Library.Multiset"
begin

text \<open>
  The state of the manager: \<^verbatim>\<open>manager_state.go\<close>, the startup helpers of
  \<^verbatim>\<open>manager_startup_async.go\<close>, the degraded mode of \<^verbatim>\<open>manager_degraded.go\<close> and the error
  classification of \<^verbatim>\<open>kv_error_classify.go\<close>. The operations come first, as functions; then the
  atomic steps of the goroutines that enter and leave the degraded mode as an interleaving model.
  Logging, hooks and metrics are left out.
\<close>

section \<open>States and transitions\<close>

datatype mgr_state =
    StateInit | StateClaimingID | StateElection | StateWaitingAssignment | StateStable | StateScaling
  | StateRebalancing | StateEmergency | StateDegraded | StateShutdown

fun validTransitions :: "mgr_state \<Rightarrow> mgr_state list" where
  "validTransitions StateInit = [StateClaimingID, StateShutdown]"
| "validTransitions StateClaimingID = [StateElection, StateShutdown]"
| "validTransitions StateElection = [StateWaitingAssignment, StateShutdown]"
| "validTransitions StateWaitingAssignment = [StateStable, StateScaling, StateRebalancing, StateEmergency, StateDegraded, StateShutdown]"
| "validTransitions StateStable = [StateScaling, StateRebalancing, StateEmergency, StateDegraded, StateShutdown]"
| "validTransitions StateScaling = [StateRebalancing, StateWaitingAssignment, StateStable, StateDegraded, StateShutdown]"
| "validTransitions StateRebalancing = [StateStable, StateWaitingAssignment, StateDegraded, StateShutdown]"
| "validTransitions StateEmergency = [StateStable, StateWaitingAssignment, StateDegraded, StateShutdown]"
| "validTransitions StateDegraded = [StateStable, StateShutdown]"
| "validTransitions StateShutdown = []"

definition isValidTransition :: "mgr_state \<Rightarrow> mgr_state \<Rightarrow> bool" where
  "isValidTransition from to \<longleftrightarrow> to \<in> set (validTransitions from)"

text \<open>The outcome of \<open>transitionState\<close> at the state in which its swap succeeds or it returns.\<close>

definition transitionState :: "mgr_state \<Rightarrow> mgr_state \<Rightarrow> bool \<times> mgr_state" where
  "transitionState to from =
     (if from = to then (True, from)
      else if \<not> isValidTransition from to then (False, from)
      else (True, to))"

definition isCalculatorOwnedActiveState :: "mgr_state \<Rightarrow> bool" where
  "isCalculatorOwnedActiveState s \<longleftrightarrow> s = StateScaling \<or> s = StateRebalancing \<or> s = StateEmergency"

definition casToStableFromWaitingAssignment :: "mgr_state \<Rightarrow> mgr_state" where
  "casToStableFromWaitingAssignment s = (if s = StateWaitingAssignment then StateStable else s)"

definition casToStableFromDegraded :: "mgr_state \<Rightarrow> bool \<times> mgr_state" where
  "casToStableFromDegraded s = (if s = StateDegraded then (True, StateStable) else (False, s))"

section \<open>Error window\<close>

text \<open>What the classifiers ask of an error value: \<open>errors.Is\<close> against the sentinels, and the
  whole-bucket-loss test.\<close>

record kv_op_error =
  is_StreamMissing :: bool
  is_KVUnavailable :: bool
  is_timeout :: bool \<comment> \<open>deadline exceeded or no responders\<close>
  isWholeBucketLoss :: bool

datatype kv_route = kvRouteDrop | kvRouteStreamMissing | kvRouteWindow

definition classifyKVError :: "kv_op_error option \<Rightarrow> kv_route \<times> bool" where
  "classifyKVError err =
     (case err of
        None \<Rightarrow> (kvRouteDrop, False)
      | Some e \<Rightarrow>
          if is_StreamMissing e then (kvRouteStreamMissing, False)
          else if \<not> isWholeBucketLoss e \<and> \<not> is_KVUnavailable e then (kvRouteDrop, False)
          else (kvRouteWindow, is_KVUnavailable e))"

definition markKVUnavailable :: "kv_op_error option \<Rightarrow> kv_op_error option" where
  "markKVUnavailable err =
     (case err of
        None \<Rightarrow> None
      | Some e \<Rightarrow>
          if isWholeBucketLoss e then Some e
          else if is_timeout e then Some (e\<lparr>is_KVUnavailable := True\<rparr>)
          else Some e)"

record kv_event =
  ev_at :: time
  ev_transient :: bool

definition windowLenInt32 :: "nat \<Rightarrow> int" where
  "windowLenInt32 n = (if int n > 2 ^ 31 - 1 then 2 ^ 31 - 1 else int n)"

section \<open>The manager\<close>

record degraded_record =
  dg_since :: time
  dg_reason :: string

record manager =
  mg_State :: mgr_state
  startupAssignmentApplied :: bool
  degraded :: "degraded_record option"
  kvErrorWindow :: "kv_event list"
  kvErrorCount :: int
  connDownSince :: int
  connUpSince :: int
  lastHeartbeatSuccessAt :: int
  lastEnumerationSuccessAt :: int
  streamMissingExhausted :: bool
  mg_isLeader :: bool
  recoveryGraceStart :: int
  inRecoveryGrace :: bool

record degraded_cfg =
  EnterThreshold :: duration
  ExitThreshold :: duration
  KVErrorWindow :: duration
  KVErrorThreshold :: int
  InfoThreshold :: duration
  WarnThreshold :: duration
  ErrorThreshold :: duration
  CriticalThreshold :: duration

definition DegradeReasonKVUnavailable :: string where "DegradeReasonKVUnavailable = ''kv-unavailable''"
definition DegradeReasonEnumerationStall :: string where "DegradeReasonEnumerationStall = ''heartbeat-enumeration-stall''"
definition DegradeReasonKVErrorThreshold :: string where "DegradeReasonKVErrorThreshold = ''KV error threshold exceeded''"
definition DegradeReasonNATSConnectionDown :: string where "DegradeReasonNATSConnectionDown = ''NATS connection down''"
definition DegradeReasonStreamMissingRecoveryExhausted :: string where
  "DegradeReasonStreamMissingRecoveryExhausted = ''stream-missing-recovery-exhausted''"
definition DegradeReasonStartupTimeout :: string where "DegradeReasonStartupTimeout = ''startup-timeout''"

definition enterDegraded :: "string \<Rightarrow> time \<Rightarrow> manager \<Rightarrow> manager" where
  "enterDegraded reason t m =
     (if mg_State m = StateShutdown then m
      else if degraded m \<noteq> None then m
      else case transitionState StateDegraded (mg_State m) of
             (False, s) \<Rightarrow> m\<lparr>degraded := None\<rparr>
           | (True, s) \<Rightarrow> m\<lparr>degraded := Some \<lparr>dg_since = t, dg_reason = reason\<rparr>, mg_State := s\<rparr>)"

definition enterRecoveryGracePeriod :: "time \<Rightarrow> manager \<Rightarrow> manager" where
  "enterRecoveryGracePeriod t m = m\<lparr>recoveryGraceStart := t, inRecoveryGrace := True\<rparr>"

definition exitRecoveryGracePeriod :: "manager \<Rightarrow> manager" where
  "exitRecoveryGracePeriod m =
     (if \<not> inRecoveryGrace m then m else m\<lparr>recoveryGraceStart := 0, inRecoveryGrace := False\<rparr>)"

definition exitDegraded :: "time \<Rightarrow> manager \<Rightarrow> manager" where
  "exitDegraded t m =
     (case degraded m of
        None \<Rightarrow> m
      | Some _ \<Rightarrow>
          (case casToStableFromDegraded (mg_State m) of
             (False, _) \<Rightarrow> m
           | (True, s) \<Rightarrow>
               let m = m\<lparr>mg_State := s, degraded := None\<rparr>
               in if mg_isLeader m then enterRecoveryGracePeriod t m else m))"

text \<open>\<open>recordKVError\<close> drops the events before the first one inside the window, the new one
  included.\<close>

definition recordKVError :: "degraded_cfg \<Rightarrow> kv_op_error option \<Rightarrow> time \<Rightarrow> manager \<Rightarrow> manager" where
  "recordKVError cfg err t m =
     (case classifyKVError err of
        (route, transient) \<Rightarrow>
          if route \<noteq> kvRouteWindow then m
          else if degraded m \<noteq> None then m
          else let window = kvErrorWindow m @ [\<lparr>ev_at = t, ev_transient = transient\<rparr>];
                   windowStart = t - KVErrorWindow cfg;
                   window = (if list_ex (\<lambda>e. ev_at e > windowStart) window
                             then dropWhile (\<lambda>e. \<not> ev_at e > windowStart) window else window);
                   count = windowLenInt32 (length window);
                   m = m\<lparr>kvErrorWindow := window, kvErrorCount := count\<rparr>
               in if count \<ge> KVErrorThreshold cfg
                  then enterDegraded (if transient then DegradeReasonKVUnavailable else DegradeReasonKVErrorThreshold) t m
                  else m)"

definition recordKVOpError :: "degraded_cfg \<Rightarrow> kv_op_error option \<Rightarrow> time \<Rightarrow> manager \<Rightarrow> manager" where
  "recordKVOpError cfg err t m = recordKVError cfg (markKVUnavailable err) t m"

definition recordKVSuccess :: "manager \<Rightarrow> manager" where
  "recordKVSuccess m = m\<lparr>kvErrorWindow := [], kvErrorCount := 0\<rparr>"

definition recordKVHealthyOp :: "time \<Rightarrow> manager \<Rightarrow> manager" where
  "recordKVHealthyOp t m =
     (let m = m\<lparr>lastHeartbeatSuccessAt := t\<rparr>
      in if degraded m \<noteq> None then m
         else if kvErrorWindow m = [] then m
         else let kept = filter (\<lambda>e. \<not> ev_transient e) (kvErrorWindow m)
              in m\<lparr>kvErrorWindow := kept, kvErrorCount := windowLenInt32 (length kept)\<rparr>)"

definition recoverySignalStalled :: "string \<Rightarrow> string \<Rightarrow> int \<Rightarrow> int \<Rightarrow> bool \<Rightarrow> manager \<Rightarrow> bool" where
  "recoverySignalStalled reason scopedReason sigAt since leaderOnly m \<longleftrightarrow>
     (if reason \<noteq> scopedReason then False
      else if leaderOnly \<and> \<not> mg_isLeader m then False
      else sigAt = 0 \<or> sigAt \<le> since)"

definition calculateAlertLevel :: "degraded_cfg \<Rightarrow> time \<Rightarrow> time \<Rightarrow> int" where
  "calculateAlertLevel cfg degradedSince t =
     (let d = time_sub t degradedSince
      in if d \<ge> CriticalThreshold cfg then 3
         else if d \<ge> ErrorThreshold cfg then 2
         else if d \<ge> WarnThreshold cfg then 1
         else if d \<ge> InfoThreshold cfg then 0
         else -1)"

section \<open>Synchronisation with the calculator\<close>

text \<open>\<open>calc\<close> is what \<open>GetState\<close> of the calculator returns.\<close>

definition markStartupAssignmentApplied :: "calc_state \<Rightarrow> manager \<Rightarrow> manager" where
  "markStartupAssignmentApplied calc m =
     (if startupAssignmentApplied m then m
      else let m = m\<lparr>startupAssignmentApplied := True, mg_State := casToStableFromWaitingAssignment (mg_State m)\<rparr>
           in if \<not> isCalculatorOwnedActiveState (mg_State m) then m
              else if calc \<noteq> CalcStateIdle then m
              else m\<lparr>mg_State := snd (transitionState StateStable (mg_State m))\<rparr>)"

definition syncStateFromCalculator :: "calc_state \<Rightarrow> manager \<Rightarrow> manager" where
  "syncStateFromCalculator calc m =
     (let cur = mg_State m
      in if cur = StateInit \<or> cur = StateClaimingID \<or> cur = StateElection \<or> cur = StateShutdown then m
         else if cur = StateWaitingAssignment \<and> calc = CalcStateIdle then m
         else let target = (case calc of
                    CalcStateIdle \<Rightarrow>
                      if \<not> isCalculatorOwnedActiveState cur then None
                      else if \<not> startupAssignmentApplied m then None
                      else Some StateStable
                  | CalcStateScaling \<Rightarrow> Some StateScaling
                  | CalcStateRebalancing \<Rightarrow> Some StateRebalancing
                  | CalcStateEmergency \<Rightarrow> Some StateEmergency)
              in case target of
                   None \<Rightarrow> m
                 | Some s \<Rightarrow> if cur \<noteq> s then m\<lparr>mg_State := snd (transitionState s (mg_State m))\<rparr> else m)"

text \<open>What \<open>stopCalculator\<close> does to the state; \<open>hasPartitions\<close> tells whether the current assignment
  is non-empty.\<close>

definition stop_calculator_state :: "bool \<Rightarrow> manager \<Rightarrow> manager" where
  "stop_calculator_state hasPartitions m =
     (if isCalculatorOwnedActiveState (mg_State m)
      then m\<lparr>mg_State := snd (transitionState (if hasPartitions then StateStable else StateWaitingAssignment) (mg_State m))\<rparr>
      else m)"

definition checkConnectionHealth :: "degraded_cfg \<Rightarrow> bool \<Rightarrow> time \<Rightarrow> (manager \<Rightarrow> manager) \<Rightarrow> manager \<Rightarrow> manager" where
  "checkConnectionHealth cfg isConnected t attemptRecovery m =
     (if \<not> isConnected
      then (if connDownSince m = 0 then m\<lparr>connDownSince := t, connUpSince := 0\<rparr>
            else if time_sub t (connDownSince m) \<ge> EnterThreshold cfg
            then enterDegraded DegradeReasonNATSConnectionDown t m
            else m)
      else if connUpSince m = 0 then m\<lparr>connUpSince := t, connDownSince := 0\<rparr>
      else if time_sub t (connUpSince m) \<ge> ExitThreshold cfg then attemptRecovery m
      else m)"

section \<open>Interleaving of entering and leaving\<close>

text \<open>Goroutines in flight: one that has checked for shutdown and is about to publish its record,
  one that has published it and is about to change the state, one that has loaded a record and is
  about to leave, one that has left and is about to clear the record, and one that has seen a state
  owned by the calculator and is about to call \<open>transitionState(StateStable)\<close> (\<open>stopCalculator\<close>,
  \<open>syncStateFromCalculator\<close>, \<open>markStartupAssignmentApplied\<close>).\<close>

datatype mgr_task = Entering degraded_record | Published | Leaving | Left | ToStable

record mgr_run =
  mr_State :: mgr_state
  mr_degraded :: "degraded_record option"
  mr_tasks :: "mgr_task multiset"

text \<open>With \<open>fresh\<close>, a goroutine that wants to go to \<open>StateStable\<close> does so only if the state is still
  one that the calculator owns; the code does not check that again.\<close>

inductive mgr_step :: "bool \<Rightarrow> mgr_run \<Rightarrow> mgr_run \<Rightarrow> bool" for fresh where
  enter_check: "mr_State s \<noteq> StateShutdown \<Longrightarrow> mgr_step fresh s (s\<lparr>mr_tasks := add_mset (Entering r) (mr_tasks s)\<rparr>)"
| enter_publish: "Entering r \<in># mr_tasks s \<Longrightarrow> mr_degraded s = None \<Longrightarrow>
    mgr_step fresh s (s\<lparr>mr_degraded := Some r, mr_tasks := add_mset Published (mr_tasks s - {#Entering r#})\<rparr>)"
| enter_lost: "Entering r \<in># mr_tasks s \<Longrightarrow> mr_degraded s \<noteq> None \<Longrightarrow> mgr_step fresh s (s\<lparr>mr_tasks := mr_tasks s - {#Entering r#}\<rparr>)"
| enter_done: "Published \<in># mr_tasks s \<Longrightarrow> transitionState StateDegraded (mr_State s) = (True, t) \<Longrightarrow>
    mgr_step fresh s (s\<lparr>mr_State := t, mr_tasks := mr_tasks s - {#Published#}\<rparr>)"
| enter_undo: "Published \<in># mr_tasks s \<Longrightarrow> transitionState StateDegraded (mr_State s) = (False, t) \<Longrightarrow>
    mgr_step fresh s (s\<lparr>mr_degraded := None, mr_tasks := mr_tasks s - {#Published#}\<rparr>)"
| exit_load: "mr_degraded s \<noteq> None \<Longrightarrow> Leaving \<notin># mr_tasks s \<Longrightarrow> Left \<notin># mr_tasks s \<Longrightarrow> mgr_step fresh s (s\<lparr>mr_tasks := add_mset Leaving (mr_tasks s)\<rparr>)"
| exit_swap: "Leaving \<in># mr_tasks s \<Longrightarrow> casToStableFromDegraded (mr_State s) = (True, t) \<Longrightarrow>
    mgr_step fresh s (s\<lparr>mr_State := t, mr_tasks := add_mset Left (mr_tasks s - {#Leaving#})\<rparr>)"
| exit_lost: "Leaving \<in># mr_tasks s \<Longrightarrow> casToStableFromDegraded (mr_State s) = (False, t) \<Longrightarrow>
    mgr_step fresh s (s\<lparr>mr_tasks := mr_tasks s - {#Leaving#}\<rparr>)"
| exit_clear: "Left \<in># mr_tasks s \<Longrightarrow> mgr_step fresh s (s\<lparr>mr_degraded := None, mr_tasks := mr_tasks s - {#Left#}\<rparr>)"
| stable_decide: "isCalculatorOwnedActiveState (mr_State s) \<Longrightarrow> mgr_step fresh s (s\<lparr>mr_tasks := add_mset ToStable (mr_tasks s)\<rparr>)"
| stable_move: "ToStable \<in># mr_tasks s \<Longrightarrow> fresh \<longrightarrow> isCalculatorOwnedActiveState (mr_State s) \<Longrightarrow>
    mgr_step fresh s (s\<lparr>mr_State := snd (transitionState StateStable (mr_State s)), mr_tasks := mr_tasks s - {#ToStable#}\<rparr>)"
| stable_start: "mgr_step fresh s (s\<lparr>mr_State := casToStableFromWaitingAssignment (mr_State s)\<rparr>)"
| other_state: "t \<noteq> StateStable \<Longrightarrow> t \<noteq> StateDegraded \<Longrightarrow> mgr_step fresh s (s\<lparr>mr_State := snd (transitionState t (mr_State s))\<rparr>)"

abbreviation mgr_init :: mgr_run where
  "mgr_init \<equiv> \<lparr>mr_State = StateInit, mr_degraded = None, mr_tasks = {#}\<rparr>"

definition mgr_reach :: "bool \<Rightarrow> mgr_run \<Rightarrow> bool" where
  "mgr_reach fresh s \<longleftrightarrow> (mgr_step fresh)\<^sup>*\<^sup>* mgr_init s"

text \<open>The degraded state and the record go together, up to the goroutine that is changing them.\<close>

definition record_ok :: "mgr_run \<Rightarrow> bool" where
  "record_ok s \<longleftrightarrow>
     (case mr_degraded s of
        None \<Rightarrow> count (mr_tasks s) Published = 0 \<and> count (mr_tasks s) Left = 0 \<and> mr_State s \<noteq> StateDegraded
      | Some r \<Rightarrow>
          count (mr_tasks s) Published + count (mr_tasks s) Left \<le> 1 \<and>
          (if count (mr_tasks s) Published + count (mr_tasks s) Left = 0
           then mr_State s = StateDegraded \<or> mr_State s = StateShutdown
           else mr_State s \<noteq> StateDegraded))"

lemma transition_degraded: "snd (transitionState t s) = StateDegraded \<Longrightarrow> t = StateDegraded \<or> s = StateDegraded"
  by (auto simp: transitionState_def split: if_splits)

lemma transition_fixed: "transitionState t StateShutdown = (t = StateShutdown, StateShutdown)"
  by (simp add: transitionState_def isValidTransition_def)

lemma transition_from_degraded: "t \<noteq> StateStable \<Longrightarrow> snd (transitionState t StateDegraded) \<in> {StateDegraded, StateShutdown}"
  by (auto simp: transitionState_def isValidTransition_def)

lemma transition_to_degraded: "transitionState StateDegraded s = (True, t) \<Longrightarrow> t = StateDegraded"
  by (auto simp: transitionState_def split: if_splits)

lemma record_step: "mgr_step True s s' \<Longrightarrow> record_ok s \<Longrightarrow> record_ok s'"
proof (induction rule: mgr_step.induct)
  case (enter_check s r)
  then show ?case by (auto simp: record_ok_def simp flip: count_greater_zero_iff split: option.splits if_splits)
next
  case (enter_publish r s)
  then show ?case by (auto simp: record_ok_def simp flip: count_greater_zero_iff)
next
  case (enter_lost r s)
  then show ?case by (auto simp: record_ok_def simp flip: count_greater_zero_iff split: option.splits if_splits)
next
  case (enter_done s t)
  then show ?case by (auto simp: record_ok_def simp flip: count_greater_zero_iff dest: transition_to_degraded split: option.splits if_splits)
next
  case (enter_undo s t)
  then show ?case by (auto simp: record_ok_def simp flip: count_greater_zero_iff split: option.splits if_splits)
next
  case (exit_load s)
  then show ?case by (auto simp: record_ok_def simp flip: count_greater_zero_iff split: option.splits if_splits)
next
  case (exit_swap s t)
  then show ?case by (auto simp: record_ok_def simp flip: count_greater_zero_iff simp: casToStableFromDegraded_def split: option.splits if_splits)
next
  case (exit_lost s t)
  then show ?case by (auto simp: record_ok_def simp flip: count_greater_zero_iff split: option.splits if_splits)
next
  case (exit_clear s)
  then show ?case by (auto simp: record_ok_def simp flip: count_greater_zero_iff split: option.splits if_splits)
next
  case (stable_decide s)
  then show ?case by (auto simp: record_ok_def simp flip: count_greater_zero_iff split: option.splits if_splits)
next
  case (stable_move s)
  then show ?case
    by (auto simp: record_ok_def simp flip: count_greater_zero_iff simp: isCalculatorOwnedActiveState_def transitionState_def isValidTransition_def split: option.splits if_splits)
next
  case (stable_start s)
  then show ?case by (auto simp: record_ok_def simp flip: count_greater_zero_iff simp: casToStableFromWaitingAssignment_def split: option.splits if_splits)
next
  case (other_state t s)
  then show ?case using transition_degraded[of t "mr_State s"] transition_from_degraded[of t] transition_fixed[of t]
    by (auto simp: record_ok_def simp flip: count_greater_zero_iff split: option.splits if_splits)
qed

lemma record_reach: "mgr_reach True s \<Longrightarrow> record_ok s"
  unfolding mgr_reach_def by (induction rule: rtranclp_induct) (simp add: record_ok_def, rule record_step)

text \<open>C39: provided a goroutine that has seen a calculator-owned state goes to \<open>StateStable\<close> only while
  that state lasts, the manager is degraded exactly while a degraded record is published, whenever no
  goroutine is in the middle of entering or leaving and the manager is not shut down.\<close>

theorem degraded_record_consistent:
  assumes "mgr_reach True s" "Published \<notin># mr_tasks s" "Left \<notin># mr_tasks s" "mr_State s \<noteq> StateShutdown"
  shows "mr_State s = StateDegraded \<longleftrightarrow> mr_degraded s \<noteq> None"
  using record_reach[OF assms(1)] assms(2-4) by (auto simp: record_ok_def not_in_iff split: option.splits)

text \<open>The states of the run that enters the degraded mode from \<open>StateScaling\<close>.\<close>

abbreviation mgr_at :: "mgr_state \<Rightarrow> degraded_record option \<Rightarrow> mgr_task multiset \<Rightarrow> mgr_run" where
  "mgr_at s r ts \<equiv> \<lparr>mr_State = s, mr_degraded = r, mr_tasks = ts\<rparr>"

lemma mgr_move: "t \<noteq> StateStable \<Longrightarrow> t \<noteq> StateDegraded \<Longrightarrow> isValidTransition s t \<Longrightarrow> mgr_step f (mgr_at s r ts) (mgr_at t r ts)"
  using other_state[of t f "mgr_at s r ts"] by (auto simp: transitionState_def split: if_splits)

lemma mgr_to_scaling: "mgr_reach f (mgr_at StateScaling None {#})"
proof -
  have v: "isValidTransition StateInit StateClaimingID" "isValidTransition StateClaimingID StateElection"
    "isValidTransition StateElection StateWaitingAssignment" "isValidTransition StateWaitingAssignment StateScaling"
    by (simp_all add: isValidTransition_def)
  have "(mgr_step f)\<^sup>*\<^sup>* mgr_init (mgr_at StateClaimingID None {#})" using mgr_move[OF _ _ v(1)] by auto
  moreover have "mgr_step f (mgr_at StateClaimingID None {#}) (mgr_at StateElection None {#})" using mgr_move[OF _ _ v(2)] by simp
  moreover have "mgr_step f (mgr_at StateElection None {#}) (mgr_at StateWaitingAssignment None {#})" using mgr_move[OF _ _ v(3)] by simp
  moreover have "mgr_step f (mgr_at StateWaitingAssignment None {#}) (mgr_at StateScaling None {#})" using mgr_move[OF _ _ v(4)] by simp
  ultimately show ?thesis unfolding mgr_reach_def by (meson rtranclp.rtrancl_into_rtrancl)
qed

lemma mgr_enters: "mgr_reach f (mgr_at StateScaling None ts) \<Longrightarrow> mgr_reach f (mgr_at StateDegraded (Some r) ts)"
proof -
  assume "mgr_reach f (mgr_at StateScaling None ts)"
  moreover have "mgr_step f (mgr_at StateScaling None ts) (mgr_at StateScaling None (add_mset (Entering r) ts))"
    using enter_check[of "mgr_at StateScaling None ts" f r] by simp
  moreover have "mgr_step f (mgr_at StateScaling None (add_mset (Entering r) ts)) (mgr_at StateScaling (Some r) (add_mset Published ts))"
    using enter_publish[of r "mgr_at StateScaling None (add_mset (Entering r) ts)" f] by simp
  moreover have "mgr_step f (mgr_at StateScaling (Some r) (add_mset Published ts)) (mgr_at StateDegraded (Some r) ts)"
    using enter_done[of "mgr_at StateScaling (Some r) (add_mset Published ts)" StateDegraded f]
    by (simp add: transitionState_def isValidTransition_def)
  ultimately show ?thesis unfolding mgr_reach_def by (meson rtranclp.rtrancl_into_rtrancl)
qed

theorem degraded_record_consistent_witness:
  "mgr_reach True (mgr_at StateDegraded (Some \<lparr>dg_since = 1, dg_reason = ''kv-unavailable''\<rparr>) {#}) \<and>
   (mr_State (mgr_at StateDegraded (Some \<lparr>dg_since = 1, dg_reason = ''kv-unavailable''\<rparr>) {#}) = StateDegraded \<longleftrightarrow>
    mr_degraded (mgr_at StateDegraded (Some \<lparr>dg_since = 1, dg_reason = ''kv-unavailable''\<rparr>) {#}) \<noteq> None)"
  using mgr_enters[OF mgr_to_scaling[of True], of "\<lparr>dg_since = 1, dg_reason = ''kv-unavailable''\<rparr>"] degraded_record_consistent by simp

text \<open>Once the record outlives the degraded state with nobody left to clear it, it stays.\<close>

definition wedged :: "mgr_run \<Rightarrow> bool" where
  "wedged s \<longleftrightarrow> mr_State s \<noteq> StateDegraded \<and> mr_degraded s \<noteq> None \<and> Published \<notin># mr_tasks s \<and> Left \<notin># mr_tasks s"

lemma wedged_step: "mgr_step f s s' \<Longrightarrow> wedged s \<Longrightarrow> wedged s'"
  by (induction rule: mgr_step.induct)
    (auto simp: wedged_def not_in_iff casToStableFromDegraded_def casToStableFromWaitingAssignment_def dest: transition_degraded)

lemma wedged_stays: "(mgr_step f)\<^sup>*\<^sup>* s s' \<Longrightarrow> wedged s \<Longrightarrow> wedged s'"
  by (induction rule: rtranclp_induct) (auto intro: wedged_step)

text \<open>C40: the code does not look at the state again before it goes to \<open>StateStable\<close>. If the manager
  enters the degraded mode in between, it is moved to \<open>StateStable\<close> while the record stays published,
  with no goroutine left to clear it; from then on it can never enter the degraded mode again.\<close>

theorem degraded_record_wedged:
  "\<exists>s. mgr_reach False s \<and> mr_tasks s = {#} \<and> mr_State s = StateStable \<and> mr_degraded s \<noteq> None \<and>
     (\<forall>s'. (mgr_step False)\<^sup>*\<^sup>* s s' \<longrightarrow> mr_State s' \<noteq> StateDegraded \<and> mr_degraded s' \<noteq> None)"
proof -
  let ?r = "\<lparr>dg_since = 1, dg_reason = ''kv-unavailable''\<rparr>"
  have "mgr_step False (mgr_at StateScaling None {#}) (mgr_at StateScaling None {#ToStable#})"
    using stable_decide[of "mgr_at StateScaling None {#}" False] by (simp add: isCalculatorOwnedActiveState_def)
  then have "mgr_reach False (mgr_at StateDegraded (Some ?r) {#ToStable#})"
    using mgr_to_scaling[of False] mgr_enters[of False "{#ToStable#}" ?r] unfolding mgr_reach_def by (meson rtranclp.rtrancl_into_rtrancl)
  moreover have "mgr_step False (mgr_at StateDegraded (Some ?r) {#ToStable#}) (mgr_at StateStable (Some ?r) {#})"
    using stable_move[of "mgr_at StateDegraded (Some ?r) {#ToStable#}" False] by (simp add: transitionState_def isValidTransition_def)
  ultimately have "mgr_reach False (mgr_at StateStable (Some ?r) {#})" unfolding mgr_reach_def by (rule rtranclp.rtrancl_into_rtrancl)
  moreover have "wedged (mgr_at StateStable (Some ?r) {#})" by (simp add: wedged_def)
  ultimately show ?thesis using wedged_stays[of False "mgr_at StateStable (Some ?r) {#}"] by (intro exI[of _ "mgr_at StateStable (Some ?r) {#}"]) (auto simp: wedged_def)
qed

theorem degraded_record_wedged_witness:
  "\<exists>s. mgr_reach False s \<and> mr_State s = StateStable \<and> mr_degraded s \<noteq> None"
  using degraded_record_wedged by blast

end
