(* ===== verification/Worker.thy ===== *)
theory Worker
  imports Publisher Handoff Manager_State
begin

text \<open>
  The worker side of the assignment protocol, \<^verbatim>\<open>manager_assignment.go\<close> with
  \<^verbatim>\<open>manager_select_authority.go\<close>, \<^verbatim>\<open>internal/assignment/commit_payload_fetch.go\<close> and the
  applied snapshot of \<^verbatim>\<open>internal/heartbeat/publisher.go\<close>: a commit is read, its payload fetched
  and verified, handed to the handoff coordinator and stored, with fences against stale leaders and
  stale retries. The handlers are functions on the state of the worker and a world; the coordinator,
  the claim store and the waits are parameters. Hooks, logging and metrics are left out.
\<close>

section \<open>Fetching a payload\<close>

datatype fetch_error =
    ErrCommitPayloadFetch kv_error
  | ErrCommitPayloadDecompress
  | ErrCommitPayloadHashMismatch string
  | ErrCommitPayloadDecode
  | ErrCommitPayloadDigestMismatch u64

text \<open>\<open>gz\<close> tells whether bytes that the publisher did not write are a valid gzip stream; of what the
  publisher writes only payloads are compressed. \<open>H\<close> is the hexadecimal SHA-256 of the decompressed
  bytes, as for the publisher.\<close>

definition gzip_ok :: "(bytes \<Rightarrow> bool) \<Rightarrow> asg_value \<Rightarrow> bool" where
  "gzip_ok gz v = (case v of VPayload _ \<Rightarrow> True | VRaw b \<Rightarrow> gz b | _ \<Rightarrow> False)"

definition FetchAndVerifyCommitPayload ::
  "(asg_value, 'w) kv \<Rightarrow> (bytes \<Rightarrow> bool) \<Rightarrow> (asg_value \<Rightarrow> string) \<Rightarrow> xxh3 \<Rightarrow> assignment_payload_ref \<Rightarrow> 'w \<Rightarrow>
     (fetch_error + assignment_payload) \<times> 'w" where
  "FetchAndVerifyCommitPayload K gz H X ref w =
     (case kv_Get K (ref_Key ref) w of
        (Inl err, w) \<Rightarrow> (Inl (ErrCommitPayloadFetch err), w)
      | (Inr entry, w) \<Rightarrow>
          let stored = ent_Value entry
          in if \<not> gzip_ok gz stored then (Inl ErrCommitPayloadDecompress, w)
             else if H stored \<noteq> ref_PayloadHash ref then (Inl (ErrCommitPayloadHashMismatch (H stored)), w)
             else case stored of
                    VPayload payload \<Rightarrow>
                      if PartitionSetDigest X (pl_Partitions payload) \<noteq> ref_SetDigest ref
                      then (Inl (ErrCommitPayloadDigestMismatch (PartitionSetDigest X (pl_Partitions payload))), w)
                      else (Inr payload, w)
                  | _ \<Rightarrow> (Inl ErrCommitPayloadDecode, w))"

section \<open>Authority\<close>

datatype authority = AuthorityNone | AuthorityCommit | AuthorityLegacyAlias

definition selectAuthority :: "assignment_commit option \<Rightarrow> assignment option \<Rightarrow> nat \<Rightarrow> authority" where
  "selectAuthority commit legacyEntry lastSeen =
     (case (commit, legacyEntry) of
        (Some c, None) \<Rightarrow> AuthorityCommit
      | (Some c, Some l) \<Rightarrow>
          if cm_LeaderRevision c \<ge> as_LeaderRevision l then AuthorityCommit
          else if as_LeaderRevision l \<ge> lastSeen \<and> as_LeaderRevision l > cm_LeaderRevision c then AuthorityLegacyAlias
          else AuthorityNone
      | (None, Some l) \<Rightarrow> if as_LeaderRevision l \<ge> lastSeen then AuthorityLegacyAlias else AuthorityNone
      | (None, None) \<Rightarrow> AuthorityNone)"

section \<open>Order of assignments and commits\<close>

definition isApplyResultStale :: "assignment \<Rightarrow> assignment \<Rightarrow> bool" where
  "isApplyResultStale candidate cur =
     (if as_Version candidate = 0 then as_Version cur \<noteq> 0
      else if as_Version candidate \<noteq> as_Version cur then as_Version candidate < as_Version cur
      else as_LeaderRevision candidate < as_LeaderRevision cur)"

definition sameAppliedIdentity :: "xxh3 \<Rightarrow> assignment \<Rightarrow> assignment \<Rightarrow> bool" where
  "sameAppliedIdentity X a b \<longleftrightarrow>
     PartitionSetDigest X (as_Partitions a) = PartitionSetDigest X (as_Partitions b) \<and>
     as_SourceRevisionKnown a = as_SourceRevisionKnown b \<and> as_SourceRevision a = as_SourceRevision b"

definition assignmentSupersedesForStash :: "xxh3 \<Rightarrow> assignment \<Rightarrow> assignment \<Rightarrow> bool" where
  "assignmentSupersedesForStash X candidate cur =
     (if as_Version candidate \<noteq> as_Version cur then as_Version candidate > as_Version cur
      else if as_LeaderRevision candidate \<noteq> as_LeaderRevision cur then as_LeaderRevision candidate > as_LeaderRevision cur
      else \<not> sameAppliedIdentity X candidate cur)"

definition commitSupersedesForStash :: "assignment_commit \<Rightarrow> assignment_commit \<Rightarrow> bool" where
  "commitSupersedesForStash candidate cur =
     (if cm_Version candidate \<noteq> cm_Version cur then cm_Version candidate > cm_Version cur
      else if cm_LeaderRevision candidate \<noteq> cm_LeaderRevision cur then cm_LeaderRevision candidate > cm_LeaderRevision cur
      else cm_BatchDigest candidate \<noteq> cm_BatchDigest cur \<or> cm_SourceRevisionKnown candidate \<noteq> cm_SourceRevisionKnown cur \<or>
           cm_SourceRevision candidate \<noteq> cm_SourceRevision cur)"

definition commitSupersedesAppliedForDrain :: "assignment_commit \<Rightarrow> assignment \<Rightarrow> bool" where
  "commitSupersedesAppliedForDrain pending applied =
     (if cm_Version pending \<noteq> as_Version applied then cm_Version pending > as_Version applied
      else if cm_LeaderRevision pending \<noteq> as_LeaderRevision applied then cm_LeaderRevision pending > as_LeaderRevision applied
      else cm_SourceRevisionKnown pending \<noteq> as_SourceRevisionKnown applied \<or> cm_SourceRevision pending \<noteq> as_SourceRevision applied)"

section \<open>The worker\<close>

text \<open>The applied snapshot of the heartbeat.\<close>

record applied_snapshot =
  ap_SchemaVersion :: nat
  ap_LeaderRevision :: nat
  ap_AppliedVersion :: i64
  ap_AppliedDigest :: u64
  ap_AppliedSourceRevision :: nat
  ap_AppliedSourceRevKnown :: bool
  ap_AppliedAt :: time

definition SetAppliedAssignment :: "applied_snapshot \<Rightarrow> applied_snapshot \<Rightarrow> applied_snapshot" where
  "SetAppliedAssignment snap cur =
     (if ap_AppliedVersion snap < ap_AppliedVersion cur then cur else snap\<lparr>ap_SchemaVersion := 1\<rparr>)"

record worker =
  wk_assignment :: assignment
  lastSeenLeaderRevision :: nat
  lastSeenAlias :: "assignment option"
  lastObservedCommit :: "assignment_commit option"
  pendingApplyInFlight :: bool
  stashedCommit :: "assignment_commit option"
  highestAcceptedTarget :: "(i64 \<times> nat) option"
  committedAssignment :: "assignment option"
  stashedApplyRetry :: "assignment option"
  applyRetryActive :: bool
  stashedFetchRetry :: "assignment_commit option"
  fetchRetryActive :: bool
  wk_applied :: applied_snapshot
  commitBatchCache :: "(i64 \<times> nat \<times> string list) option"
  wk_mgr :: manager

text \<open>The collaborators. \<open>wc_Apply\<close> is the handoff coordinator, \<open>wc_jitter\<close> the wait before an apply,
  which tells whether the context was cancelled, \<open>wc_PublishNow\<close> the heartbeat written after an apply
  and \<open>wc_calc\<close> the state of the calculator.\<close>

record 'w worker_cfg =
  wc_workerID :: string
  wc_assignmentKV :: "(asg_value, 'w) kv"
  wc_gz :: "bytes \<Rightarrow> bool"
  wc_hash :: "asg_value \<Rightarrow> string"
  wc_xxh3 :: xxh3
  wc_workerLabels :: "string list"
  wc_ApplyStartJitter :: duration
  wc_jitter :: "'w \<Rightarrow> bool \<times> 'w"
  wc_Apply :: "string \<Rightarrow> assignment \<Rightarrow> assignment \<Rightarrow> 'w \<Rightarrow> apply_error option \<times> 'w"
  wc_Now :: "'w \<Rightarrow> time \<times> 'w"
  wc_PublishNow :: "applied_snapshot \<Rightarrow> 'w \<Rightarrow> 'w"
  wc_calc :: "'w \<Rightarrow> calc_state \<times> 'w"
  wc_claimStore :: "'w claim_store option"
  wc_errorFlags :: "kv_error \<Rightarrow> kv_op_error" \<comment> \<open>what the classifiers say of an error of the store\<close>
  wc_epochMismatch :: "'w \<Rightarrow> bool \<times> 'w"
  wc_heartbeatUnavailable :: "'w \<Rightarrow> bool \<times> 'w"
  wc_degraded :: degraded_cfg

definition updateLastSeenLeaderRevision :: "nat \<Rightarrow> worker \<Rightarrow> worker" where
  "updateLastSeenLeaderRevision n st =
     (if n \<le> lastSeenLeaderRevision st then st else st\<lparr>lastSeenLeaderRevision := n\<rparr>)"

definition target_assignment :: "i64 \<times> nat \<Rightarrow> assignment" where
  "target_assignment t = empty_assignment\<lparr>as_Version := fst t, as_LeaderRevision := snd t\<rparr>"

definition raiseAcceptedTarget :: "i64 \<Rightarrow> nat \<Rightarrow> worker \<Rightarrow> worker" where
  "raiseAcceptedTarget v lr st =
     (case highestAcceptedTarget st of
        Some cur \<Rightarrow>
          if \<not> isApplyResultStale (target_assignment cur) (target_assignment (v, lr)) then st
          else st\<lparr>highestAcceptedTarget := Some (v, lr)\<rparr>
      | None \<Rightarrow> st\<lparr>highestAcceptedTarget := Some (v, lr)\<rparr>)"

definition committedAssignmentOrEmpty :: "worker \<Rightarrow> assignment" where
  "committedAssignmentOrEmpty st = (case committedAssignment st of Some c \<Rightarrow> c | None \<Rightarrow> empty_assignment)"

definition currentAssignmentApplied :: "xxh3 \<Rightarrow> assignment \<Rightarrow> worker \<Rightarrow> bool" where
  "currentAssignmentApplied X cur st \<longleftrightarrow>
     (let c = committedAssignmentOrEmpty st;
          srcOK = (\<not> as_SourceRevisionKnown cur \<or> as_SourceRevisionKnown c \<and> as_SourceRevision c = as_SourceRevision cur)
      in as_Version c = as_Version cur \<and> as_LeaderRevision c = as_LeaderRevision cur \<and> srcOK \<and>
         PartitionSetDigest X (as_Partitions c) = PartitionSetDigest X (as_Partitions cur))"

definition labelIncarnationMismatch :: "'w worker_cfg \<Rightarrow> assignment \<Rightarrow> bool" where
  "labelIncarnationMismatch cfg a = (if \<not> as_WorkerLabelsKnown a then False else as_WorkerLabels a \<noteq> wc_workerLabels cfg)"

section \<open>Apply\<close>

datatype worker_error = ErrLabelIncarnationRejected | JitterCancelled | ApplyFailed apply_error

definition scheduleApplyRetry :: "'w worker_cfg \<Rightarrow> assignment \<Rightarrow> worker \<Rightarrow> worker" where
  "scheduleApplyRetry cfg newAssignment st =
     (let st = (case stashedApplyRetry st of
                  Some cur \<Rightarrow>
                    if \<not> assignmentSupersedesForStash (wc_xxh3 cfg) newAssignment cur then st
                    else st\<lparr>stashedApplyRetry := Some newAssignment\<rparr>
                | None \<Rightarrow> st\<lparr>stashedApplyRetry := Some newAssignment\<rparr>)
      in st\<lparr>applyRetryActive := True\<rparr>)"

text \<open>The section under \<open>applyStoreMu\<close>, in two parts: the gates and the raise of the fence, which tell
  whether the coordinator is called, and what follows its success. \<open>t\<close> is the time of the
  acknowledgement.\<close>

definition core_gate :: "assignment \<Rightarrow> worker \<Rightarrow> bool \<times> worker" where
  "core_gate newAssignment st =
     (if isApplyResultStale newAssignment (wk_assignment st) then (False, st)
      else case highestAcceptedTarget st of
             Some fence \<Rightarrow>
               if isApplyResultStale newAssignment (target_assignment fence) then (False, st)
               else (True, raiseAcceptedTarget (as_Version newAssignment) (as_LeaderRevision newAssignment) st)
           | None \<Rightarrow> (True, raiseAcceptedTarget (as_Version newAssignment) (as_LeaderRevision newAssignment) st))"

definition core_store :: "xxh3 \<Rightarrow> assignment \<Rightarrow> time \<Rightarrow> worker \<Rightarrow> worker" where
  "core_store X newAssignment t st =
     (let st = updateLastSeenLeaderRevision (as_LeaderRevision newAssignment) st;
          st = st\<lparr>wk_assignment := newAssignment\<rparr>;
          st = st\<lparr>committedAssignment := Some newAssignment\<rparr>
      in st\<lparr>wk_applied := SetAppliedAssignment
             \<lparr>ap_SchemaVersion = 0, ap_LeaderRevision = as_LeaderRevision newAssignment,
              ap_AppliedVersion = as_Version newAssignment,
              ap_AppliedDigest = PartitionSetDigest X (as_Partitions newAssignment),
              ap_AppliedSourceRevision = as_SourceRevision newAssignment,
              ap_AppliedSourceRevKnown = as_SourceRevisionKnown newAssignment, ap_AppliedAt = t\<rparr>
             (wk_applied st)\<rparr>)"

definition applyAssignmentWithPrevCore ::
  "'w worker_cfg \<Rightarrow> assignment \<Rightarrow> worker \<Rightarrow> 'w \<Rightarrow> worker_error option \<times> worker \<times> 'w" where
  "applyAssignmentWithPrevCore cfg newAssignment st w =
     (case core_gate newAssignment st of
        (False, st) \<Rightarrow> (None, st, w)
      | (True, st) \<Rightarrow>
          (case wc_Apply cfg (wc_workerID cfg) (committedAssignmentOrEmpty st) newAssignment w of
             (Some err, w) \<Rightarrow> (Some (ApplyFailed err), scheduleApplyRetry cfg newAssignment st, w)
           | (None, w) \<Rightarrow>
               (case wc_Now cfg w of
                  (t, w) \<Rightarrow>
                    let st = core_store (wc_xxh3 cfg) newAssignment t st;
                        w = wc_PublishNow cfg (wk_applied st) w
                    in (case wc_calc cfg w of
                          (calc, w) \<Rightarrow> (None, st\<lparr>wk_mgr := markStartupAssignmentApplied calc (wk_mgr st)\<rparr>, w)))))"

definition applyAssignmentWithPrevSkipJitter ::
  "'w worker_cfg \<Rightarrow> assignment \<Rightarrow> worker \<Rightarrow> 'w \<Rightarrow> worker_error option \<times> worker \<times> 'w" where
  "applyAssignmentWithPrevSkipJitter cfg newAssignment st w =
     (if labelIncarnationMismatch cfg newAssignment then (Some ErrLabelIncarnationRejected, st, w)
      else applyAssignmentWithPrevCore cfg newAssignment st w)"

definition applyAssignment ::
  "'w worker_cfg \<Rightarrow> assignment \<Rightarrow> worker \<Rightarrow> 'w \<Rightarrow> worker_error option \<times> worker \<times> 'w" where
  "applyAssignment cfg newAssignment st w =
     (if labelIncarnationMismatch cfg newAssignment then (Some ErrLabelIncarnationRejected, st, w)
      else if wc_ApplyStartJitter cfg > 0
      then (case wc_jitter cfg w of
              (True, w) \<Rightarrow> (Some JitterCancelled, st, w)
            | (False, w) \<Rightarrow> applyAssignmentWithPrevCore cfg newAssignment st w)
      else applyAssignmentWithPrevCore cfg newAssignment st w)"

definition monotonicStore :: "assignment \<Rightarrow> worker \<Rightarrow> bool \<times> worker" where
  "monotonicStore newAssignment st =
     (if isApplyResultStale newAssignment (wk_assignment st) then (False, st)
      else (True, (updateLastSeenLeaderRevision (as_LeaderRevision newAssignment) st)\<lparr>wk_assignment := newAssignment\<rparr>))"

section \<open>Commits\<close>

definition buildAssignmentFromCommit ::
  "'w worker_cfg \<Rightarrow> assignment_commit \<Rightarrow> 'w \<Rightarrow> assignment option \<times> 'w" where
  "buildAssignmentFromCommit cfg commit w =
     (let base = empty_assignment\<lparr>as_Version := cm_Version commit, as_Lifecycle := cm_Lifecycle commit,
                   as_LeaderRevision := cm_LeaderRevision commit, as_SourceRevision := cm_SourceRevision commit,
                   as_SourceRevisionKnown := cm_SourceRevisionKnown commit, as_TotalWorkers := length (cm_Workers commit)\<rparr>
      in if wc_workerID cfg \<notin> set (cm_Workers commit) then (Some base, w)
         else case map_of (cm_Payloads commit) (wc_workerID cfg) of
                None \<Rightarrow> (None, w)
              | Some ref \<Rightarrow>
                  (case FetchAndVerifyCommitPayload (wc_assignmentKV cfg) (wc_gz cfg) (wc_hash cfg) (wc_xxh3 cfg) ref w of
                     (Inl _, w) \<Rightarrow> (None, w)
                   | (Inr payload, w) \<Rightarrow>
                       (Some (base\<lparr>as_Partitions := pl_Partitions payload, as_WorkerLabels := pl_WorkerLabels payload,
                          as_WorkerLabelsKnown := pl_WorkerLabelsKnown payload\<rparr>), w)))"

definition stashFetchRetryCandidate :: "assignment_commit \<Rightarrow> worker \<Rightarrow> worker" where
  "stashFetchRetryCandidate commit st =
     (case stashedFetchRetry st of
        Some cur \<Rightarrow> if \<not> commitSupersedesForStash commit cur then st else st\<lparr>stashedFetchRetry := Some commit\<rparr>
      | None \<Rightarrow> st\<lparr>stashedFetchRetry := Some commit\<rparr>)"

definition scheduleCommitFetchRetry :: "assignment_commit \<Rightarrow> worker \<Rightarrow> worker" where
  "scheduleCommitFetchRetry commit st = (stashFetchRetryCandidate commit st)\<lparr>fetchRetryActive := True\<rparr>"

definition stash_commit :: "assignment_commit \<Rightarrow> worker \<Rightarrow> worker" where
  "stash_commit commit st =
     (case stashedCommit st of
        Some prev \<Rightarrow> if \<not> commitSupersedesForStash commit prev then st else st\<lparr>stashedCommit := Some commit\<rparr>
      | None \<Rightarrow> st\<lparr>stashedCommit := Some commit\<rparr>)"

text \<open>The first component of the result is the commit to process next.\<close>

definition handleCommitValueOnce ::
  "'w worker_cfg \<Rightarrow> assignment_commit \<Rightarrow> worker \<Rightarrow> 'w \<Rightarrow> assignment_commit option \<times> worker \<times> 'w" where
  "handleCommitValueOnce cfg commit st w =
     (if cm_Version commit \<le> as_Version (wk_assignment st)
      then (None, updateLastSeenLeaderRevision (cm_LeaderRevision commit) (st\<lparr>lastObservedCommit := Some commit\<rparr>), w)
      else let lastSeen = lastSeenLeaderRevision st
           in if cm_LeaderRevision commit < lastSeen then (None, st, w)
              else let st = st\<lparr>lastObservedCommit := Some commit\<rparr>
                   in if selectAuthority (Some commit) (lastSeenAlias st) lastSeen \<noteq> AuthorityCommit then (None, st, w)
                      else if pendingApplyInFlight st then (None, stash_commit commit st, w)
                      else let st = raiseAcceptedTarget (cm_Version commit) (cm_LeaderRevision commit) (st\<lparr>pendingApplyInFlight := True\<rparr>)
                           in case buildAssignmentFromCommit cfg commit w of
                                (None, w) \<Rightarrow>
                                  let pending = stashedCommit st;
                                      st = st\<lparr>pendingApplyInFlight := False, stashedCommit := None\<rparr>
                                  in (case pending of
                                        Some c \<Rightarrow> if commitSupersedesForStash c commit then (Some c, st, w)
                                                 else (None, scheduleCommitFetchRetry commit st, w)
                                      | None \<Rightarrow> (None, scheduleCommitFetchRetry commit st, w))
                              | (Some newAssignment, w) \<Rightarrow>
                                  (case applyAssignment cfg newAssignment st w of
                                     (_, st, w) \<Rightarrow>
                                       let pending = stashedCommit st;
                                           st = st\<lparr>pendingApplyInFlight := False, stashedCommit := None\<rparr>
                                       in (case pending of
                                             Some c \<Rightarrow> if commitSupersedesAppliedForDrain c newAssignment then (Some c, st, w)
                                                      else (None, st, w)
                                           | None \<Rightarrow> (None, st, w))))"

lemma core_gate_stash: "stashedCommit (snd (core_gate a st)) = stashedCommit st"
  by (auto simp: core_gate_def raiseAcceptedTarget_def split: option.splits)

lemma core_stash: "applyAssignmentWithPrevCore cfg a st w = (r, st', w') \<Longrightarrow> stashedCommit st' = stashedCommit st"
  using core_gate_stash[of a st]
  by (auto simp: applyAssignmentWithPrevCore_def scheduleApplyRetry_def core_store_def updateLastSeenLeaderRevision_def Let_def
      split: prod.splits option.splits bool.splits if_splits)

lemma apply_stash: "applyAssignment cfg a st w = (r, st', w') \<Longrightarrow> stashedCommit st' = stashedCommit st"
  by (auto simp: applyAssignment_def dest: core_stash split: if_splits prod.splits bool.splits)

lemma drained_stash: "handleCommitValueOnce cfg c st w = (Some d, st', w') \<Longrightarrow> stashedCommit st = Some d \<and> stashedCommit st' = None"
  using apply_stash
  by (fastforce simp: handleCommitValueOnce_def Let_def raiseAcceptedTarget_def split: if_splits prod.splits option.splits)

text \<open>The loop ends because a round that hands a commit back has taken it from the stash.\<close>

function handleCommitValue :: "'w worker_cfg \<Rightarrow> assignment_commit option \<Rightarrow> worker \<Rightarrow> 'w \<Rightarrow> worker \<times> 'w" where
  "handleCommitValue cfg None st w = (st, w)"
| "handleCommitValue cfg (Some commit) st w =
     (case handleCommitValueOnce cfg commit st w of (next, st, w) \<Rightarrow> handleCommitValue cfg next st w)"
  by pat_completeness auto

termination
proof (relation "measure (\<lambda>(cfg, c, st, w). (if c = None then 0 else 2) + (if stashedCommit st = None then 0 else 1))")
  fix cfg :: "'w worker_cfg" and commit st w d y st' w'
  assume "(d, y) = handleCommitValueOnce cfg commit st w" "(st', w') = y"
  then have "handleCommitValueOnce cfg commit st w = (d, st', w')" by simp
  then show "((cfg, d, st', w'), (cfg, Some commit, st, w)) \<in>
      measure (\<lambda>(cfg, c, st, w). (if c = None then 0 else 2) + (if stashedCommit st = None then 0 else 1))"
    using drained_stash[of cfg commit st w] by (cases d) auto
qed simp

section \<open>Aliases\<close>

datatype watch_entry = EntryDelete | EntryPut asg_value

definition handleAssignmentEntry :: "'w worker_cfg \<Rightarrow> watch_entry \<Rightarrow> worker \<Rightarrow> 'w \<Rightarrow> worker \<times> 'w" where
  "handleAssignmentEntry cfg entry st w =
     (case entry of
        EntryDelete \<Rightarrow> (st, w)
      | EntryPut v \<Rightarrow>
          (case unmarshal_assignment v of
             None \<Rightarrow> (st, w)
           | Some newAssignment \<Rightarrow>
               let lastSeen = lastSeenLeaderRevision st
               in if as_LeaderRevision newAssignment \<noteq> 0 \<and> as_LeaderRevision newAssignment < lastSeen then (st, w)
                  else if as_Version (wk_assignment st) \<ge> as_Version newAssignment then (st, w)
                  else let st = raiseAcceptedTarget (as_Version newAssignment) (as_LeaderRevision newAssignment) st;
                           st = st\<lparr>lastSeenAlias := Some newAssignment\<rparr>
                       in if selectAuthority (lastObservedCommit st) (Some newAssignment) lastSeen \<noteq> AuthorityLegacyAlias
                          then (st, w)
                          else snd (applyAssignment cfg newAssignment st w)))"

definition decodeCommitEntry :: "watch_entry \<Rightarrow> assignment_commit option" where
  "decodeCommitEntry entry = (case entry of EntryDelete \<Rightarrow> None | EntryPut v \<Rightarrow> unmarshal_commit v)"

definition handleCommitEntry :: "'w worker_cfg \<Rightarrow> watch_entry \<Rightarrow> worker \<Rightarrow> 'w \<Rightarrow> worker \<times> 'w" where
  "handleCommitEntry cfg entry st w =
     (case decodeCommitEntry entry of None \<Rightarrow> (st, w) | Some commit \<Rightarrow> handleCommitValue cfg (Some commit) st w)"

section \<open>Refresh and recovery\<close>

datatype refresh_error = WorkerIDNotSet | RefreshGet kv_error | RefreshDecode

definition refreshAssignmentFromNATS :: "'w worker_cfg \<Rightarrow> worker \<Rightarrow> 'w \<Rightarrow> refresh_error option \<times> worker \<times> 'w" where
  "refreshAssignmentFromNATS cfg st w =
     (if wc_workerID cfg = [] then (Some WorkerIDNotSet, st, w)
      else case kv_Get (wc_assignmentKV cfg) (''assignment.'' @ wc_workerID cfg) w of
             (Inl err, w) \<Rightarrow> (Some (RefreshGet err), st, w)
           | (Inr entry, w) \<Rightarrow>
               (case unmarshal_assignment (ent_Value entry) of
                  None \<Rightarrow> (Some RefreshDecode, st, w)
                | Some cur \<Rightarrow> (None, snd (monotonicStore cur st), w)))"

definition refresh_flags :: "'w worker_cfg \<Rightarrow> refresh_error \<Rightarrow> kv_op_error" where
  "refresh_flags cfg e =
     (case e of
        RefreshGet err \<Rightarrow> wc_errorFlags cfg err
      | _ \<Rightarrow> \<lparr>is_StreamMissing = False, is_KVUnavailable = False, is_timeout = False, isWholeBucketLoss = False\<rparr>)"

definition attemptRecoveryFromDegraded :: "'w worker_cfg \<Rightarrow> worker \<Rightarrow> 'w \<Rightarrow> worker \<times> 'w" where
  "attemptRecoveryFromDegraded cfg st w =
     (case degraded (wk_mgr st) of
        None \<Rightarrow> (st, w)
      | Some rcd \<Rightarrow>
          (case refreshAssignmentFromNATS cfg st w of
             (Some err, st, w) \<Rightarrow>
               (case wc_Now cfg w of
                  (t, w) \<Rightarrow> (st\<lparr>wk_mgr := recordKVError (wc_degraded cfg) (Some (refresh_flags cfg err)) t (wk_mgr st)\<rparr>, w))
           | (None, st, w) \<Rightarrow>
               let st = st\<lparr>wk_mgr := recordKVSuccess (wk_mgr st)\<rparr>;
                   cur = wk_assignment st;
                   m = wk_mgr st
               in if \<not> currentAssignmentApplied (wc_xxh3 cfg) cur st then (scheduleApplyRetry cfg cur st, w)
                  else if dg_reason rcd = DegradeReasonStreamMissingRecoveryExhausted \<or> streamMissingExhausted m then (st, w)
                  else if recoverySignalStalled (dg_reason rcd) DegradeReasonKVUnavailable (lastHeartbeatSuccessAt m) (dg_since rcd) False m
                  then (st, w)
                  else (case wc_epochMismatch cfg w of
                          (True, w) \<Rightarrow> (st, w)
                        | (False, w) \<Rightarrow>
                            (case wc_heartbeatUnavailable cfg w of
                               (True, w) \<Rightarrow> (st, w)
                             | (False, w) \<Rightarrow>
                                 if recoverySignalStalled (dg_reason rcd) DegradeReasonEnumerationStall
                                      (lastEnumerationSuccessAt m) (dg_since rcd) True m
                                 then (st, w)
                                 else (case wc_Now cfg w of
                                         (t, w) \<Rightarrow> (st\<lparr>wk_mgr := exitDegraded t m\<rparr>, w))))))"

section \<open>Retry loops\<close>

text \<open>One round of a loop after its wait: the next backoff, or \<open>None\<close> when the loop ends. How the loop is
  started and ended beside the goroutines that stash is the subject of \<open>Retry_Loop\<close>.\<close>

definition grow_backoff :: "duration \<Rightarrow> duration" where
  "grow_backoff b = (if b < 30000000000 then (if b * 2 > 30000000000 then 30000000000 else b * 2) else b)"

definition apply_retry_round ::
  "'w worker_cfg \<Rightarrow> duration \<Rightarrow> worker \<Rightarrow> 'w \<Rightarrow> duration option \<times> worker \<times> 'w" where
  "apply_retry_round cfg b st w =
     (case stashedApplyRetry st of
        None \<Rightarrow> (None, st, w)
      | Some pending \<Rightarrow>
          (case applyAssignmentWithPrevSkipJitter cfg pending (st\<lparr>stashedApplyRetry := None\<rparr>) w of
             (Some _, st, w) \<Rightarrow> (Some (grow_backoff b), st, w)
           | (None, st, w) \<Rightarrow>
               if stashedApplyRetry st = None then (None, st, w) else (Some 1000000000, st, w)))"

definition fetch_retry_round ::
  "'w worker_cfg \<Rightarrow> duration \<Rightarrow> worker \<Rightarrow> 'w \<Rightarrow> duration option \<times> worker \<times> 'w" where
  "fetch_retry_round cfg b st w =
     (case stashedFetchRetry st of
        None \<Rightarrow> (None, st, w)
      | Some pending \<Rightarrow>
          let st = st\<lparr>stashedFetchRetry := None\<rparr>;
              fenced = (case highestAcceptedTarget st of
                          None \<Rightarrow> False
                        | Some fence \<Rightarrow> isApplyResultStale (target_assignment (cm_Version pending, cm_LeaderRevision pending))
                                         (target_assignment fence))
          in if fenced
             then (if stashedFetchRetry st = None then (None, st, w) else (Some 1000000000, st, w))
             else case buildAssignmentFromCommit cfg pending w of
                    (None, w) \<Rightarrow> (Some (grow_backoff b), stashFetchRetryCandidate pending st, w)
                  | (Some newAssignment, w) \<Rightarrow>
                      (case applyAssignmentWithPrevSkipJitter cfg newAssignment st w of
                         (_, st, w) \<Rightarrow>
                           if stashedFetchRetry st = None then (None, st, w) else (Some 1000000000, st, w)))"

section \<open>Removal guard\<close>

definition removedPartitions :: "partition list \<Rightarrow> partition list \<Rightarrow> partition list" where
  "removedPartitions previous next = filter (\<lambda>p. SubjectKey p \<notin> SubjectKey ` set next) previous"

definition diffPartitions :: "partition list \<Rightarrow> partition list \<Rightarrow> partition list \<times> partition list" where
  "diffPartitions oldPartitions newPartitions =
     (filter (\<lambda>p. ID p \<notin> ID ` set oldPartitions) newPartitions,
      filter (\<lambda>p. ID p \<notin> ID ` set newPartitions) oldPartitions)"

datatype guard_error =
    GuardCommitGet kv_error | GuardCommitDecode | GuardPayload string fetch_error | GuardClaimRead string store_error | ErrRemovalPending

definition readCommitEntry :: "'w worker_cfg \<Rightarrow> 'w \<Rightarrow> (guard_error + (assignment_commit \<times> nat) option) \<times> 'w" where
  "readCommitEntry cfg w =
     (case kv_Get (wc_assignmentKV cfg) (''assignment.'' @ commitKeyName) w of
        (Inl ErrKeyNotFound, w) \<Rightarrow> (Inr None, w)
      | (Inl err, w) \<Rightarrow> (Inl (GuardCommitGet err), w)
      | (Inr entry, w) \<Rightarrow>
          (case unmarshal_commit (ent_Value entry) of
             None \<Rightarrow> (Inl GuardCommitDecode, w)
           | Some commit \<Rightarrow> (Inr (Some (commit, ent_Revision entry)), w)))"

fun commit_batch_keys ::
  "'w worker_cfg \<Rightarrow> (string, assignment_payload_ref) gomap \<Rightarrow> string list \<Rightarrow> 'w \<Rightarrow> (guard_error + string list) \<times> 'w" where
  "commit_batch_keys cfg [] batch w = (Inr batch, w)"
| "commit_batch_keys cfg ((_, ref) # refs) batch w =
     (case FetchAndVerifyCommitPayload (wc_assignmentKV cfg) (wc_gz cfg) (wc_hash cfg) (wc_xxh3 cfg) ref w of
        (Inl err, w) \<Rightarrow> (Inl (GuardPayload (ref_Key ref) err), w)
      | (Inr payload, w) \<Rightarrow> commit_batch_keys cfg refs (batch @ map SubjectKey (pl_Partitions payload)) w)"

definition commitPartitionBatch :: "'w worker_cfg \<Rightarrow> assignment_commit \<Rightarrow> 'w \<Rightarrow> (guard_error + string list) \<times> 'w" where
  "commitPartitionBatch cfg commit w = commit_batch_keys cfg (cm_Payloads commit) [] w"

definition currentCommitPartitionSet ::
  "'w worker_cfg \<Rightarrow> i64 \<Rightarrow> worker \<Rightarrow> 'w \<Rightarrow> (guard_error + string list) \<times> worker \<times> 'w" where
  "currentCommitPartitionSet cfg version st w =
     (case readCommitEntry cfg w of
        (Inl err, w) \<Rightarrow> (Inl err, st, w)
      | (Inr None, w) \<Rightarrow> (Inr [], st, w)
      | (Inr (Some (commit, n)), w) \<Rightarrow>
          if cm_Version commit \<noteq> version then (Inr [], st, w)
          else (case commitBatchCache st of
                  Some (v, r, batch) \<Rightarrow>
                    if v = version \<and> r = n then (Inr batch, st, w)
                    else (case commitPartitionBatch cfg commit w of
                            (Inl err, w) \<Rightarrow> (Inl err, st, w)
                          | (Inr batch, w) \<Rightarrow> (Inr batch, st\<lparr>commitBatchCache := Some (version, n, batch)\<rparr>, w))
                | None \<Rightarrow>
                    (case commitPartitionBatch cfg commit w of
                       (Inl err, w) \<Rightarrow> (Inl err, st, w)
                     | (Inr batch, w) \<Rightarrow> (Inr batch, st\<lparr>commitBatchCache := Some (version, n, batch)\<rparr>, w))))"

definition committed_elsewhere :: "string \<Rightarrow> claim \<Rightarrow> nat \<Rightarrow> bool" where
  "committed_elsewhere workerID c n \<longleftrightarrow>
     n \<noteq> 0 \<and> Owner c \<noteq> [] \<and> Owner c \<noteq> workerID \<and> (State c = ClaimStateCommit \<or> State c = ClaimStateStable)"

fun guard_claims ::
  "'w claim_store \<Rightarrow> string \<Rightarrow> string list \<Rightarrow> partition list \<Rightarrow> 'w \<Rightarrow> guard_error option \<times> 'w" where
  "guard_claims S workerID batch [] w = (None, w)"
| "guard_claims S workerID batch (p # ps) w =
     (let pid = SubjectKey p
      in if pid \<notin> set batch then guard_claims S workerID batch ps w
         else case cs_Get S pid w of
                (Inl err, w) \<Rightarrow> (Some (GuardClaimRead pid err), w)
              | (Inr (c, n), w) \<Rightarrow>
                  if \<not> committed_elsewhere workerID c n then (Some ErrRemovalPending, w)
                  else guard_claims S workerID batch ps w)"

definition guardHandoffRemoval ::
  "'w worker_cfg \<Rightarrow> string \<Rightarrow> assignment \<Rightarrow> assignment \<Rightarrow> worker \<Rightarrow> 'w \<Rightarrow> guard_error option \<times> worker \<times> 'w" where
  "guardHandoffRemoval cfg workerID previous next st w =
     (let removed = removedPartitions (as_Partitions previous) (as_Partitions next)
      in if removed = [] then (None, st, w)
         else case currentCommitPartitionSet cfg (as_Version next) st w of
                (Inl err, st, w) \<Rightarrow> (Some err, st, w)
              | (Inr batch, st, w) \<Rightarrow>
                  if batch = [] then (None, st, w)
                  else case wc_claimStore cfg of
                         None \<Rightarrow> (None, st, w)
                       | Some S \<Rightarrow> (case guard_claims S workerID batch removed w of (e, w) \<Rightarrow> (e, st, w)))"

section \<open>Debouncing\<close>

definition commitContainsWorker :: "assignment_commit \<Rightarrow> string \<Rightarrow> bool" where
  "commitContainsWorker c workerID \<longleftrightarrow> workerID \<in> set (cm_Workers c)"

definition zero_ref :: assignment_payload_ref where
  "zero_ref = \<lparr>ref_Key = [], ref_PayloadHash = [], ref_SetDigest = 0, ref_Revision = 0\<rparr>"

definition workerAssignmentChanged :: "assignment_commit \<Rightarrow> assignment_commit \<Rightarrow> string \<Rightarrow> bool" where
  "workerAssignmentChanged prev next workerID =
     (let prevHas = commitContainsWorker prev workerID;
          nextHas = commitContainsWorker next workerID
      in if prevHas \<noteq> nextHas then True
         else if \<not> prevHas then False
         else ref_PayloadHash (map_get zero_ref (cm_Payloads prev) workerID) \<noteq>
              ref_PayloadHash (map_get zero_ref (cm_Payloads next) workerID))"

record debouncer =
  db_debounce :: bool
  db_workerID :: string
  db_pending :: "assignment_commit option"

definition newCommitDebouncer :: "duration \<Rightarrow> string \<Rightarrow> debouncer" where
  "newCommitDebouncer window workerID = \<lparr>db_debounce = (window > 0), db_workerID = workerID, db_pending = None\<rparr>"

text \<open>The commits that are dispatched, and the debouncer.\<close>

definition stage :: "assignment_commit \<Rightarrow> debouncer \<Rightarrow> assignment_commit list \<times> debouncer" where
  "stage commit d =
     (if \<not> db_debounce d then ([commit], d)
      else case db_pending d of
             None \<Rightarrow> ([], d\<lparr>db_pending := Some commit\<rparr>)
           | Some p \<Rightarrow>
               if cm_Version commit < cm_Version p then ([], d)
               else if workerAssignmentChanged p commit (db_workerID d) then ([p], d\<lparr>db_pending := Some commit\<rparr>)
               else ([], d\<lparr>db_pending := Some commit\<rparr>))"

definition flush :: "debouncer \<Rightarrow> assignment_commit list \<times> debouncer" where
  "flush d = (case db_pending d of None \<Rightarrow> ([], d) | Some p \<Rightarrow> ([p], d\<lparr>db_pending := None\<rparr>))"

section \<open>Fleet size\<close>

record fleet =
  lastFleetVersion :: i64
  lastFleetLeaderRev :: nat
  lastObservedN :: int

text \<open>The worker count to which the limiters are retuned, if any.\<close>

definition observeFleetSizeN :: "i64 \<Rightarrow> nat \<Rightarrow> int \<Rightarrow> nat \<Rightarrow> fleet \<Rightarrow> int option \<times> fleet" where
  "observeFleetSizeN version leaderRev n lastSeen f =
     (let n = (if n < 1 then 1 else n)
      in if leaderRev \<noteq> 0 \<and> leaderRev < lastSeen then (None, f)
         else if version < lastFleetVersion f \<or> version = lastFleetVersion f \<and> leaderRev \<le> lastFleetLeaderRev f then (None, f)
         else let f = f\<lparr>lastFleetVersion := version, lastFleetLeaderRev := leaderRev\<rparr>
              in if n = lastObservedN f then (None, f) else (Some n, f\<lparr>lastObservedN := n\<rparr>))"

definition observeFleetSize :: "assignment_commit \<Rightarrow> nat \<Rightarrow> fleet \<Rightarrow> int option \<times> fleet" where
  "observeFleetSize commit lastSeen f =
     observeFleetSizeN (cm_Version commit) (cm_LeaderRevision commit) (int (length (cm_Workers commit))) lastSeen f"

end
