(* ===== verification/Worker_Safety.thy ===== *)
theory Worker_Safety
  imports Worker Publisher_Safety Handoff_Safety
begin

text \<open>
  What the worker guarantees. The goroutines of a worker (commit watcher, alias watcher, the two retry
  loops, the recovery) share its state; their atomic steps are collected in a relation, in which the
  section under \<open>applyStoreMu\<close> is split at the call of the coordinator. Every handler is a sequence of
  such steps, so the invariant of the relation holds for every interleaving of the handlers.
\<close>

section \<open>Steps\<close>

text \<open>The state and the candidate that the holder of \<open>applyStoreMu\<close> has handed to the coordinator.\<close>

record worker_run =
  wr_st :: worker
  wr_core :: "assignment option"

definition guarded_fields :: "worker \<Rightarrow> assignment \<times> nat \<times> (i64 \<times> nat) option \<times> assignment option \<times> applied_snapshot" where
  "guarded_fields st = (wk_assignment st, lastSeenLeaderRevision st, highestAcceptedTarget st, committedAssignment st, wk_applied st)"

inductive worker_step :: "'w worker_cfg \<Rightarrow> worker_run \<Rightarrow> worker_run \<Rightarrow> bool" for cfg where
  see_leader: "worker_step cfg r (r\<lparr>wr_st := updateLastSeenLeaderRevision n (wr_st r)\<rparr>)"
| raise: "0 < v \<Longrightarrow> worker_step cfg r (r\<lparr>wr_st := raiseAcceptedTarget v lr (wr_st r)\<rparr>)"
| gate: "wr_core r = None \<Longrightarrow> core_gate a (wr_st r) = (True, st) \<Longrightarrow> worker_step cfg r (r\<lparr>wr_st := st, wr_core := Some a\<rparr>)"
| fail: "wr_core r = Some a \<Longrightarrow> worker_step cfg r (r\<lparr>wr_st := scheduleApplyRetry cfg a (wr_st r), wr_core := None\<rparr>)"
| store: "wr_core r = Some a \<Longrightarrow> worker_step cfg r (r\<lparr>wr_st := core_store (wc_xxh3 cfg) a t (wr_st r), wr_core := None\<rparr>)"
| refresh: "wr_core r = None \<Longrightarrow> worker_step cfg r (r\<lparr>wr_st := snd (monotonicStore a (wr_st r))\<rparr>)"
| other: "guarded_fields st = guarded_fields (wr_st r) \<Longrightarrow> worker_step cfg r (r\<lparr>wr_st := st\<rparr>)"

abbreviation worker_steps :: "'w worker_cfg \<Rightarrow> worker_run \<Rightarrow> worker_run \<Rightarrow> bool" where
  "worker_steps cfg \<equiv> (worker_step cfg)\<^sup>*\<^sup>*"

abbreviation free :: "worker \<Rightarrow> worker_run" where
  "free st \<equiv> \<lparr>wr_st = st, wr_core = None\<rparr>"

section \<open>Invariant\<close>

lemma stale_refl [simp]: "\<not> isApplyResultStale a a"
  by (simp add: isApplyResultStale_def)

lemma not_stale_trans: "\<not> isApplyResultStale b a \<Longrightarrow> \<not> isApplyResultStale c b \<Longrightarrow> \<not> isApplyResultStale c a"
  by (auto simp: isApplyResultStale_def split: if_splits)

lemma not_stale_version: "\<not> isApplyResultStale b a \<Longrightarrow> as_Version a \<le> as_Version b"
  by (auto simp: isApplyResultStale_def split: if_splits)

definition ack_of :: "xxh3 \<Rightarrow> assignment \<Rightarrow> applied_snapshot \<Rightarrow> bool" where
  "ack_of X a s \<longleftrightarrow>
     ap_AppliedVersion s = as_Version a \<and> ap_LeaderRevision s = as_LeaderRevision a \<and>
     ap_AppliedDigest s = PartitionSetDigest X (as_Partitions a) \<and>
     ap_AppliedSourceRevision s = as_SourceRevision a \<and> ap_AppliedSourceRevKnown s = as_SourceRevisionKnown a \<and> ap_SchemaVersion s = 1"

definition fence_ok :: "(i64 \<times> nat) option \<Rightarrow> bool" where
  "fence_ok f \<longleftrightarrow> (case f of None \<Rightarrow> True | Some t \<Rightarrow> 0 \<le> fst t)"

definition fence_at_least :: "assignment \<Rightarrow> (i64 \<times> nat) option \<Rightarrow> bool" where
  "fence_at_least a f \<longleftrightarrow> (case f of None \<Rightarrow> False | Some t \<Rightarrow> \<not> isApplyResultStale (target_assignment t) a)"

definition worker_inv :: "xxh3 \<Rightarrow> worker_run \<Rightarrow> bool" where
  "worker_inv X r \<longleftrightarrow>
     (let st = wr_st r
      in 0 \<le> as_Version (wk_assignment st) \<and> fence_ok (highestAcceptedTarget st) \<and>
         as_LeaderRevision (wk_assignment st) \<le> lastSeenLeaderRevision st \<and>
         (case committedAssignment st of
            None \<Rightarrow> ap_AppliedVersion (wk_applied st) = 0
          | Some a \<Rightarrow> ack_of X a (wk_applied st) \<and> \<not> isApplyResultStale (wk_assignment st) a \<and>
                      fence_at_least a (highestAcceptedTarget st)) \<and>
         (case wr_core r of
            None \<Rightarrow> True
          | Some a \<Rightarrow> \<not> isApplyResultStale a (wk_assignment st) \<and> fence_at_least a (highestAcceptedTarget st)))"

definition fence_le :: "(i64 \<times> nat) option \<Rightarrow> (i64 \<times> nat) option \<Rightarrow> bool" where
  "fence_le f g \<longleftrightarrow> (case f of None \<Rightarrow> True | Some t \<Rightarrow> fence_at_least (target_assignment t) g)"

definition worker_le :: "worker \<Rightarrow> worker \<Rightarrow> bool" where
  "worker_le st st' \<longleftrightarrow>
     \<not> isApplyResultStale (wk_assignment st') (wk_assignment st) \<and>
     lastSeenLeaderRevision st \<le> lastSeenLeaderRevision st' \<and>
     ap_AppliedVersion (wk_applied st) \<le> ap_AppliedVersion (wk_applied st') \<and>
     fence_le (highestAcceptedTarget st) (highestAcceptedTarget st')"

lemma fence_mono: "fence_at_least a f \<Longrightarrow> fence_le f g \<Longrightarrow> fence_at_least a g"
  by (auto simp: fence_at_least_def fence_le_def dest: not_stale_trans split: option.splits)

lemma fence_le_refl [simp]: "fence_le f f"
  by (simp add: fence_le_def fence_at_least_def split: option.splits)

lemma fence_le_trans: "fence_le f g \<Longrightarrow> fence_le g h \<Longrightarrow> fence_le f h"
  by (metis (no_types, lifting) fence_le_def fence_mono option.case_eq_if)

lemma worker_le_refl [simp]: "worker_le st st"
  by (simp add: worker_le_def)

lemma worker_le_trans: "worker_le a b \<Longrightarrow> worker_le b c \<Longrightarrow> worker_le a c"
  using not_stale_trans fence_le_trans unfolding worker_le_def by (meson order_trans)

lemma raise_fields [simp]:
  "wk_assignment (raiseAcceptedTarget v lr st) = wk_assignment st"
  "lastSeenLeaderRevision (raiseAcceptedTarget v lr st) = lastSeenLeaderRevision st"
  "committedAssignment (raiseAcceptedTarget v lr st) = committedAssignment st"
  "wk_applied (raiseAcceptedTarget v lr st) = wk_applied st"
  by (simp_all add: raiseAcceptedTarget_def split: option.splits)

lemma raise_fence:
  assumes "fence_ok (highestAcceptedTarget st)" "0 \<le> v"
  shows "fence_le (highestAcceptedTarget st) (highestAcceptedTarget (raiseAcceptedTarget v lr st))"
    "fence_at_least (target_assignment (v, lr)) (highestAcceptedTarget (raiseAcceptedTarget v lr st))"
    "fence_ok (highestAcceptedTarget (raiseAcceptedTarget v lr st))"
  using assms
  by (auto simp: raiseAcceptedTarget_def fence_le_def fence_at_least_def fence_ok_def isApplyResultStale_def target_assignment_def
      split: option.splits if_splits)

lemma see_fields [simp]:
  "wk_assignment (updateLastSeenLeaderRevision n st) = wk_assignment st"
  "committedAssignment (updateLastSeenLeaderRevision n st) = committedAssignment st"
  "wk_applied (updateLastSeenLeaderRevision n st) = wk_applied st"
  "highestAcceptedTarget (updateLastSeenLeaderRevision n st) = highestAcceptedTarget st"
  "lastSeenLeaderRevision (updateLastSeenLeaderRevision n st) = max n (lastSeenLeaderRevision st)"
  by (simp_all add: updateLastSeenLeaderRevision_def)

lemma core_store_fields [simp]:
  "wk_assignment (core_store X a t st) = a" "committedAssignment (core_store X a t st) = Some a"
  "highestAcceptedTarget (core_store X a t st) = highestAcceptedTarget st"
  "lastSeenLeaderRevision (core_store X a t st) = max (as_LeaderRevision a) (lastSeenLeaderRevision st)"
  by (simp_all add: core_store_def Let_def)

lemma core_store_ack: "ap_AppliedVersion (wk_applied st) \<le> as_Version a \<Longrightarrow> ack_of X a (wk_applied (core_store X a t st))"
  by (simp add: core_store_def Let_def SetAppliedAssignment_def ack_of_def)

lemma acked_version:
  "worker_inv X r \<Longrightarrow> \<not> isApplyResultStale a (wk_assignment (wr_st r)) \<Longrightarrow> ap_AppliedVersion (wk_applied (wr_st r)) \<le> as_Version a"
  by (auto simp: worker_inv_def Let_def ack_of_def dest!: not_stale_version split: option.splits)

lemma gate_passed:
  assumes "core_gate a st = (True, st')"
  shows "\<not> isApplyResultStale a (wk_assignment st)" "st' = raiseAcceptedTarget (as_Version a) (as_LeaderRevision a) st"
  using assms by (auto simp: core_gate_def split: if_splits option.splits)

lemma fence_target [simp]: "fence_at_least (target_assignment (as_Version a, as_LeaderRevision a)) f = fence_at_least a f"
  by (simp add: fence_at_least_def isApplyResultStale_def target_assignment_def split: option.splits)

lemma target_stale [simp]: "isApplyResultStale (target_assignment (as_Version a, as_LeaderRevision a)) b = isApplyResultStale a b"
  by (simp add: isApplyResultStale_def target_assignment_def)

lemma stash_fields [simp]:
  "guarded_fields (scheduleCommitFetchRetry c st) = guarded_fields st" "guarded_fields (stash_commit c st) = guarded_fields st"
  "guarded_fields (stashFetchRetryCandidate c st) = guarded_fields st" "guarded_fields (scheduleApplyRetry cfg a st) = guarded_fields st"
  by (auto simp: scheduleCommitFetchRetry_def stash_commit_def stashFetchRetryCandidate_def scheduleApplyRetry_def guarded_fields_def
      split: option.splits)

lemma apply_retry_fields [simp]:
  "wk_assignment (scheduleApplyRetry cfg a st) = wk_assignment st" "lastSeenLeaderRevision (scheduleApplyRetry cfg a st) = lastSeenLeaderRevision st"
  "committedAssignment (scheduleApplyRetry cfg a st) = committedAssignment st" "wk_applied (scheduleApplyRetry cfg a st) = wk_applied st"
  "highestAcceptedTarget (scheduleApplyRetry cfg a st) = highestAcceptedTarget st"
  using stash_fields(4)[of cfg a st] by (simp_all add: guarded_fields_def)

lemma inv_fence: "worker_inv X r \<Longrightarrow> fence_ok (highestAcceptedTarget (wr_st r))"
  by (simp add: worker_inv_def Let_def)

lemma gate_version: "worker_inv X r \<Longrightarrow> \<not> isApplyResultStale a (wk_assignment (wr_st r)) \<Longrightarrow> 0 \<le> as_Version a"
  by (auto simp: worker_inv_def Let_def dest!: not_stale_version)

lemma gate_fence:
  "worker_inv X r \<Longrightarrow> \<not> isApplyResultStale a (wk_assignment (wr_st r)) \<Longrightarrow>
   fence_at_least a (highestAcceptedTarget (raiseAcceptedTarget (as_Version a) (as_LeaderRevision a) (wr_st r)))"
  using raise_fence(2)[OF inv_fence gate_version, of X r X r a "as_LeaderRevision a"] by simp

lemma raise_inv:
  assumes "worker_inv X r" "0 \<le> v"
  shows "worker_inv X (r\<lparr>wr_st := raiseAcceptedTarget v lr (wr_st r)\<rparr>)"
  using assms raise_fence[OF inv_fence[OF assms(1)] assms(2), of lr] fence_mono
  by (fastforce simp: worker_inv_def Let_def split: option.splits)

lemma worker_step_inv: "worker_step cfg r r' \<Longrightarrow> worker_inv (wc_xxh3 cfg) r \<Longrightarrow> worker_inv (wc_xxh3 cfg) r'"
proof (induction rule: worker_step.induct)
  case (raise v r lr)
  then show ?case using raise_inv[of _ r v lr] by simp
next
  case (gate r a st)
  note g = gate_passed[OF gate.hyps(2)]
  show ?case using gate.prems gate.hyps raise_inv[OF gate.prems gate_version[OF gate.prems g(1)]] g gate_fence[OF gate.prems g(1)]
    by (simp add: worker_inv_def Let_def)
next
  case (store r a t)
  then have n: "\<not> isApplyResultStale a (wk_assignment (wr_st r))" by (simp add: worker_inv_def Let_def)
  then show ?case using store core_store_ack[OF acked_version[OF store.prems n]] not_stale_version[OF n]
    by (simp add: worker_inv_def Let_def)
next
  case (refresh r a)
  then show ?case using not_stale_version not_stale_trans
    by (fastforce simp: worker_inv_def Let_def monotonicStore_def split: option.splits)
next
  case (other st r)
  then show ?case by (auto simp: worker_inv_def Let_def guarded_fields_def split: option.splits)
qed (auto simp: worker_inv_def Let_def split: option.splits)

lemma worker_step_le: "worker_step cfg r r' \<Longrightarrow> worker_inv (wc_xxh3 cfg) r \<Longrightarrow> worker_le (wr_st r) (wr_st r')"
proof (induction rule: worker_step.induct)
  case (raise v r lr)
  then show ?case using inv_fence[OF raise.prems] by (simp add: worker_le_def raise_fence)
next
  case (gate r a st)
  note g = gate_passed[OF gate.hyps(2)]
  show ?case using inv_fence[OF gate.prems] gate_version[OF gate.prems g(1)] by (simp add: worker_le_def raise_fence g(2))
next
  case (store r a t)
  then have n: "\<not> isApplyResultStale a (wk_assignment (wr_st r))" by (simp add: worker_inv_def Let_def)
  then show ?case using acked_version[OF store.prems n] core_store_ack[OF acked_version[OF store.prems n], of "wc_xxh3 cfg" t]
    by (simp add: worker_le_def ack_of_def)
next
  case (refresh r a)
  then show ?case by (simp add: worker_le_def monotonicStore_def)
next
  case (other st r)
  then show ?case by (simp add: worker_le_def guarded_fields_def)
qed (auto simp: worker_le_def)

lemma worker_steps_inv: "worker_steps cfg r r' \<Longrightarrow> worker_inv (wc_xxh3 cfg) r \<Longrightarrow> worker_inv (wc_xxh3 cfg) r' \<and> worker_le (wr_st r) (wr_st r')"
  by (induction rule: rtranclp_induct) (auto dest: worker_step_inv worker_step_le intro: worker_le_trans)

section \<open>The handlers as sequences of steps\<close>

lemma step_other: "guarded_fields st' = guarded_fields st \<Longrightarrow> worker_steps cfg (free st) (free st')"
  using other[of st' "free st" cfg] by auto

lemma step_raise: "0 < v \<Longrightarrow> worker_steps cfg (free st) (free (raiseAcceptedTarget v lr st))"
  using raise[of v cfg "free st" lr] by auto

lemma step_see: "worker_steps cfg (free st) (free (updateLastSeenLeaderRevision n st))"
  using see_leader[of cfg "free st"] by auto

lemma steps_trans: "worker_steps cfg r r1 \<Longrightarrow> worker_steps cfg r1 r2 \<Longrightarrow> worker_steps cfg r r2"
  by (rule rtranclp_trans)

lemma gate_drop: "core_gate a st = (False, st') \<Longrightarrow> st' = st"
  by (auto simp: core_gate_def split: if_splits option.splits)

lemma core_steps:
  assumes "applyAssignmentWithPrevCore cfg a st w = (r, st', w')"
  shows "worker_steps cfg (free st) (free st')"
proof (cases "core_gate a st")
  case (Pair b st1)
  show ?thesis
  proof (cases b)
    case True
    have g: "worker_step cfg (free st) \<lparr>wr_st = st1, wr_core = Some a\<rparr>" using gate[of "free st" a st1 cfg] Pair True by simp
    obtain e w1 where ap: "wc_Apply cfg (wc_workerID cfg) (committedAssignmentOrEmpty st1) a w = (e, w1)" by fastforce
    show ?thesis
    proof (cases e)
      case None
      obtain t w2 where n: "wc_Now cfg w1 = (t, w2)" by fastforce
      let ?st2 = "core_store (wc_xxh3 cfg) a t st1"
      have "worker_step cfg \<lparr>wr_st = st1, wr_core = Some a\<rparr> (free ?st2)" using store[of "\<lparr>wr_st = st1, wr_core = Some a\<rparr>" a cfg t] by simp
      moreover have "guarded_fields st' = guarded_fields ?st2"
        using assms Pair True ap None n by (auto simp: applyAssignmentWithPrevCore_def Let_def guarded_fields_def split: prod.splits)
      then have "worker_steps cfg (free ?st2) (free st')" by (rule step_other)
      ultimately show ?thesis using g by (meson converse_rtranclp_into_rtranclp)
    next
      case (Some x)
      have "worker_step cfg \<lparr>wr_st = st1, wr_core = Some a\<rparr> (free (scheduleApplyRetry cfg a st1))"
        using fail[of "\<lparr>wr_st = st1, wr_core = Some a\<rparr>" a cfg] by simp
      moreover have "st' = scheduleApplyRetry cfg a st1"
        using assms Pair True ap Some by (simp add: applyAssignmentWithPrevCore_def)
      ultimately show ?thesis using g by (meson converse_rtranclp_into_rtranclp rtranclp.rtrancl_refl)
    qed
  next
    case False
    then have "st' = st" using assms Pair gate_drop[of a st st1] by (simp add: applyAssignmentWithPrevCore_def)
    then show ?thesis by simp
  qed
qed

lemma skip_jitter_steps: "applyAssignmentWithPrevSkipJitter cfg a st w = (r, st', w') \<Longrightarrow> worker_steps cfg (free st) (free st')"
  by (auto simp: applyAssignmentWithPrevSkipJitter_def dest: core_steps split: if_splits)

lemma apply_steps: "applyAssignment cfg a st w = (r, st', w') \<Longrightarrow> worker_steps cfg (free st) (free st')"
  by (auto simp: applyAssignment_def dest: core_steps split: if_splits prod.splits bool.splits)

lemma once_steps:
  assumes h: "handleCommitValueOnce cfg c st w = (d, st', w')" and pos: "0 \<le> as_Version (wk_assignment st)"
  shows "worker_steps cfg (free st) (free st')"
proof -
  let ?s1 = "st\<lparr>lastObservedCommit := Some c\<rparr>"
  let ?s2 = "?s1\<lparr>pendingApplyInFlight := True\<rparr>"
  let ?s3 = "raiseAcceptedTarget (cm_Version c) (cm_LeaderRevision c) ?s2"
  have 1: "worker_steps cfg (free st) (free ?s1)" by (rule step_other) (simp add: guarded_fields_def)
  have 2: "worker_steps cfg (free st) (free ?s2)" by (rule step_other) (simp add: guarded_fields_def)
  have 3: "worker_steps cfg (free st) (free ?s3)" if "0 < cm_Version c" by (rule steps_trans[OF 2 step_raise[OF that]])
  obtain b w1 where bd: "buildAssignmentFromCommit cfg c w = (b, w1)" by fastforce
  consider "st' = updateLastSeenLeaderRevision (cm_LeaderRevision c) ?s1" | "st' = st" | "st' = ?s1" | "st' = stash_commit c ?s1"
    | "0 < cm_Version c" "b = None" "guarded_fields st' = guarded_fields ?s3"
    | a r s4 w2 where "0 < cm_Version c" "b = Some a" "applyAssignment cfg a ?s3 w1 = (r, s4, w2)" "guarded_fields st' = guarded_fields s4"
    using h pos unfolding handleCommitValueOnce_def Let_def bd
    by (auto simp: guarded_fields_def split: if_splits prod.splits option.splits)
       (auto simp: guarded_fields_def scheduleCommitFetchRetry_def stashFetchRetryCandidate_def split: option.splits)
  then show ?thesis
  proof cases
    case 1
    then show ?thesis using steps_trans[OF \<open>worker_steps cfg (free st) (free ?s1)\<close> step_see] by simp
  next
    case 4
    then show ?thesis using steps_trans[OF 1 step_other[of "stash_commit c ?s1" ?s1]] by simp
  next
    case 5
    then show ?thesis using steps_trans[OF 3 step_other[of st' ?s3]] by simp
  next
    case 6
    then show ?thesis using steps_trans[OF 3 steps_trans[OF apply_steps step_other]] by blast
  qed (use 1 in simp_all)
qed

lemma inv_version: "worker_inv X r \<Longrightarrow> 0 \<le> as_Version (wk_assignment (wr_st r))"
  by (simp add: worker_inv_def Let_def)

lemma handle_commit_steps:
  "handleCommitValue cfg c st w = (st', w') \<Longrightarrow> worker_inv (wc_xxh3 cfg) (free st) \<Longrightarrow> worker_steps cfg (free st) (free st')"
proof (induction cfg c st w rule: handleCommitValue.induct)
  case (2 cfg commit st w)
  obtain d s1 w1 where o: "handleCommitValueOnce cfg commit st w = (d, s1, w1)" by (metis prod_cases3)
  have s: "worker_steps cfg (free st) (free s1)" using once_steps[OF o] inv_version[OF "2.prems"(2)] by simp
  then have "worker_inv (wc_xxh3 cfg) (free s1)" using worker_steps_inv "2.prems"(2) by blast
  then have "worker_steps cfg (free s1) (free st')" using "2.IH"[OF o[symmetric] refl] "2.prems"(1) o by simp
  then show ?case using steps_trans[OF s] by blast
qed simp

lemma alias_steps:
  assumes h: "handleAssignmentEntry cfg e st w = (st', w')" and pos: "0 \<le> as_Version (wk_assignment st)"
  shows "worker_steps cfg (free st) (free st')"
proof -
  have fence: "worker_steps cfg (free st) (free ((raiseAcceptedTarget v lr st)\<lparr>lastSeenAlias := x\<rparr>))" if "0 < v" for v lr x
    by (rule steps_trans[OF step_raise[OF that] step_other]) (simp add: guarded_fields_def)
  show ?thesis
  proof (cases "e = EntryDelete")
    case False
    then obtain v where v: "e = EntryPut v" by (cases e) auto
    show ?thesis
    proof (cases "unmarshal_assignment v")
      case (Some a)
      let ?s = "(raiseAcceptedTarget (as_Version a) (as_LeaderRevision a) st)\<lparr>lastSeenAlias := Some a\<rparr>"
      obtain r s1 w1 where ap: "applyAssignment cfg a ?s w = (r, s1, w1)" by (metis prod_cases3)
      have "st' = st \<or> 0 < as_Version a \<and> (st' = ?s \<or> st' = s1)"
        using h v Some ap pos by (auto simp: handleAssignmentEntry_def Let_def split: if_splits)
      then show ?thesis using fence steps_trans[OF fence apply_steps[OF ap]] by auto
    qed (use h v in \<open>simp add: handleAssignmentEntry_def\<close>)
  qed (use h in \<open>simp add: handleAssignmentEntry_def\<close>)
qed

lemma refresh_steps: "refreshAssignmentFromNATS cfg st w = (r, st', w') \<Longrightarrow> worker_steps cfg (free st) (free st')"
  using refresh[of "free st" cfg]
  by (auto simp: refreshAssignmentFromNATS_def split: if_splits prod.splits sum.splits option.splits)

lemma recovery_steps: "attemptRecoveryFromDegraded cfg st w = (st', w') \<Longrightarrow> worker_steps cfg (free st) (free st')"
proof -
  assume h: "attemptRecoveryFromDegraded cfg st w = (st', w')"
  obtain r s1 w1 where rf: "refreshAssignmentFromNATS cfg st w = (r, s1, w1)" by (metis prod_cases3)
  have "st' = st \<or> guarded_fields st' = guarded_fields s1"
    using h rf
    by (auto simp: attemptRecoveryFromDegraded_def Let_def split: option.splits prod.splits if_splits bool.splits)
       (auto simp: guarded_fields_def)
  then show ?thesis using steps_trans[OF refresh_steps[OF rf] step_other] by auto
qed

lemma apply_round_steps: "apply_retry_round cfg b st w = (r, st', w') \<Longrightarrow> worker_steps cfg (free st) (free st')"
proof -
  assume h: "apply_retry_round cfg b st w = (r, st', w')"
  have o: "worker_steps cfg (free st) (free (st\<lparr>stashedApplyRetry := None\<rparr>))" by (rule step_other) (simp add: guarded_fields_def)
  show ?thesis using h steps_trans[OF o skip_jitter_steps]
    by (auto simp: apply_retry_round_def split: option.splits prod.splits if_splits)
qed

lemma fetch_round_steps: "fetch_retry_round cfg b st w = (r, st', w') \<Longrightarrow> worker_steps cfg (free st) (free st')"
proof -
  assume h: "fetch_retry_round cfg b st w = (r, st', w')"
  let ?s = "st\<lparr>stashedFetchRetry := None\<rparr>"
  have o: "worker_steps cfg (free st) (free ?s)" by (rule step_other) (simp add: guarded_fields_def)
  have p: "worker_steps cfg (free st) (free (stashFetchRetryCandidate c ?s))" for c
    by (rule step_other) (simp, simp add: guarded_fields_def)
  show ?thesis using h steps_trans[OF o skip_jitter_steps] o p
    by (auto simp: fetch_retry_round_def Let_def split: option.splits prod.splits if_splits)
qed

text \<open>What wakes a goroutine of the worker.\<close>

datatype worker_event =
    CommitArrives watch_entry | AliasArrives watch_entry | ApplyRetryFires duration | FetchRetryFires duration | RecoveryTick

fun handle_event :: "'w worker_cfg \<Rightarrow> worker_event \<Rightarrow> worker \<Rightarrow> 'w \<Rightarrow> worker \<times> 'w" where
  "handle_event cfg (CommitArrives e) st w = handleCommitEntry cfg e st w"
| "handle_event cfg (AliasArrives e) st w = handleAssignmentEntry cfg e st w"
| "handle_event cfg (ApplyRetryFires b) st w = snd (apply_retry_round cfg b st w)"
| "handle_event cfg (FetchRetryFires b) st w = snd (fetch_retry_round cfg b st w)"
| "handle_event cfg RecoveryTick st w = attemptRecoveryFromDegraded cfg st w"

lemma event_steps:
  assumes "handle_event cfg e st w = (st', w')" and i: "worker_inv (wc_xxh3 cfg) (free st)"
  shows "worker_steps cfg (free st) (free st')"
proof (cases e)
  case (CommitArrives x)
  then show ?thesis using assms handle_commit_steps[of cfg _ st w st' w']
    by (auto simp: handleCommitEntry_def simp del: handleCommitValue.simps(2) split: option.splits)
next
  case (ApplyRetryFires b)
  then show ?thesis using assms(1) apply_round_steps[of cfg b st w "fst (apply_retry_round cfg b st w)"]
    by (metis handle_event.simps(3) prod.collapse)
next
  case (FetchRetryFires b)
  then show ?thesis using assms(1) fetch_round_steps[of cfg b st w "fst (fetch_retry_round cfg b st w)"]
    by (metis handle_event.simps(4) prod.collapse)
qed (use assms inv_version[OF i] in \<open>auto dest: alias_steps recovery_steps\<close>)

section \<open>Properties\<close>

definition worker0 :: "manager \<Rightarrow> worker" where
  "worker0 m = \<lparr>wk_assignment = empty_assignment, lastSeenLeaderRevision = 0, lastSeenAlias = None, lastObservedCommit = None,
     pendingApplyInFlight = False, stashedCommit = None, highestAcceptedTarget = None, committedAssignment = None,
     stashedApplyRetry = None, applyRetryActive = False, stashedFetchRetry = None, fetchRetryActive = False,
     wk_applied = \<lparr>ap_SchemaVersion = 0, ap_LeaderRevision = 0, ap_AppliedVersion = 0, ap_AppliedDigest = 0,
       ap_AppliedSourceRevision = 0, ap_AppliedSourceRevKnown = False, ap_AppliedAt = 0\<rparr>,
     commitBatchCache = None, wk_mgr = m\<rparr>"

lemma worker0_inv: "worker_inv X (free (worker0 m))"
  by (simp add: worker_inv_def worker0_def empty_assignment_def fence_ok_def)

text \<open>A run of the worker: the handlers that the events start, one after the other.\<close>

fun handle_events :: "'w worker_cfg \<Rightarrow> worker_event list \<Rightarrow> worker \<Rightarrow> 'w \<Rightarrow> worker \<times> 'w" where
  "handle_events cfg [] st w = (st, w)"
| "handle_events cfg (e # es) st w = (case handle_event cfg e st w of (st, w) \<Rightarrow> handle_events cfg es st w)"

lemma events_steps:
  "handle_events cfg es st w = (st', w') \<Longrightarrow> worker_inv (wc_xxh3 cfg) (free st) \<Longrightarrow> worker_steps cfg (free st) (free st')"
proof (induction es arbitrary: st w)
  case (Cons e es)
  obtain s1 w1 where h: "handle_event cfg e st w = (s1, w1)" by fastforce
  have s: "worker_steps cfg (free st) (free s1)" by (rule event_steps[OF h Cons.prems(2)])
  then have "worker_inv (wc_xxh3 cfg) (free s1)" using worker_steps_inv Cons.prems(2) by blast
  then show ?case using steps_trans[OF s] Cons h by simp
qed simp

text \<open>C2: The goroutines of a worker (commit watcher, alias watcher, retry loops, recovery), interleaved at
  will, never take it backwards. From any state the worker reaches after its start (\<open>r\<close>) to any later
  one (\<open>r'\<close>) the assignment snapshot does not become staler, the seen leader revision, the accepted target
  and the version acknowledged in the heartbeat do not decrease; the heartbeat acknowledges exactly the
  last assignment that the coordinator has applied, which is not newer than the snapshot; and the
  candidate that is with the coordinator is not stale. Whatever the events, the handlers run one after
  the other are such a run.\<close>

theorem worker_never_regresses:
  assumes "worker_steps cfg (free (worker0 m)) r" "worker_steps cfg r r'"
  shows "\<not> isApplyResultStale (wk_assignment (wr_st r')) (wk_assignment (wr_st r)) \<and>
         lastSeenLeaderRevision (wr_st r) \<le> lastSeenLeaderRevision (wr_st r') \<and>
         ap_AppliedVersion (wk_applied (wr_st r)) \<le> ap_AppliedVersion (wk_applied (wr_st r')) \<and>
         fence_le (highestAcceptedTarget (wr_st r)) (highestAcceptedTarget (wr_st r')) \<and>
         as_LeaderRevision (wk_assignment (wr_st r')) \<le> lastSeenLeaderRevision (wr_st r') \<and>
         (case committedAssignment (wr_st r') of
            None \<Rightarrow> ap_AppliedVersion (wk_applied (wr_st r')) = 0
          | Some a \<Rightarrow> ack_of (wc_xxh3 cfg) a (wk_applied (wr_st r')) \<and> \<not> isApplyResultStale (wk_assignment (wr_st r')) a) \<and>
         (case wr_core r' of None \<Rightarrow> True | Some a \<Rightarrow> \<not> isApplyResultStale a (wk_assignment (wr_st r'))) \<and>
         (\<forall>es w. wr_core r = None \<longrightarrow> worker_steps cfg r (r\<lparr>wr_st := fst (handle_events cfg es (wr_st r) w)\<rparr>))"
proof -
  have i: "worker_inv (wc_xxh3 cfg) r" using worker_steps_inv[OF assms(1) worker0_inv] by simp
  have i': "worker_inv (wc_xxh3 cfg) r'" "worker_le (wr_st r) (wr_st r')" using worker_steps_inv[OF assms(2) i] by simp_all
  have "worker_steps cfg r (r\<lparr>wr_st := fst (handle_events cfg es (wr_st r) w)\<rparr>)" if "wr_core r = None" for es w
    using events_steps[of cfg es "wr_st r" w "fst (handle_events cfg es (wr_st r) w)"] i that
    by (metis prod.collapse worker_run.surjective worker_run.update_convs(1) old.unit.exhaust)
  then show ?thesis using i' by (auto simp: worker_inv_def worker_le_def Let_def split: option.splits)
qed

definition ex_manager :: manager where
  "ex_manager = \<lparr>mg_State = StateWaitingAssignment, startupAssignmentApplied = False, degraded = None, kvErrorWindow = [],
     kvErrorCount = 0, connDownSince = 0, connUpSince = 0, lastHeartbeatSuccessAt = 0, lastEnumerationSuccessAt = 0,
     streamMissingExhausted = False, mg_isLeader = False, recoveryGraceStart = 0, inRecoveryGrace = False\<rparr>"

definition ex_wcfg :: "string \<Rightarrow> asg_value mem_world worker_cfg" where
  "ex_wcfg wid = \<lparr>wc_workerID = wid, wc_assignmentKV = mem_kv [], wc_gz = (\<lambda>_. False), wc_hash = ex_hash, wc_xxh3 = ex_xxh3,
     wc_workerLabels = [], wc_ApplyStartJitter = 0, wc_jitter = (\<lambda>w. (False, w)),
     wc_Apply = (\<lambda>_ _ a w. (if as_Version a = 5 then Some CtxError else None, w)),
     wc_Now = (\<lambda>w. (snd w, w)), wc_PublishNow = (\<lambda>_ w. w), wc_calc = (\<lambda>w. (CalcStateIdle, w)), wc_claimStore = None,
     wc_errorFlags = (\<lambda>_. \<lparr>is_StreamMissing = False, is_KVUnavailable = False, is_timeout = False, isWholeBucketLoss = False\<rparr>),
     wc_epochMismatch = (\<lambda>w. (False, w)), wc_heartbeatUnavailable = (\<lambda>w. (False, w)),
     wc_degraded = \<lparr>EnterThreshold = 1, ExitThreshold = 1, KVErrorWindow = 1, KVErrorThreshold = 5, InfoThreshold = 1,
       WarnThreshold = 2, ErrorThreshold = 3, CriticalThreshold = 4\<rparr>\<rparr>"

definition ex_commit :: "i64 \<Rightarrow> nat \<Rightarrow> assignment_commit" where
  "ex_commit v lr = \<lparr>cm_Version = v, cm_LeaderRevision = lr, cm_SourceRevision = 0, cm_SourceRevisionKnown = False, cm_PublishedAt = 0,
     cm_Workers = [''w2''], cm_Payloads = [], cm_BatchDigest = 0, cm_ParkedCount = 0, cm_ParkedDigest = 0, cm_PrevCommitRev = 0,
     cm_Lifecycle = ''stable''\<rparr>"

definition ex_events :: "worker_event list" where
  "ex_events = [CommitArrives (EntryPut (VCommit (ex_commit 3 7))),
     AliasArrives (EntryPut (VAlias (empty_assignment\<lparr>as_Version := 4, as_LeaderRevision := 8\<rparr>))),
     CommitArrives (EntryPut (VCommit (ex_commit 9 6))), CommitArrives EntryDelete, RecoveryTick, ApplyRetryFires 1000000000]"

lemma ex_events_run:
  "as_Version (wk_assignment (fst (handle_events (ex_wcfg ''w1'') ex_events (worker0 ex_manager) ex_world))) = 4"
  "ap_AppliedVersion (wk_applied (fst (handle_events (ex_wcfg ''w1'') ex_events (worker0 ex_manager) ex_world))) = 4"
  by code_simp+

theorem worker_never_regresses_witness:
  "lastSeenLeaderRevision (worker0 ex_manager) \<le>
     lastSeenLeaderRevision (fst (handle_events (ex_wcfg ''w1'') ex_events (worker0 ex_manager) ex_world)) \<and>
   as_Version (wk_assignment (fst (handle_events (ex_wcfg ''w1'') ex_events (worker0 ex_manager) ex_world))) = 4 \<and>
   ap_AppliedVersion (wk_applied (fst (handle_events (ex_wcfg ''w1'') ex_events (worker0 ex_manager) ex_world))) = 4"
proof -
  let ?st = "fst (handle_events (ex_wcfg ''w1'') ex_events (worker0 ex_manager) ex_world)"
  have "worker_steps (ex_wcfg ''w1'') (free (worker0 ex_manager)) (free ?st)"
    by (rule events_steps[OF _ worker0_inv, of _ ex_events _ ex_world _ "snd (handle_events (ex_wcfg ''w1'') ex_events (worker0 ex_manager) ex_world)"]) simp
  then show ?thesis using worker_never_regresses[OF rtranclp.rtrancl_refl, of "ex_wcfg ''w1''" ex_manager "free ?st"] ex_events_run by simp
qed

end
