(* ===== verification/Retry_Loop.thy ===== *)
theory Retry_Loop
  imports Main "HOL-Library.Multiset"
begin

text \<open>
  The retry loops of \<^verbatim>\<open>manager_assignment.go\<close> (\<^verbatim>\<open>scheduleApplyRetry\<close>,
  \<^verbatim>\<open>activateApplyRetryLoop\<close>; \<^verbatim>\<open>scheduleCommitFetchRetry\<close> and
  \<^verbatim>\<open>activateFetchRetryLoop\<close> are built alike) as concurrent threads over two atomic variables, the
  stash and the flag of the active loop. A thread is the point it has reached, a step is one access to an
  atomic variable, and the threads are interleaved at will. The theorems say that there is at most one
  loop and that no stashed value is left behind.
\<close>

section \<open>Threads\<close>

text \<open>\<open>Activate\<close> is at the start of \<open>activateApplyRetryLoop\<close>. The loop waits for its timer, works on the value
  that it has swapped out, has stashed it again after a failure, looks for a newer value after a
  success, and at its end clears the flag (\<open>Exiting\<close>) and looks at the stash once more (\<open>Exited\<close>).\<close>

datatype 'a pc = Activate | Waiting | Working 'a | Restashed | Draining | Exiting | Exited

record 'a retry =
  rt_stash :: "'a option"
  rt_active :: bool
  rt_done :: bool \<comment> \<open>the context of the manager is cancelled\<close>
  rt_threads :: "'a pc multiset"

text \<open>What an attempt to apply ends with: \<open>Rejected\<close> is an error that does not stash the value again.\<close>

datatype attempt = Succeeds | Fails | Rejected

definition coalesce :: "('a \<Rightarrow> 'a \<Rightarrow> bool) \<Rightarrow> 'a \<Rightarrow> 'a option \<Rightarrow> 'a option" where
  "coalesce supersedes v stash =
     (case stash of Some cur \<Rightarrow> if \<not> supersedes v cur then stash else Some v | None \<Rightarrow> Some v)"

definition activate :: "'a retry \<Rightarrow> 'a retry \<times> 'a pc multiset" where
  "activate s = (if rt_active s then (s, {#}) else (s\<lparr>rt_active := True\<rparr>, {#Waiting#}))"

text \<open>One step of a thread: the new state and the threads that take its place. A waiting loop is woken by
  its timer or by the end of the context (\<open>timer\<close> tells by which).\<close>

fun retry_thread :: "('a \<Rightarrow> 'a \<Rightarrow> bool) \<Rightarrow> attempt \<Rightarrow> bool \<Rightarrow> 'a pc \<Rightarrow> 'a retry \<Rightarrow> 'a retry \<times> 'a pc multiset" where
  "retry_thread newer r timer Activate s = activate s"
| "retry_thread newer r timer Waiting s =
     (if \<not> timer then (s, {#Exiting#})
      else case rt_stash s of
             None \<Rightarrow> (s, {#Exiting#})
           | Some pending \<Rightarrow> (s\<lparr>rt_stash := None\<rparr>, {#Working pending#}))"
| "retry_thread newer r timer (Working pending) s =
     (case r of
        Succeeds \<Rightarrow> (s, {#Draining#})
      | Fails \<Rightarrow> (s\<lparr>rt_stash := coalesce newer pending (rt_stash s)\<rparr>, {#Restashed#})
      | Rejected \<Rightarrow> (s, {#Waiting#}))"
| "retry_thread newer r timer Restashed s = (case activate s of (s, ts) \<Rightarrow> (s, add_mset Waiting ts))"
| "retry_thread newer r timer Draining s = (s, {#if rt_stash s = None then Exiting else Waiting#})"
| "retry_thread newer r timer Exiting s = (s\<lparr>rt_active := False\<rparr>, {#Exited#})"
| "retry_thread newer r timer Exited s = (s, if \<not> rt_done s \<and> rt_stash s \<noteq> None then {#Activate#} else {#})"

definition thread_enabled :: "bool \<Rightarrow> 'a pc \<Rightarrow> 'a retry \<Rightarrow> bool" where
  "thread_enabled timer t s \<longleftrightarrow> t = Waiting \<longrightarrow> timer \<or> rt_done s"

text \<open>The first argument of the relation tells whether the step takes the value out of the stash.\<close>

inductive retry_run :: "('a \<Rightarrow> 'a \<Rightarrow> bool) \<Rightarrow> bool \<Rightarrow> 'a retry \<Rightarrow> 'a retry \<Rightarrow> bool" for newer where
  "t \<in># rt_threads s \<Longrightarrow> thread_enabled timer t s \<Longrightarrow> retry_thread newer r timer t s = (s', ts) \<Longrightarrow>
   retry_run newer (t = Waiting \<and> rt_stash s \<noteq> None \<and> rt_stash s' = None) s (s'\<lparr>rt_threads := rt_threads s - {#t#} + ts\<rparr>)"

text \<open>A failed apply or fetch stashes a value and goes on to the activation; the manager is stopped.\<close>

inductive retry_env :: "('a \<Rightarrow> 'a \<Rightarrow> bool) \<Rightarrow> 'a retry \<Rightarrow> 'a retry \<Rightarrow> bool" for newer where
  schedule: "retry_env newer s (s\<lparr>rt_stash := coalesce newer v (rt_stash s), rt_threads := add_mset Activate (rt_threads s)\<rparr>)"
| stop: "retry_env newer s (s\<lparr>rt_done := True\<rparr>)"

definition retry_step :: "('a \<Rightarrow> 'a \<Rightarrow> bool) \<Rightarrow> 'a retry \<Rightarrow> 'a retry \<Rightarrow> bool" where
  "retry_step newer s s' \<longleftrightarrow> retry_env newer s s' \<or> (\<exists>b. retry_run newer b s s')"

definition retry0 :: "'a retry" where
  "retry0 = \<lparr>rt_stash = None, rt_active = False, rt_done = False, rt_threads = {#}\<rparr>"

inductive_cases retry_runE: "retry_run newer b s s'"
inductive_cases retry_envE: "retry_env newer s s'"

section \<open>Invariant\<close>

fun in_loop :: "'a pc \<Rightarrow> bool" where
  "in_loop Activate = False"
| "in_loop Exited = False"
| "in_loop _ = True"

abbreviation loops :: "'a retry \<Rightarrow> nat" where
  "loops s \<equiv> size (filter_mset in_loop (rt_threads s))"

definition retry_inv :: "'a retry \<Rightarrow> bool" where
  "retry_inv s \<longleftrightarrow> loops s = (if rt_active s then 1 else 0) \<and>
     (rt_stash s \<noteq> None \<and> \<not> rt_done s \<longrightarrow> rt_active s \<or> Activate \<in># rt_threads s \<or> Exited \<in># rt_threads s)"

lemma one_loop:
  assumes "retry_inv s" "t \<in># rt_threads s" "in_loop t"
  shows "rt_active s \<and> filter_mset in_loop (rt_threads s) = {#t#}"
proof -
  have "t \<in># filter_mset in_loop (rt_threads s)" using assms(2,3) by simp
  then have "loops s \<noteq> 0" by auto
  then have a: "rt_active s" "loops s = 1" using assms(1) by (auto simp: retry_inv_def split: if_splits)
  obtain u where "filter_mset in_loop (rt_threads s) = {#u#}" using size_1_singleton_mset[OF a(2)] by blast
  then show ?thesis using a(1) \<open>t \<in># filter_mset in_loop (rt_threads s)\<close> by simp
qed

lemma stash_coalesce [simp]: "coalesce newer v stash \<noteq> None"
  by (simp add: coalesce_def split: option.splits)

lemma loops_minus: "t \<in># T \<Longrightarrow> size (filter_mset in_loop (T - {#t#} + ts)) + (if in_loop t then 1 else 0) =
    size (filter_mset in_loop T) + size (filter_mset in_loop ts)"
  by (auto dest!: multi_member_split)

lemma run_inv:
  assumes "retry_run newer b s s'" and inv: "retry_inv s"
  shows "retry_inv s'"
  using assms(1)
proof (cases rule: retry_run.cases)
  case (1 t timer r s1 ts)
  have a: "in_loop t \<Longrightarrow> rt_active s" using one_loop[OF inv 1(3)] by simp
  have o: "u \<in># rt_threads s \<Longrightarrow> u \<noteq> t \<Longrightarrow> u \<in># rt_threads s - {#t#} + ts" for u
    using 1(3) by (auto dest!: multi_member_split)
  show ?thesis using 1 inv a loops_minus[OF 1(3), of ts] o[of Activate] o[of Exited]
    unfolding retry_inv_def thread_enabled_def
    by (cases t) (auto simp: activate_def split: option.splits attempt.splits if_splits)
qed

lemma env_inv: "retry_env newer s s' \<Longrightarrow> retry_inv s \<Longrightarrow> retry_inv s'"
  by (elim retry_envE) (auto simp: retry_inv_def split: if_splits)

lemma step_inv: "retry_step newer s s' \<Longrightarrow> retry_inv s \<Longrightarrow> retry_inv s'"
  using run_inv env_inv by (auto simp: retry_step_def)

lemma init_inv: "retry_inv retry0"
  by (simp add: retry_inv_def retry0_def)

lemma reach_inv: "(retry_step newer)\<^sup>*\<^sup>* retry0 s \<Longrightarrow> retry_inv s"
  by (induction rule: rtranclp_induct) (auto simp: init_inv intro: step_inv)

section \<open>Progress\<close>

text \<open>How many steps a thread is at most away from taking the stashed value, or from its end.\<close>

fun weight :: "'a pc \<Rightarrow> nat" where
  "weight Waiting = 1"
| "weight Activate = 2"
| "weight Exited = 3"
| "weight Exiting = 4"
| "weight Draining = 5"
| "weight Restashed = 5"
| "weight (Working _) = 6"

abbreviation total_weight :: "'a retry \<Rightarrow> nat" where
  "total_weight s \<equiv> \<Sum>t\<in>#rt_threads s. weight t"

lemma weight_minus: "t \<in># T \<Longrightarrow> (\<Sum>u\<in>#T - {#t#} + ts. weight u) + weight t = (\<Sum>u\<in>#T. weight u) + (\<Sum>u\<in>#ts. weight u)"
  by (auto dest!: multi_member_split)

lemma run_weight:
  assumes "retry_run newer False s s'" "rt_stash s \<noteq> None" "\<not> rt_done s"
  shows "total_weight s' < total_weight s \<and> rt_stash s' \<noteq> None \<and> \<not> rt_done s'"
  using assms(1)
proof (cases rule: retry_run.cases)
  case (1 t timer r s1 ts)
  note w = weight_minus[OF 1(3), of ts]
  show ?thesis using 1 w assms(2,3) unfolding thread_enabled_def
    by (cases t) (auto simp: activate_def coalesce_def split: option.splits attempt.splits if_splits)
qed

lemma run_enabled:
  assumes "retry_inv s" "rt_stash s \<noteq> None" "\<not> rt_done s"
  shows "\<exists>b s'. retry_run newer b s s'"
proof -
  have "\<exists>t. t \<in># rt_threads s"
    using assms by (cases "rt_threads s = {#}") (auto simp: retry_inv_def split: if_splits)
  then obtain t where t: "t \<in># rt_threads s" by blast
  obtain s' ts where r: "retry_thread newer Succeeds True t s = (s', ts)" by fastforce
  have "thread_enabled True t s" by (simp add: thread_enabled_def)
  then show ?thesis using retry_run.intros[OF t _ r] by blast
qed

text \<open>A run of the threads: the states after each step, with the marks of the steps.\<close>

fun threads_run :: "('a \<Rightarrow> 'a \<Rightarrow> bool) \<Rightarrow> 'a retry \<Rightarrow> (bool \<times> 'a retry) list \<Rightarrow> bool" where
  "threads_run newer s [] = True"
| "threads_run newer s ((b, s') # rs) \<longleftrightarrow> retry_run newer b s s' \<and> threads_run newer s' rs"

lemma run_bounded:
  "threads_run newer s rs \<Longrightarrow> rt_stash s \<noteq> None \<Longrightarrow> \<not> rt_done s \<Longrightarrow> \<forall>(b, s')\<in>set rs. \<not> b \<Longrightarrow> length rs \<le> total_weight s"
proof (induction rs arbitrary: s)
  case (Cons x rs)
  obtain s' where x: "x = (False, s')" using Cons.prems(4) by (cases x) auto
  then have r: "retry_run newer False s s'" "threads_run newer s' rs" using Cons.prems(1) by simp_all
  show ?case using Cons.IH[OF r(2)] run_weight[OF r(1) Cons.prems(2,3)] Cons.prems(4) by fastforce
qed simp

text \<open>C36: The hand-over of the retry loops loses no wakeup. However failed applies and the loop are
  interleaved, at most one loop runs, exactly when the flag is set. As long as something is stashed and
  the manager is not stopped, some thread can take a step; and the threads cannot take more steps than
  the weight of their positions without the stashed value being taken up for another attempt, even if no
  further failure ever reactivates the loop.\<close>

theorem retry_no_lost_wakeup:
  assumes "(retry_step newer)\<^sup>*\<^sup>* retry0 s"
  shows "size (filter_mset in_loop (rt_threads s)) = (if rt_active s then 1 else 0) \<and>
    (rt_stash s \<noteq> None \<and> \<not> rt_done s \<longrightarrow>
       (\<exists>b s'. retry_run newer b s s') \<and>
       (\<forall>rs. threads_run newer s rs \<and> length rs > (\<Sum>t\<in>#rt_threads s. weight t) \<longrightarrow> (\<exists>(b, s')\<in>set rs. b)))"
proof -
  have i: "retry_inv s" by (rule reach_inv[OF assms])
  have "\<exists>(b, s')\<in>set rs. b" if "rt_stash s \<noteq> None" "\<not> rt_done s" "threads_run newer s rs" "length rs > total_weight s" for rs
    using run_bounded[OF that(3,1,2)] that(4) by fastforce
  then show ?thesis using i run_enabled[OF i, of newer] by (simp add: retry_inv_def)
qed

text \<open>The window that the final look at the stash closes: the loop has seen an empty stash, a failed apply
  stashes 7 and finds the flag still set.\<close>

definition rx_exit :: "nat retry" where
  "rx_exit = \<lparr>rt_stash = Some 7, rt_active = True, rt_done = False, rt_threads = {#Exiting, Activate#}\<rparr>"

definition rx_at :: "nat option \<Rightarrow> bool \<Rightarrow> nat pc multiset \<Rightarrow> nat retry" where
  "rx_at x f T = \<lparr>rt_stash = x, rt_active = f, rt_done = False, rt_threads = T\<rparr>"

lemma run_step: "t \<in># rt_threads s \<Longrightarrow> thread_enabled timer t s \<Longrightarrow> retry_thread newer r timer t s = (s1, ts) \<Longrightarrow>
    s' = s1\<lparr>rt_threads := rt_threads s - {#t#} + ts\<rparr> \<Longrightarrow> retry_step newer s s'"
  using retry_run.intros unfolding retry_step_def by metis

lemma rx_reached: "(retry_step (<))\<^sup>*\<^sup>* retry0 rx_exit"
proof -
  have 1: "retry_step (<) retry0 (rx_at (Some 3) False {#Activate#})"
    using retry_env.schedule[of "(<)" retry0 "3 :: nat"] by (simp add: retry_step_def retry0_def rx_at_def coalesce_def)
  have 2: "retry_step (<) (rx_at (Some 3) False {#Activate#}) (rx_at (Some 3) True {#Waiting#})"
    by (rule run_step[of Activate _ True]) (auto simp: rx_at_def thread_enabled_def activate_def)
  have 3: "retry_step (<) (rx_at (Some 3) True {#Waiting#}) (rx_at None True {#Working 3#})"
    by (rule run_step[of Waiting _ True]) (auto simp: rx_at_def thread_enabled_def)
  have 4: "retry_step (<) (rx_at None True {#Working 3#}) (rx_at None True {#Draining#})"
    by (rule run_step[of "Working 3" _ True _ Succeeds]) (auto simp: rx_at_def thread_enabled_def)
  have 5: "retry_step (<) (rx_at None True {#Draining#}) (rx_at None True {#Exiting#})"
    by (rule run_step[of Draining _ True]) (auto simp: rx_at_def thread_enabled_def)
  have 6: "retry_step (<) (rx_at None True {#Exiting#}) rx_exit"
    using retry_env.schedule[of "(<)" "rx_at None True {#Exiting#}" 7] by (simp add: retry_step_def rx_exit_def rx_at_def coalesce_def add_mset_commute)
  show ?thesis using 1 2 3 4 5 6 by (meson converse_rtranclp_into_rtranclp rtranclp.rtrancl_refl)
qed

definition rx_run :: "(bool \<times> nat retry) list" where
  "rx_run = [(False, rx_at (Some 7) True {#Exiting#}), (False, rx_at (Some 7) False {#Exited#}), (False, rx_at (Some 7) False {#Activate#}),
     (False, rx_at (Some 7) True {#Waiting#}), (True, rx_at None True {#Working 7#}), (False, rx_at None True {#Draining#}),
     (False, rx_at None True {#Exiting#})]"

lemma run_intro: "t \<in># rt_threads s \<Longrightarrow> thread_enabled timer t s \<Longrightarrow> retry_thread newer r timer t s = (s1, ts) \<Longrightarrow>
    s' = s1\<lparr>rt_threads := rt_threads s - {#t#} + ts\<rparr> \<Longrightarrow> b = (t = Waiting \<and> rt_stash s \<noteq> None \<and> rt_stash s1 = None) \<Longrightarrow> retry_run newer b s s'"
  using retry_run.intros[of t s timer newer r s1 ts] by simp

lemma rx_runs: "threads_run (<) rx_exit rx_run"
proof -
  have 1: "retry_run (<) False rx_exit (rx_at (Some 7) True {#Exiting#})"
    by (rule run_intro[of Activate _ True]) (auto simp: rx_exit_def rx_at_def thread_enabled_def activate_def)
  have 2: "retry_run (<) False (rx_at (Some 7) True {#Exiting#}) (rx_at (Some 7) False {#Exited#})"
    by (rule run_intro[of Exiting _ True]) (auto simp: rx_at_def thread_enabled_def)
  have 3: "retry_run (<) False (rx_at (Some 7) False {#Exited#}) (rx_at (Some 7) False {#Activate#})"
    by (rule run_intro[of Exited _ True]) (auto simp: rx_at_def thread_enabled_def)
  have 4: "retry_run (<) False (rx_at (Some 7) False {#Activate#}) (rx_at (Some 7) True {#Waiting#})"
    by (rule run_intro[of Activate _ True]) (auto simp: rx_at_def thread_enabled_def activate_def)
  have 5: "retry_run (<) True (rx_at (Some 7) True {#Waiting#}) (rx_at None True {#Working 7#})"
    by (rule run_intro[of Waiting _ True]) (auto simp: rx_at_def thread_enabled_def)
  have 6: "retry_run (<) False (rx_at None True {#Working 7#}) (rx_at None True {#Draining#})"
    by (rule run_intro[of "Working 7" _ True _ Succeeds]) (auto simp: rx_at_def thread_enabled_def)
  have 7: "retry_run (<) False (rx_at None True {#Draining#}) (rx_at None True {#Exiting#})"
    by (rule run_intro[of Draining _ True]) (auto simp: rx_at_def thread_enabled_def)
  show ?thesis using 1 2 3 4 5 6 7 by (simp add: rx_run_def)
qed

theorem retry_no_lost_wakeup_witness:
  "(\<exists>b s'. retry_run (<) b rx_exit s') \<and> threads_run (<) rx_exit rx_run \<and> (\<exists>(b, s')\<in>set rx_run. b)"
proof -
  have "(\<Sum>t\<in>#rt_threads rx_exit. weight t) = 6" "rt_stash rx_exit \<noteq> None" "\<not> rt_done rx_exit" "length rx_run = 7"
    by (simp_all add: rx_exit_def rx_run_def)
  then show ?thesis using retry_no_lost_wakeup[OF rx_reached] rx_runs by simp
qed

end
