(* ===== verification/Worker_Delivery.thy ===== *)
theory Worker_Delivery
  imports Worker_Safety Retry_Loop "HOL-Library.Sublist"
begin

text \<open>
  What becomes of a commit that reaches a worker: a fresh commit is never lost, the debouncing of
  deliveries hides nothing from the worker, and a partition leaves a worker only when the claim says
  that another one has it.
\<close>

section \<open>No commit is lost\<close>

lemma commit_supersedes_irrefl [simp]: "\<not> commitSupersedesForStash c c"
  by (simp add: commitSupersedesForStash_def)

lemma assignment_supersedes_irrefl [simp]: "\<not> assignmentSupersedesForStash X a a"
  by (simp add: assignmentSupersedesForStash_def sameAppliedIdentity_def)

text \<open>A stash covers a commit when the commit would not replace what it holds.\<close>

definition covers :: "('a \<Rightarrow> 'a \<Rightarrow> bool) \<Rightarrow> 'a \<Rightarrow> 'a option \<Rightarrow> bool" where
  "covers supersedes c stash \<longleftrightarrow> (case stash of None \<Rightarrow> False | Some s \<Rightarrow> \<not> supersedes c s)"

text \<open>The stashes are coalesced as the retry loops expect it.\<close>

lemma stash_coalesced:
  "stashedApplyRetry (scheduleApplyRetry cfg a st) = coalesce (assignmentSupersedesForStash (wc_xxh3 cfg)) a (stashedApplyRetry st)"
  "stashedFetchRetry (scheduleCommitFetchRetry c st) = coalesce commitSupersedesForStash c (stashedFetchRetry st)"
  "stashedCommit (stash_commit c st) = coalesce commitSupersedesForStash c (stashedCommit st)"
  by (auto simp: coalesce_def stash_commit_def scheduleCommitFetchRetry_def stashFetchRetryCandidate_def scheduleApplyRetry_def Let_def
      split: option.splits)

lemma stash_covers:
  "covers commitSupersedesForStash c (stashedCommit (stash_commit c st))"
  "covers commitSupersedesForStash c (stashedFetchRetry (scheduleCommitFetchRetry c st))"
  "covers (assignmentSupersedesForStash (wc_xxh3 cfg)) a (stashedApplyRetry (scheduleApplyRetry cfg a st))"
  by (auto simp: covers_def stash_coalesced coalesce_def split: option.splits)

definition superseded :: "assignment \<Rightarrow> worker \<Rightarrow> bool" where
  "superseded a st \<longleftrightarrow> isApplyResultStale a (wk_assignment st) \<or>
     (\<exists>f. highestAcceptedTarget st = Some f \<and> isApplyResultStale a (target_assignment f))"

lemma core_outcome:
  assumes "applyAssignmentWithPrevCore cfg a st w = (r, st', w')"
  shows "superseded a st \<and> r = None \<or> wk_assignment st' = a \<and> committedAssignment st' = Some a \<and> r = None \<or>
    covers (assignmentSupersedesForStash (wc_xxh3 cfg)) a (stashedApplyRetry st') \<and> applyRetryActive st' \<and> (\<exists>e. r = Some (ApplyFailed e))"
proof (cases "core_gate a st")
  case (Pair b st1)
  show ?thesis
  proof (cases b)
    case True
    then show ?thesis using assms Pair stash_covers(3)[of cfg a st1]
      by (auto simp: applyAssignmentWithPrevCore_def Let_def scheduleApplyRetry_def split: prod.splits option.splits)
  next
    case False
    then have "superseded a st" using Pair by (auto simp: core_gate_def superseded_def split: if_splits option.splits)
    then show ?thesis using assms Pair False by (simp add: applyAssignmentWithPrevCore_def)
  qed
qed

lemma apply_outcome:
  assumes "applyAssignment cfg a st w = (r, st', w')"
  shows "superseded a st \<or> wk_assignment st' = a \<and> committedAssignment st' = Some a \<or>
    covers (assignmentSupersedesForStash (wc_xxh3 cfg)) a (stashedApplyRetry st') \<and> applyRetryActive st' \<or>
    labelIncarnationMismatch cfg a \<or> r = Some JitterCancelled"
  using assms core_outcome by (fastforce simp: applyAssignment_def split: if_splits prod.splits bool.splits)

lemma built_coords:
  "buildAssignmentFromCommit cfg c w = (Some a, w') \<Longrightarrow> as_Version a = cm_Version c \<and> as_LeaderRevision a = cm_LeaderRevision c"
  by (auto simp: buildAssignmentFromCommit_def Let_def split: if_splits option.splits prod.splits sum.splits)

definition fresh_commit :: "assignment_commit \<Rightarrow> worker \<Rightarrow> bool" where
  "fresh_commit c st \<longleftrightarrow> as_Version (wk_assignment st) < cm_Version c \<and> lastSeenLeaderRevision st \<le> cm_LeaderRevision c \<and>
     selectAuthority (Some c) (lastSeenAlias st) (lastSeenLeaderRevision st) = AuthorityCommit"

definition newer_target :: "assignment_commit \<Rightarrow> worker \<Rightarrow> bool" where
  "newer_target c st \<longleftrightarrow> (\<exists>f. highestAcceptedTarget st = Some f \<and>
     isApplyResultStale (target_assignment (cm_Version c, cm_LeaderRevision c)) (target_assignment f))"

lemma superseded_newer:
  assumes "fresh_commit c st" "0 \<le> as_Version (wk_assignment st)" "fence_ok (highestAcceptedTarget st)"
    "as_Version a = cm_Version c" "as_LeaderRevision a = cm_LeaderRevision c" "wk_assignment st1 = wk_assignment st"
    "highestAcceptedTarget st1 = highestAcceptedTarget st" "superseded a (raiseAcceptedTarget (cm_Version c) (cm_LeaderRevision c) st1)"
  shows "newer_target c st"
  using assms
  by (auto simp: superseded_def newer_target_def fresh_commit_def isApplyResultStale_def target_assignment_def raiseAcceptedTarget_def fence_ok_def
      split: option.splits if_splits)

text \<open>The places where an admitted commit is accounted for.\<close>

definition accounted :: "'w worker_cfg \<Rightarrow> assignment_commit \<Rightarrow> assignment_commit option \<Rightarrow> worker \<Rightarrow> bool" where
  "accounted cfg c d st \<longleftrightarrow>
     (\<exists>p. d = Some p \<and> commitSupersedesForStash p c) \<or>
     covers commitSupersedesForStash c (stashedFetchRetry st) \<and> fetchRetryActive st \<or>
     (\<exists>a. as_Version a = cm_Version c \<and> as_LeaderRevision a = cm_LeaderRevision c \<and>
        (wk_assignment st = a \<and> committedAssignment st = Some a \<or>
         covers (assignmentSupersedesForStash (wc_xxh3 cfg)) a (stashedApplyRetry st) \<and> applyRetryActive st \<or>
         labelIncarnationMismatch cfg a))"

lemma raise_flight [simp]: "stashedCommit (raiseAcceptedTarget v lr st) = stashedCommit st"
  by (simp add: raiseAcceptedTarget_def split: option.splits)

lemma fetch_retry_flight [simp]:
  "stashedCommit (scheduleCommitFetchRetry c st) = stashedCommit st"
  "pendingApplyInFlight (scheduleCommitFetchRetry c st) = pendingApplyInFlight st"
  by (simp_all add: scheduleCommitFetchRetry_def stashFetchRetryCandidate_def split: option.splits)



text \<open>An idle worker whose payload can be read and whose coordinator accepts the assignment ends with it.\<close>

lemma commit_applied:
  assumes f: "fresh_commit c st" "\<not> pendingApplyInFlight st" "stashedCommit st = None" "\<not> newer_target c st"
    and inv: "worker_inv (wc_xxh3 cfg) (free st)" and b: "buildAssignmentFromCommit cfg c w = (Some a, w1)"
    and ok: "\<not> labelIncarnationMismatch cfg a" "wc_ApplyStartJitter cfg \<le> 0" "\<And>prev u. fst (wc_Apply cfg (wc_workerID cfg) prev a u) = None"
    and run: "handleCommitValue cfg (Some c) st w = (st', w')"
  shows "wk_assignment st' = a \<and> committedAssignment st' = Some a \<and> ack_of (wc_xxh3 cfg) a (wk_applied st')"
proof -
  let ?s3 = "raiseAcceptedTarget (cm_Version c) (cm_LeaderRevision c) (st\<lparr>lastObservedCommit := Some c, pendingApplyInFlight := True\<rparr>)"
  obtain r s4 w2 where ap: "applyAssignment cfg a ?s3 w1 = (r, s4, w2)" by (metis prod_cases3)
  have "stashedCommit s4 = None" using apply_stash[OF ap] f(3) by simp
  then have st': "st' = s4\<lparr>pendingApplyInFlight := False, stashedCommit := None\<rparr>"
    using run f b ap unfolding fresh_commit_def by (simp add: handleCommitValueOnce_def Let_def)
  have v: "as_Version a = cm_Version c" "as_LeaderRevision a = cm_LeaderRevision c" using built_coords[OF b] by simp_all
  have "\<not> superseded a ?s3"
    using superseded_newer[OF f(1) _ _ v, of "st\<lparr>lastObservedCommit := Some c, pendingApplyInFlight := True\<rparr>"]
      inv_version[OF inv] inv_fence[OF inv] f(4) by auto
  moreover have core: "applyAssignmentWithPrevCore cfg a ?s3 w1 = (r, s4, w2)" using ap ok by (simp add: applyAssignment_def)
  moreover have "r = None" using core ok(3)
    by (auto simp: applyAssignmentWithPrevCore_def Let_def split: prod.splits bool.splits option.splits) (metis fst_conv option.distinct(1))+
  ultimately have "wk_assignment st' = a \<and> committedAssignment st' = Some a" using core_outcome[OF core] st' by auto
  moreover have "worker_inv (wc_xxh3 cfg) (free st')"
    using worker_steps_inv[OF handle_commit_steps[OF run inv] inv] by simp
  ultimately show ?thesis by (simp add: worker_inv_def Let_def)
qed

section \<open>Debouncing\<close>

text \<open>What a commit says about a worker: the hash of its payload, if it is in the commit.\<close>

definition slice :: "string \<Rightarrow> assignment_commit \<Rightarrow> string option" where
  "slice wid c = (if commitContainsWorker c wid then Some (ref_PayloadHash (map_get zero_ref (cm_Payloads c) wid)) else None)"

lemma changed_iff: "workerAssignmentChanged p c wid \<longleftrightarrow> slice wid p \<noteq> slice wid c"
  by (simp add: workerAssignmentChanged_def slice_def Let_def)

text \<open>Deliveries and expiries of the debounce timer, then the flush at the end.\<close>

datatype debounce_event = Delivered assignment_commit | TimerFires

fun debounce :: "debounce_event list \<Rightarrow> debouncer \<Rightarrow> assignment_commit list" where
  "debounce [] d = fst (flush d)"
| "debounce (Delivered c # es) d = (case stage c d of (out, d) \<Rightarrow> out @ debounce es d)"
| "debounce (TimerFires # es) d = (case flush d of (out, d) \<Rightarrow> out @ debounce es d)"

fun delivered :: "debounce_event list \<Rightarrow> assignment_commit list" where
  "delivered [] = []"
| "delivered (Delivered c # es) = c # delivered es"
| "delivered (TimerFires # es) = delivered es"

definition pending_list :: "debouncer \<Rightarrow> assignment_commit list" where
  "pending_list d = (case db_pending d of None \<Rightarrow> [] | Some p \<Rightarrow> [p])"

text \<open>One list of commits conveys another to a worker: it skips only commits after which the slice of the
  worker is what it is after the next one, and it ends with the same commit.\<close>

definition conveys :: "string \<Rightarrow> assignment_commit list \<Rightarrow> assignment_commit list \<Rightarrow> bool" where
  "conveys wid out cs \<longleftrightarrow>
     remdups_adj (map (slice wid) out) = remdups_adj (map (slice wid) cs) \<and> subseq out cs \<and>
     (cs \<noteq> [] \<longrightarrow> out \<noteq> [] \<and> last out = last cs)"

lemma conveys_refl [simp]: "conveys wid cs cs"
  by (simp add: conveys_def)

lemma conveys_Cons: "conveys wid out cs \<Longrightarrow> conveys wid (c # out) (c # cs)"
  by (auto simp: conveys_def remdups_adj_Cons)

lemma conveys_skip: "conveys wid out (c # cs) \<Longrightarrow> slice wid p = slice wid c \<Longrightarrow> conveys wid out (p # c # cs)"
  by (auto simp: conveys_def remdups_adj_Cons split: list.splits)

lemma debounce_conveys:
  "sorted (map cm_Version (pending_list d @ delivered es)) \<Longrightarrow> db_debounce d \<or> db_pending d = None \<Longrightarrow>
   conveys (db_workerID d) (debounce es d) (pending_list d @ delivered es)"
proof (induction es arbitrary: d)
  case Nil
  then show ?case by (simp add: flush_def pending_list_def split: option.splits)
next
  case (Cons e es)
  let ?out = "fst (case e of Delivered c \<Rightarrow> stage c d | TimerFires \<Rightarrow> flush d)"
  let ?d = "snd (case e of Delivered c \<Rightarrow> stage c d | TimerFires \<Rightarrow> flush d)"
  have wid: "db_workerID ?d = db_workerID d" by (auto simp: stage_def flush_def split: debounce_event.splits option.splits)
  have ih: "sorted (map cm_Version (pending_list ?d @ delivered es)) \<Longrightarrow> db_debounce ?d \<or> db_pending ?d = None \<Longrightarrow>
      conveys (db_workerID d) (debounce es ?d) (pending_list ?d @ delivered es)"
    using Cons.IH[of ?d] unfolding wid .
  have run: "debounce (e # es) d = ?out @ debounce es ?d" by (cases e) (simp_all split: prod.splits)
  show ?case
  proof (cases e)
    case (Delivered c)
    show ?thesis
    proof (cases "db_pending d")
      case None
      then show ?thesis using run ih Delivered Cons.prems
        by (cases "db_debounce d") (auto simp: stage_def pending_list_def conveys_Cons)
    next
      case (Some p)
      then have "db_debounce d" "\<not> cm_Version c < cm_Version p" using Cons.prems Delivered by (auto simp: pending_list_def)
      then show ?thesis using run ih Delivered Cons.prems Some
        by (cases "slice (db_workerID d) p = slice (db_workerID d) c")
          (auto simp: stage_def pending_list_def changed_iff intro: conveys_Cons conveys_skip)
    qed
  next
    case TimerFires
    then show ?thesis using run ih Cons.prems by (cases "db_pending d") (auto simp: flush_def pending_list_def conveys_Cons)
  qed
qed

text \<open>C38: The debouncer in front of the commit handler hides nothing from the worker. When commits arrive
  in the order of their versions, whatever the debounce window and whenever its timer fires, what is
  dispatched in the end is a subsequence of what arrived with the same sequence of distinct slices of
  this worker, and the last commit that arrived is dispatched last.\<close>

theorem debounce_equiv:
  assumes "sorted (map cm_Version (delivered es))"
  shows "conveys workerID (debounce es (newCommitDebouncer window workerID)) (delivered es) \<and>
    (window \<le> 0 \<longrightarrow> debounce es (newCommitDebouncer window workerID) = delivered es)"
proof -
  let ?d = "newCommitDebouncer window workerID"
  have d: "pending_list ?d = []" "db_pending ?d = None" "db_workerID ?d = workerID" by (simp_all add: newCommitDebouncer_def pending_list_def)
  have "debounce es e = delivered es" if "\<not> db_debounce e" "db_pending e = None" for e
    using that by (induction es e rule: debounce.induct) (simp_all add: stage_def flush_def)
  then have "window \<le> 0 \<longrightarrow> debounce es ?d = delivered es" using d by (simp add: newCommitDebouncer_def)
  then show ?thesis using debounce_conveys[of ?d es] assms d by simp
qed

definition ex_slice :: "i64 \<Rightarrow> string \<Rightarrow> assignment_commit" where
  "ex_slice v h = (ex_commit v 7)\<lparr>cm_Payloads := [(''w2'', zero_ref\<lparr>ref_PayloadHash := h\<rparr>)]\<rparr>"

definition ex_debounce :: "debounce_event list" where
  "ex_debounce = [Delivered (ex_slice 1 ''a''), Delivered (ex_slice 2 ''a''), Delivered (ex_slice 3 ''b''), TimerFires,
     Delivered (ex_slice 4 ''b''), Delivered (ex_slice 5 ''b'')]"

theorem debounce_equiv_witness:
  "conveys ''w2'' (debounce ex_debounce (newCommitDebouncer 50 ''w2'')) (delivered ex_debounce) \<and>
   map cm_Version (debounce ex_debounce (newCommitDebouncer 50 ''w2'')) = [2, 3, 5]"
proof -
  have "sorted (map cm_Version (delivered ex_debounce))" by (simp add: ex_debounce_def ex_slice_def ex_commit_def)
  moreover have "map cm_Version (debounce ex_debounce (newCommitDebouncer 50 ''w2'')) = [2, 3, 5]" by code_simp
  ultimately show ?thesis using debounce_equiv[of ex_debounce "''w2''" 50] by simp
qed

section \<open>Removal guard\<close>

context claim_store_laws
begin

lemma guard_claims_seen:
  assumes "ok w" "guard_claims S wid batch ps w = (None, w')"
  shows "env w w' \<and> (\<forall>p\<in>set ps. SubjectKey p \<in> set batch \<longrightarrow>
    (\<exists>w1 c n. env w w1 \<and> env w1 w' \<and> claims w1 (SubjectKey p) = Some (c, n) \<and> committed_elsewhere wid c n))"
  using assms
proof (induction ps arbitrary: w)
  case (Cons p ps)
  show ?case
  proof (cases "SubjectKey p \<in> set batch")
    case True
    obtain r u where g: "cs_Get S (SubjectKey p) w = (r, u)" by fastforce
    obtain c n where r: "r = Inr (c, n)" "committed_elsewhere wid c n" and rest: "guard_claims S wid batch ps u = (None, w')"
      using Cons.prems(2) True g by (auto simp: Let_def split: sum.splits if_splits)
    obtain w1 where w1: "env w w1" "env w1 u" "claims w1 (SubjectKey p) = Some (c, n)"
      using get_law[OF Cons.prems(1) g] r by (auto simp: committed_elsewhere_def split: if_splits)
    have ok: "ok w1" "ok u" using env_ok Cons.prems(1) w1 by blast+
    have ih: "env u w'" using Cons.IH[OF ok(2) rest] by simp
    have wu: "env w u" using env_trans[OF Cons.prems(1) w1(1,2)] .
    have "\<exists>w1 c n. env w w1 \<and> env w1 w' \<and> claims w1 (SubjectKey q) = Some (c, n) \<and> committed_elsewhere wid c n"
      if q: "q \<in> set (p # ps)" "SubjectKey q \<in> set batch" for q
    proof (cases "q = p")
      case True
      then show ?thesis using w1 r(2) env_trans[OF ok(1) w1(2) ih] by blast
    next
      case False
      then obtain v c n where v: "env u v" "env v w'" "claims v (SubjectKey q) = Some (c, n)" "committed_elsewhere wid c n"
        using Cons.IH[OF ok(2) rest] q by auto
      then show ?thesis using env_trans[OF Cons.prems(1) wu] by blast
    qed
    then show ?thesis using env_trans[OF Cons.prems(1) wu ih] by blast
  next
    case False
    then show ?thesis using Cons by (auto simp: Let_def)
  qed
qed (simp add: env_refl)

end


text \<open>A claim bucket with the partition \<open>p\<close> stable at \<open>w2\<close>, and a commit of \<open>w2\<close> with that partition.\<close>

definition ex_batch_kv :: "(asg_value, claim_value mem_world) kv" where
  "ex_batch_kv = \<lparr>
     kv_Get = (\<lambda>k w. (Inr \<lparr>ent_Value = (if k = ''assignment.'' @ commitKeyName then VCommit ((ex_commit 3 7)\<lparr>cm_Payloads :=
          [(''w2'', \<lparr>ref_Key = ''k'', ref_PayloadHash = ''p'', ref_SetDigest = PartitionSetDigest ex_xxh3 [ex_part ''p''], ref_Revision = 1\<rparr>)]\<rparr>)
        else VPayload \<lparr>pl_SchemaVersion = 1, pl_Partitions = [ex_part ''p''], pl_WorkerLabels = [], pl_WorkerLabelsKnown = False\<rparr>),
        ent_Revision = 1, ent_Created = 0\<rparr>, w)),
     kv_Create = (\<lambda>k v w. (Inl ErrKeyExists, w)), kv_Update = (\<lambda>k v n w. (Inl ErrKeyExists, w)), kv_Put = (\<lambda>k v w. (Inl ErrKeyExists, w)),
     kv_Delete = (\<lambda>k n w. (None, w)), kv_Keys = (\<lambda>w. (Inr [], w))\<rparr>"

definition ex_guard_cfg :: "claim_value mem_world worker_cfg" where
  "ex_guard_cfg = \<lparr>wc_workerID = ''w1'', wc_assignmentKV = ex_batch_kv, wc_gz = (\<lambda>_. False),
     wc_hash = (\<lambda>_. ''p''), wc_xxh3 = ex_xxh3,
     wc_workerLabels = [], wc_ApplyStartJitter = 0, wc_jitter = (\<lambda>w. (False, w)), wc_Apply = (\<lambda>_ _ a w. (None, w)),
     wc_Now = (\<lambda>w. (snd w, w)), wc_PublishNow = (\<lambda>_ w. w), wc_calc = (\<lambda>w. (CalcStateIdle, w)),
     wc_claimStore = Some (NewNATSClaimStoreWithProbe (mem_kv []) None ''claims''),
     wc_errorFlags = (\<lambda>_. \<lparr>is_StreamMissing = False, is_KVUnavailable = False, is_timeout = False, isWholeBucketLoss = False\<rparr>),
     wc_epochMismatch = (\<lambda>w. (False, w)), wc_heartbeatUnavailable = (\<lambda>w. (False, w)), wc_degraded = wc_degraded (ex_wcfg [])\<rparr>"

definition ex_guard_world :: "claim_value mem_world" where
  "ex_guard_world = (\<lparr>bk_last = 2, bk_entries = (\<lambda>_. None)(''claims/p'' \<mapsto>
     \<lparr>ent_Value = VClaim (ex_claim\<lparr>Owner := ''w2'', State := ClaimStateStable\<rparr>), ent_Revision = 2, ent_Created = 1000\<rparr>)\<rparr>, 2000)"

abbreviation ex_guard_prev :: assignment where
  "ex_guard_prev \<equiv> empty_assignment\<lparr>as_Version := 2, as_Partitions := [ex_part ''p'']\<rparr>"

abbreviation ex_guard_next :: assignment where
  "ex_guard_next \<equiv> empty_assignment\<lparr>as_Version := 3\<rparr>"

abbreviation ex_guard_run :: "guard_error option \<times> worker \<times> claim_value mem_world" where
  "ex_guard_run \<equiv> guardHandoffRemoval ex_guard_cfg ''w1'' ex_guard_prev ex_guard_next (worker0 ex_manager) ex_guard_world"

lemma batch_read_only:
  assumes "\<And>k u. snd (kv_Get (wc_assignmentKV cfg) k u) = u"
  shows "snd (snd (currentCommitPartitionSet cfg v st w)) = w"
proof -
  have g: "kv_Get (wc_assignmentKV cfg) k u = (r, u') \<Longrightarrow> u' = u" for k u r u' using assms[of k u] by simp
  have f: "FetchAndVerifyCommitPayload (wc_assignmentKV cfg) gz H X ref u = (r, u') \<Longrightarrow> u' = u" for gz H X ref u r u'
    by (auto simp: FetchAndVerifyCommitPayload_def Let_def dest: g split: prod.splits sum.splits if_splits asg_value.splits)
  have k: "snd (commit_batch_keys cfg refs b u) = u" for refs b u
    by (induction refs arbitrary: b u) (auto dest: f split: prod.splits sum.splits)
  have "commit_batch_keys cfg refs b u = (r, u') \<Longrightarrow> u' = u" for refs b u r u' using k[of refs b u] by simp
  then show ?thesis
    by (auto simp: currentCommitPartitionSet_def readCommitEntry_def commitPartitionBatch_def dest!: g
        split: prod.splits sum.splits option.splits kv_error.splits if_splits)
qed


end
