(* ===== verification/Resolver.thy ===== *)
theory Resolver
  imports Claims "HOL-Library.Sublist"
begin

text \<open>
  The cache of claims in front of the processing gate, \<^verbatim>\<open>internal/durable/claim_resolver.go\<close>, and
  the gate itself, \<^verbatim>\<open>internal/durable/processing_gate.go\<close>. The cache is fed by a watcher, by a
  periodic reconciler that walks the bucket and by forced refreshes; every update carries a revision and
  the three meet in one lock. Metrics, logging, the supervision of the watcher and the delays of a
  negative acknowledgement are left out.
\<close>

section \<open>The cache\<close>

datatype handoff_state = HandoffStateUnknown | HandoffStateStable | HandoffStatePrepare | HandoffStateCommit

definition toState :: "ClaimState \<Rightarrow> handoff_state" where
  "toState cs =
     (if cs = ClaimStateStable then HandoffStateStable
      else if cs = ClaimStatePrepare then HandoffStatePrepare
      else if cs = ClaimStateCommit then HandoffStateCommit
      else HandoffStateUnknown)"

record claim_entry =
  ce_owner :: string
  ce_state :: handoff_state
  ce_epoch :: i64
  ce_revision :: nat
  ce_deleted :: bool

definition entry_of :: "claim \<Rightarrow> nat \<Rightarrow> claim_entry" where
  "entry_of cl n = \<lparr>ce_owner = Owner cl, ce_state = toState (State cl), ce_epoch = Epoch cl, ce_revision = n, ce_deleted = False\<rparr>"

definition tombstone :: "nat \<Rightarrow> claim_entry" where
  "tombstone n = \<lparr>ce_owner = [], ce_state = HandoffStateUnknown, ce_epoch = 0, ce_revision = n, ce_deleted = True\<rparr>"

text \<open>A staged change: a deletion or the raw bytes of a claim, with its revision.\<close>

datatype pending = PDelete nat | PUpsert claim_value nat

fun p_revision :: "pending \<Rightarrow> nat" where
  "p_revision (PDelete n) = n"
| "p_revision (PUpsert _ n) = n"

record resolver =
  rs_cache :: "(string, claim_entry) gomap"
  lastRefresh :: "string \<rightharpoonup> time"
  gateLatchValid :: bool
  gateLatch :: kv_stream_pos
  gateSkipsSinceFull :: int
  gateUnsafeSeen :: bool
  driftRestartPending :: bool
  lastDriftRestartNano :: int

text \<open>\<open>rc_sleep\<close> waits and tells whether the resolver was stopped meanwhile; \<open>rc_stopWatcher\<close> stops the
  current watcher.\<close>

record 'w resolver_cfg =
  rc_kv :: "(claim_value, 'w) kv"
  claimsPref :: string
  refreshCooldown :: duration
  driftRestartCooldown :: duration
  batchMaxItems :: int
  gateMaxSkips :: int
  gateConfirmGap :: duration
  rc_streamPos :: "('w \<Rightarrow> (probe_error + kv_stream_pos) \<times> 'w) option"
  rc_Now :: "'w \<Rightarrow> time \<times> 'w"
  rc_sleep :: "duration \<Rightarrow> 'w \<Rightarrow> bool \<times> 'w"
  rc_stopWatcher :: "'w \<Rightarrow> 'w"

definition GetOwner :: "string \<Rightarrow> resolver \<Rightarrow> (string \<times> handoff_state \<times> i64) option" where
  "GetOwner partitionID r =
     (case map_of (rs_cache r) partitionID of
        None \<Rightarrow> None
      | Some e \<Rightarrow> if ce_deleted e then None else Some (ce_owner e, ce_state e, ce_epoch e))"

section \<open>Updates\<close>

text \<open>One staged change under the lock.\<close>

definition apply_pending :: "string \<times> pending \<Rightarrow> (string, claim_entry) gomap \<Rightarrow> (string, claim_entry) gomap" where
  "apply_pending pp cache =
     (let pid = fst pp; p = snd pp
      in if (case map_of cache pid of None \<Rightarrow> False | Some existing \<Rightarrow> ce_revision existing \<ge> p_revision p) then cache
         else case p of
                PDelete n \<Rightarrow> AList.update pid (tombstone n) cache
              | PUpsert v n \<Rightarrow>
                  (case UnmarshalClaim v of None \<Rightarrow> cache | Some cl \<Rightarrow> AList.update pid (entry_of cl n) cache))"

definition applyPendingBatch :: "(string, pending) gomap \<Rightarrow> resolver \<Rightarrow> resolver" where
  "applyPendingBatch pendingByPID r = r\<lparr>rs_cache := fold apply_pending pendingByPID (rs_cache r)\<rparr>"

text \<open>A forced refresh after the read.\<close>

definition refresh_store :: "string \<Rightarrow> claim \<Rightarrow> nat \<Rightarrow> resolver \<Rightarrow> resolver" where
  "refresh_store partitionID cl n r =
     (case map_of (rs_cache r) partitionID of
        Some existing \<Rightarrow>
          if ce_revision existing \<ge> n then r else r\<lparr>rs_cache := AList.update partitionID (entry_of cl n) (rs_cache r)\<rparr>
      | None \<Rightarrow> r\<lparr>rs_cache := AList.update partitionID (entry_of cl n) (rs_cache r)\<rparr>)"

datatype resolver_error = ResolverGet kv_error | ResolverDecode

definition ForceRefreshPartition :: "'w resolver_cfg \<Rightarrow> string \<Rightarrow> resolver \<Rightarrow> 'w \<Rightarrow> resolver_error option \<times> resolver \<times> 'w" where
  "ForceRefreshPartition cfg partitionID r w =
     (case (case lastRefresh r partitionID of
              None \<Rightarrow> (False, w)
            | Some l \<Rightarrow> (case rc_Now cfg w of (t, w) \<Rightarrow> (time_sub t l < refreshCooldown cfg, w))) of
        (True, w) \<Rightarrow> (None, r, w)
      | (False, w) \<Rightarrow>
          (case rc_Now cfg w of
             (t, w) \<Rightarrow>
               let r = r\<lparr>lastRefresh := (lastRefresh r)(partitionID \<mapsto> t)\<rparr>
               in (case kv_Get (rc_kv cfg) (claimsPref cfg @ partitionID) w of
                     (Inl err, w) \<Rightarrow> (Some (ResolverGet err), r, w)
                   | (Inr entry, w) \<Rightarrow>
                       (case UnmarshalClaim (ent_Value entry) of
                          None \<Rightarrow> (Some ResolverDecode, r, w)
                        | Some cl \<Rightarrow> (None, refresh_store partitionID cl (ent_Revision entry) r, w)))))"

definition no_keys_found :: "kv_error \<Rightarrow> bool" where
  "no_keys_found e =
     (case e of ErrNoKeysFound \<Rightarrow> True | ErrKV s \<Rightarrow> list_ex (\<lambda>t. has_prefix t ''no keys found'') (suffixes s) | _ \<Rightarrow> False)"

fun warm_keys :: "'w resolver_cfg \<Rightarrow> string list \<Rightarrow> (string, claim_entry) gomap \<Rightarrow> 'w \<Rightarrow> (string, claim_entry) gomap \<times> 'w" where
  "warm_keys cfg [] cache w = (cache, w)"
| "warm_keys cfg (k # ks) cache w =
     (if \<not> has_prefix k (claimsPref cfg) then warm_keys cfg ks cache w
      else case kv_Get (rc_kv cfg) k w of
             (Inl _, w) \<Rightarrow> warm_keys cfg ks cache w
           | (Inr entry, w) \<Rightarrow>
               (case UnmarshalClaim (ent_Value entry) of
                  None \<Rightarrow> warm_keys cfg ks cache w
                | Some cl \<Rightarrow>
                    warm_keys cfg ks (AList.update (drop (length (claimsPref cfg)) k) (entry_of cl (ent_Revision entry)) cache) w))"

definition warm :: "'w resolver_cfg \<Rightarrow> resolver \<Rightarrow> 'w \<Rightarrow> resolver_error option \<times> resolver \<times> 'w" where
  "warm cfg r w =
     (case kv_Keys (rc_kv cfg) w of
        (Inl err, w) \<Rightarrow>
          if no_keys_found err then (None, r\<lparr>rs_cache := []\<rparr>, w) else (Some (ResolverGet err), r, w)
      | (Inr keys, w) \<Rightarrow> (case warm_keys cfg keys [] w of (cache, w) \<Rightarrow> (None, r\<lparr>rs_cache := cache\<rparr>, w)))"

section \<open>The watcher\<close>

record watch_update =
  wu_Key :: string
  wu_Operation :: kv_operation
  wu_Value :: claim_value
  wu_Revision :: nat

definition handleWatcherUpdate :: "string \<Rightarrow> watch_update \<Rightarrow> (string, pending) gomap \<Rightarrow> (string, pending) gomap" where
  "handleWatcherUpdate pref upd pendingByPID =
     (if \<not> has_prefix (wu_Key upd) pref then pendingByPID
      else let pid = drop (length pref) (wu_Key upd)
           in if wu_Operation upd = KeyValueDelete \<or> wu_Operation upd = KeyValuePurge
              then AList.update pid (PDelete (wu_Revision upd)) pendingByPID
              else AList.update pid (PUpsert (wu_Value upd) (wu_Revision upd)) pendingByPID)"

text \<open>What the loop of the watcher wakes up for. The result tells whether the loop goes on.\<close>

datatype watcher_event = Updated watch_update | KeepAlive | ChannelClosed | BatchTimer | Stopped

definition processWatcher ::
  "'w resolver_cfg \<Rightarrow> watcher_event \<Rightarrow> (string, pending) gomap \<Rightarrow> resolver \<Rightarrow> bool \<times> (string, pending) gomap \<times> resolver" where
  "processWatcher cfg ev pendingByPID r =
     (case ev of
        Stopped \<Rightarrow> (False, pendingByPID, r)
      | ChannelClosed \<Rightarrow> (False, [], applyPendingBatch pendingByPID r)
      | KeepAlive \<Rightarrow> (True, pendingByPID, r)
      | BatchTimer \<Rightarrow> (True, [], applyPendingBatch pendingByPID r)
      | Updated upd \<Rightarrow>
          let pendingByPID = handleWatcherUpdate (claimsPref cfg) upd pendingByPID;
              batchMaxItems = (if batchMaxItems cfg \<le> 0 then 1024 else batchMaxItems cfg)
          in if int (length pendingByPID) \<ge> batchMaxItems then (True, [], applyPendingBatch pendingByPID r)
             else (True, pendingByPID, r))"

section \<open>The reconciler\<close>

text \<open>The read of the listed keys: the staged changes, the partitions seen and those that were listed but
  could not be read.\<close>

fun reconcile_keys ::
  "'w resolver_cfg \<Rightarrow> (string, claim_entry) gomap \<Rightarrow> string list \<Rightarrow> (string, pending) gomap \<times> string list \<times> string list \<Rightarrow> 'w \<Rightarrow>
     ((string, pending) gomap \<times> string list \<times> string list) \<times> 'w" where
  "reconcile_keys cfg snap [] acc w = (acc, w)"
| "reconcile_keys cfg snap (k # ks) (pend, seen, unreadable) w =
     (if \<not> has_prefix k (claimsPref cfg) then reconcile_keys cfg snap ks (pend, seen, unreadable) w
      else let pid = drop (length (claimsPref cfg)) k
           in case kv_Get (rc_kv cfg) k w of
                (Inl _, w) \<Rightarrow> reconcile_keys cfg snap ks (pend, seen, pid # unreadable) w
              | (Inr entry, w) \<Rightarrow>
                  let stale = (case map_of snap pid of None \<Rightarrow> False | Some existing \<Rightarrow> ce_revision existing \<ge> ent_Revision entry);
                      pend = (if stale then pend else AList.update pid (PUpsert (ent_Value entry) (ent_Revision entry)) pend)
                  in reconcile_keys cfg snap ks (pend, pid # seen, unreadable) w)"

definition stage_tombstones ::
  "(string, claim_entry) gomap \<Rightarrow> string list \<Rightarrow> string list \<Rightarrow> (string, pending) gomap \<Rightarrow> (string, pending) gomap" where
  "stage_tombstones snap seen unreadable pend =
     fold (\<lambda>(pid, e) pend. if ce_deleted e \<or> pid \<in> set seen \<or> pid \<in> set unreadable then pend
                          else AList.update pid (PDelete (ce_revision e + 1)) pend) snap pend"

definition requestWatcherRestartFromReconcile :: "'w resolver_cfg \<Rightarrow> resolver \<Rightarrow> 'w \<Rightarrow> resolver \<times> 'w" where
  "requestWatcherRestartFromReconcile cfg r w =
     (let cooldown = driftRestartCooldown cfg
      in if cooldown \<le> 0 then (r, w)
         else case (if lastDriftRestartNano r = 0 then (False, w)
                    else case rc_Now cfg w of (t, w) \<Rightarrow> (time_sub t (lastDriftRestartNano r) < cooldown, w)) of
                (True, w) \<Rightarrow> (r, w)
              | (False, w) \<Rightarrow>
                  (case rc_Now cfg w of
                     (t, w) \<Rightarrow> (r\<lparr>lastDriftRestartNano := t, driftRestartPending := True\<rparr>, rc_stopWatcher cfg w)))"

text \<open>The pass in two parts, between which the watcher may change the cache: the collection over the
  snapshot, which gives the batch and the cleanliness of the pass, and its application.\<close>

definition reconcile_collect ::
  "'w resolver_cfg \<Rightarrow> (string, claim_entry) gomap \<Rightarrow> 'w \<Rightarrow> ((string, pending) gomap \<times> bool) option \<times> 'w" where
  "reconcile_collect cfg snap w =
     (case (case kv_Keys (rc_kv cfg) w of
              (Inl err, w) \<Rightarrow> (if no_keys_found err then Some [] else None, w)
            | (Inr keys, w) \<Rightarrow> (Some keys, w)) of
        (None, w) \<Rightarrow> (None, w)
      | (Some keys, w) \<Rightarrow>
          (case reconcile_keys cfg snap keys ([], [], []) w of
             ((pend, seen, unreadable), w) \<Rightarrow> (Some (stage_tombstones snap seen unreadable pend, unreadable = []), w)))"

definition reconcileScan :: "'w resolver_cfg \<Rightarrow> resolver \<Rightarrow> 'w \<Rightarrow> bool \<times> resolver \<times> 'w" where
  "reconcileScan cfg r w =
     (case reconcile_collect cfg (rs_cache r) w of
        (None, w) \<Rightarrow> (False, r, w)
      | (Some (pendingByPID, clean), w) \<Rightarrow>
          if pendingByPID = [] then (clean, r, w)
          else (case requestWatcherRestartFromReconcile cfg (applyPendingBatch pendingByPID r) w of (r, w) \<Rightarrow> (clean, r, w)))"

definition gate_check :: "kv_stream_pos \<Rightarrow> resolver \<Rightarrow> bool \<times> resolver" where
  "gate_check pos r = (\<not> UnsafeConfig pos, r\<lparr>gateUnsafeSeen := UnsafeConfig pos\<rparr>)"

text \<open>The probe: the position if it can be used.\<close>

definition gateProbe :: "'w resolver_cfg \<Rightarrow> ('w \<Rightarrow> (probe_error + kv_stream_pos) \<times> 'w) \<Rightarrow> resolver \<Rightarrow> 'w \<Rightarrow> kv_stream_pos option \<times> resolver \<times> 'w" where
  "gateProbe cfg streamPos r w =
     (case streamPos w of
        (Inl err, w) \<Rightarrow> (None, r\<lparr>gateLatchValid := False\<rparr>, w)
      | (Inr pos, w) \<Rightarrow>
          (case gate_check pos r of
             (False, r) \<Rightarrow> (None, r\<lparr>gateLatchValid := False\<rparr>, w)
           | (True, r) \<Rightarrow> (Some pos, r, w)))"

definition reconcile_full :: "'w resolver_cfg \<Rightarrow> kv_stream_pos option \<Rightarrow> resolver \<Rightarrow> 'w \<Rightarrow> resolver \<times> 'w" where
  "reconcile_full cfg pos r w =
     (case reconcileScan cfg r w of
        (clean, r, w) \<Rightarrow>
          let r = (case pos of
                     Some p \<Rightarrow> if clean then r\<lparr>gateLatch := p, gateLatchValid := True\<rparr> else r\<lparr>gateLatchValid := False\<rparr>
                   | None \<Rightarrow> r\<lparr>gateLatchValid := False\<rparr>)
          in (r\<lparr>gateSkipsSinceFull := 0\<rparr>, w))"

definition reconcileOnce :: "'w resolver_cfg \<Rightarrow> resolver \<Rightarrow> 'w \<Rightarrow> resolver \<times> 'w" where
  "reconcileOnce cfg r w =
     (case rc_streamPos cfg of
        None \<Rightarrow> snd (reconcileScan cfg r w)
      | Some streamPos \<Rightarrow>
          (case gateProbe cfg streamPos r w of
             (pos, r, w) \<Rightarrow>
               if (case pos of Some p \<Rightarrow> gateLatchValid r \<and> Same p (gateLatch r) | None \<Rightarrow> False) \<and> \<not> gateSkipsSinceFull r \<ge> gateMaxSkips cfg
               then (case rc_sleep cfg (gateConfirmGap cfg) w of
                       (True, w) \<Rightarrow> (r, w)
                     | (False, w) \<Rightarrow>
                         (case gateProbe cfg streamPos r w of
                            (pos2, r, w) \<Rightarrow>
                              if (case pos2 of Some p \<Rightarrow> Same p (gateLatch r) | None \<Rightarrow> False)
                              then (r\<lparr>gateSkipsSinceFull := gateSkipsSinceFull r + 1\<rparr>, w)
                              else reconcile_full cfg pos2 r w))
               else reconcile_full cfg pos r w))"

section \<open>The gate\<close>

record processing_gate =
  pg_workerID :: string
  pg_Enabled :: bool
  subjPrefix :: string
  subjSuffix :: string
  warmupUntil :: "time option"
  allowedWarmup :: "handoff_state list"
  allowedSteady :: "handoff_state list"

text \<open>The defaults of \<open>applyDefaults\<close> on the lists of states.\<close>

definition gate_defaults :: "duration \<Rightarrow> handoff_state list \<Rightarrow> handoff_state list \<Rightarrow> handoff_state list \<times> handoff_state list" where
  "gate_defaults warmup allowed warmupAllowed =
     (if allowed = [] then [HandoffStateStable] else allowed,
      if warmup > 0 \<and> warmupAllowed = [] then [HandoffStateStable] else warmupAllowed)"

definition extractPartitionID :: "processing_gate \<Rightarrow> string \<Rightarrow> string option" where
  "extractPartitionID g subject =
     (if \<not> has_prefix subject (subjPrefix g) \<or> \<not> suffix (subjSuffix g) subject then None
      else let start = length (subjPrefix g);
               end = int (length subject) - int (length (subjSuffix g))
           in if int start > end then None else Some (take (nat end - start) (drop start subject)))"

datatype verdict = Handled | Nak string handoff_state string

definition gate_known :: "processing_gate \<Rightarrow> handoff_state list \<Rightarrow> string \<times> handoff_state \<times> i64 \<Rightarrow> verdict" where
  "gate_known g allowed own =
     (case own of (owner, state, _) \<Rightarrow>
        if owner = pg_workerID g
        then (if state \<in> set allowed then Handled else Nak owner state ''owner_disallowed_state'')
        else Nak owner state ''non_owner'')"

text \<open>The wrapped handler: \<open>Handled\<close> stands for the call of the handler below.\<close>

definition gate_Wrap :: "processing_gate \<Rightarrow> 'w resolver_cfg \<Rightarrow> string \<Rightarrow> resolver \<Rightarrow> 'w \<Rightarrow> verdict \<times> resolver \<times> 'w" where
  "gate_Wrap g cfg subj r w =
     (if \<not> pg_Enabled g then (Handled, r, w)
      else case (case warmupUntil g of
                   None \<Rightarrow> (allowedSteady g, w)
                 | Some u \<Rightarrow> (case rc_Now cfg w of
                       (t, w) \<Rightarrow> (if t < u \<and> allowedWarmup g \<noteq> [] then allowedWarmup g else allowedSteady g, w))) of
             (allowed, w) \<Rightarrow>
               (case extractPartitionID g subj of
                  None \<Rightarrow> (Handled, r, w)
                | Some pid \<Rightarrow>
                    (case GetOwner pid r of
                       Some own \<Rightarrow> (gate_known g allowed own, r, w)
                     | None \<Rightarrow>
                         (case ForceRefreshPartition cfg pid r w of
                            (_, r, w) \<Rightarrow>
                              (case GetOwner pid r of
                                 Some own \<Rightarrow> (gate_known g allowed own, r, w)
                               | None \<Rightarrow> (Nak [] HandoffStateUnknown ''unknown_ownership'', r, w))))))"

end
