(* ===== verification/Resolver_Safety.thy ===== *)
theory Resolver_Safety
  imports Resolver "HOL-Library.Multiset"
begin

text \<open>
  What the cache of claims promises to the gate: watcher, reconciler and forced refreshes, interleaved
  at will, put only claims into it that the bucket held, and never replace a claim by an older one; a
  reconcile pass over a bucket that does not change makes it exact.
\<close>

section \<open>What an update may say\<close>

text \<open>The bucket held the value for a partition at a moment since the start; a revision is dead when every
  claim of the partition is newer, now and later.\<close>

definition was ::
  "('w \<Rightarrow> claim_value bucket) \<Rightarrow> ('w \<Rightarrow> 'w \<Rightarrow> bool) \<Rightarrow> string \<Rightarrow> 'w \<Rightarrow> 'w \<Rightarrow> string \<Rightarrow> claim_value \<Rightarrow> nat \<Rightarrow> bool" where
  "was view env pref w0 w pid v n \<longleftrightarrow>
     (\<exists>u e. env w0 u \<and> env u w \<and> bk_entries (view u) (pref @ pid) = Some e \<and> ent_Value e = v \<and> ent_Revision e = n)"

definition dead :: "('w \<Rightarrow> claim_value bucket) \<Rightarrow> ('w \<Rightarrow> 'w \<Rightarrow> bool) \<Rightarrow> string \<Rightarrow> 'w \<Rightarrow> string \<Rightarrow> nat \<Rightarrow> bool" where
  "dead view env pref w pid n \<longleftrightarrow> (\<forall>u e. env w u \<longrightarrow> bk_entries (view u) (pref @ pid) = Some e \<longrightarrow> n < ent_Revision e)"

definition pending_ok where
  "pending_ok view env pref w0 w pid p =
     (case p of PUpsert v n \<Rightarrow> was view env pref w0 w pid v n | PDelete n \<Rightarrow> dead view env pref w pid n)"

definition batch_ok where
  "batch_ok view env pref w0 w pend \<longleftrightarrow> (\<forall>(pid, p) \<in> set pend. pending_ok view env pref w0 w pid p)"

definition entry_ok where
  "entry_ok view env pref w0 w pid e \<longleftrightarrow>
     (if ce_deleted e then dead view env pref w pid (ce_revision e)
      else \<exists>v c. was view env pref w0 w pid v (ce_revision e) \<and> UnmarshalClaim v = Some c \<and> e = entry_of c (ce_revision e))"

definition cache_ok where
  "cache_ok view env pref w0 w cache \<longleftrightarrow> (\<forall>pid e. map_of cache pid = Some e \<longrightarrow> entry_ok view env pref w0 w pid e)"

lemma cache_entry: "cache_ok view env pref w0 w cache \<Longrightarrow> map_of cache pid = Some e \<Longrightarrow> entry_ok view env pref w0 w pid e"
  by (simp add: cache_ok_def)

lemma entry_live: "entry_ok view env pref w0 w pid e \<Longrightarrow> \<not> ce_deleted e \<Longrightarrow>
    \<exists>v c. was view env pref w0 w pid v (ce_revision e) \<and> UnmarshalClaim v = Some c \<and> e = entry_of c (ce_revision e)"
  unfolding entry_ok_def by (simp only: if_False)

lemma entry_dead: "entry_ok view env pref w0 w pid e \<Longrightarrow> ce_deleted e \<Longrightarrow> dead view env pref w pid (ce_revision e)"
  unfolding entry_ok_def by (simp only: if_True)

text \<open>Time passes.\<close>

lemma was_later: "kv_laws K view env \<Longrightarrow> env w w' \<Longrightarrow> was view env pref w0 w pid v n \<Longrightarrow> was view env pref w0 w' pid v n"
  unfolding was_def using kv_env_trans[of K view env] by blast

lemma dead_later: "kv_laws K view env \<Longrightarrow> env w w' \<Longrightarrow> dead view env pref w pid n \<Longrightarrow> dead view env pref w' pid n"
  unfolding dead_def using kv_env_trans[of K view env] by blast

lemma pending_later: "kv_laws K view env \<Longrightarrow> env w w' \<Longrightarrow> pending_ok view env pref w0 w pid p \<Longrightarrow> pending_ok view env pref w0 w' pid p"
  using was_later[of K view env w w'] dead_later[of K view env w w'] by (simp add: pending_ok_def split: pending.splits)

lemma batch_later: "kv_laws K view env \<Longrightarrow> env w w' \<Longrightarrow> batch_ok view env pref w0 w pend \<Longrightarrow> batch_ok view env pref w0 w' pend"
  using pending_later[of K view env w w'] by (auto simp: batch_ok_def)

lemma entry_later: "kv_laws K view env \<Longrightarrow> env w w' \<Longrightarrow> entry_ok view env pref w0 w pid e \<Longrightarrow> entry_ok view env pref w0 w' pid e"
  using was_later[of K view env w w'] dead_later[of K view env w w'] unfolding entry_ok_def by (simp split: if_splits) blast

lemma cache_later: "kv_laws K view env \<Longrightarrow> env w w' \<Longrightarrow> cache_ok view env pref w0 w c \<Longrightarrow> cache_ok view env pref w0 w' c"
  using entry_later[of K view env w w'] by (auto simp: cache_ok_def)

text \<open>A claim that was there is not newer than one that is there.\<close>

lemma was_le:
  assumes K: "kv_laws K view env" and wf: "bucket_wf (view w0)" and "was view env pref w0 w pid v n"
    "bk_entries (view w) (pref @ pid) = Some e"
  shows "n \<le> ent_Revision e \<and> (n = ent_Revision e \<longrightarrow> v = ent_Value e)"
proof -
  obtain u e0 where u: "env w0 u" "env u w" "bk_entries (view u) (pref @ pid) = Some e0" "ent_Value e0 = v" "ent_Revision e0 = n"
    using assms(3) by (auto simp: was_def)
  have wfu: "bucket_wf (view u)" using kv_env_wf[OF K u(1) wf] by simp
  have ev: "evolves (view u) (view w)" using kv_env_wf[OF K u(2) wfu] by simp
  have "n \<le> bk_last (view u)" using wfu u(3,5) by (auto simp: bucket_wf_def)
  then show ?thesis using evolvesD[OF ev, of "pref @ pid"] u(3,4,5) assms(4) by auto
qed

section \<open>The operations\<close>

lemma fold_lookup:
  "distinct (map fst pend) \<Longrightarrow> map_of (fold apply_pending pend cache) pid =
     (case map_of pend pid of None \<Rightarrow> map_of cache pid | Some p \<Rightarrow> map_of (apply_pending (pid, p) cache) pid)"
proof (induction pend arbitrary: cache)
  case (Cons x pend)
  obtain k p where x: "x = (k, p)" by (cases x)
  have other: "map_of (apply_pending (k, p) cache) q = map_of cache q" if "q \<noteq> k" for q
    using that by (auto simp: apply_pending_def Let_def map_simps split: pending.splits option.splits)
  have step: "map_of (apply_pending (pid, q) (apply_pending (k, p) cache)) pid = map_of (apply_pending (pid, q) cache) pid" if "pid \<noteq> k" for q
    using other[OF that] by (auto simp: apply_pending_def Let_def map_simps split: pending.splits option.splits)
  show ?case
  proof (cases "pid = k")
    case True
    then have "map_of pend pid = None" using Cons.prems x by (auto simp: map_of_eq_None_iff)
    then show ?thesis using Cons x True by simp
  next
    case False
    then show ?thesis using Cons x other[of pid] step by (auto split: option.splits)
  qed
qed simp

definition rev_of :: "(string, claim_entry) gomap \<Rightarrow> string \<Rightarrow> nat" where
  "rev_of cache pid = (case map_of cache pid of None \<Rightarrow> 0 | Some e \<Rightarrow> ce_revision e)"

definition cache_le :: "(string, claim_entry) gomap \<Rightarrow> (string, claim_entry) gomap \<Rightarrow> bool" where
  "cache_le c c' \<longleftrightarrow> (\<forall>pid. map_of c' pid = map_of c pid \<or> rev_of c pid < rev_of c' pid \<or> map_of c pid = None)"

lemma entry_of_ok: "was view env pref w0 w pid v n \<Longrightarrow> UnmarshalClaim v = Some c \<Longrightarrow> entry_ok view env pref w0 w pid (entry_of c n)"
  by (auto simp: entry_ok_def entry_of_def)

lemma cache_update: "cache_ok view env pref w0 w c \<Longrightarrow> entry_ok view env pref w0 w pid e \<Longrightarrow> cache_ok view env pref w0 w (AList.update pid e c)"
  by (auto simp: cache_ok_def map_simps)

lemma apply_pending_ok:
  assumes "cache_ok view env pref w0 w cache" "pending_ok view env pref w0 w pid p"
  shows "cache_ok view env pref w0 w (apply_pending (pid, p) cache)"
  using assms
  by (auto simp: cache_ok_def apply_pending_def Let_def map_simps pending_ok_def entry_ok_def tombstone_def entry_of_def
      split: pending.splits option.splits if_splits)

lemma batch_apply_ok:
  "cache_ok view env pref w0 w cache \<Longrightarrow> batch_ok view env pref w0 w pend \<Longrightarrow> cache_ok view env pref w0 w (fold apply_pending pend cache)"
  by (induction pend arbitrary: cache) (auto simp: batch_ok_def intro: apply_pending_ok)

lemma refresh_store_ok:
  assumes "cache_ok view env pref w0 w (rs_cache r)" "was view env pref w0 w pid v n" "UnmarshalClaim v = Some c"
  shows "cache_ok view env pref w0 w (rs_cache (refresh_store pid c n r))"
  using assms(1) cache_update[OF assms(1) entry_of_ok[OF assms(2,3)]] by (auto simp: refresh_store_def split: option.splits)

lemma apply_pending_le: "cache_le c c' \<Longrightarrow> cache_le c (apply_pending pp c')"
  by (fastforce simp: cache_le_def apply_pending_def Let_def map_simps rev_of_def tombstone_def entry_of_def split: pending.splits option.splits if_splits)

lemma batch_apply_le: "cache_le c c' \<Longrightarrow> cache_le c (fold apply_pending pend c')"
  by (induction pend arbitrary: c') (auto intro: apply_pending_le)

lemma cache_le_refl [simp]: "cache_le c c"
  by (simp add: cache_le_def)

lemma apply_batch_le [simp]: "cache_le (rs_cache r) (rs_cache (applyPendingBatch pend r))"
  by (simp add: applyPendingBatch_def batch_apply_le)

lemma refresh_store_le: "cache_le (rs_cache r) (rs_cache (refresh_store pid c n r))"
  by (auto simp: cache_le_def refresh_store_def map_simps rev_of_def entry_of_def split: option.splits if_splits)

section \<open>The reconcile pass\<close>

text \<open>What the listing of the keys means and that a deletion is an entry of the stream of its own, so that
  it takes a revision (no expiry of keys, which the scan gate of the resolver rejects as unsafe).\<close>

definition keys_listed :: "(claim_value, 'w) kv \<Rightarrow> ('w \<Rightarrow> claim_value bucket) \<Rightarrow> ('w \<Rightarrow> 'w \<Rightarrow> bool) \<Rightarrow> bool" where
  "keys_listed K view env \<longleftrightarrow> (\<forall>w r w' k. kv_Keys K w = (r, w') \<longrightarrow>
     (case r of Inr ks \<Rightarrow> k \<notin> set ks | Inl e \<Rightarrow> no_keys_found e) \<longrightarrow> (\<exists>w1. env w w1 \<and> env w1 w' \<and> bk_entries (view w1) k = None))"

definition deletes_marked :: "('w \<Rightarrow> claim_value bucket) \<Rightarrow> ('w \<Rightarrow> 'w \<Rightarrow> bool) \<Rightarrow> bool" where
  "deletes_marked view env \<longleftrightarrow> (\<forall>w w' k e. env w w' \<longrightarrow> bk_entries (view w) k = Some e \<longrightarrow> bk_entries (view w') k = None \<longrightarrow>
     bk_last (view w) < bk_last (view w'))"

lemma keys_absent:
  "keys_listed K view env \<Longrightarrow> kv_Keys K w = (r, w') \<Longrightarrow> (case r of Inr ks \<Rightarrow> k \<notin> set ks | Inl e \<Rightarrow> no_keys_found e) \<Longrightarrow>
   \<exists>w1. env w w1 \<and> env w1 w' \<and> bk_entries (view w1) k = None"
  unfolding keys_listed_def by (elim allE) auto

lemma absent_dead:
  assumes K: "kv_laws K view env" and "bucket_wf (view u)" "bk_entries (view u) (pref @ pid) = None" "n \<le> bk_last (view u)"
  shows "dead view env pref u pid n"
  unfolding dead_def
proof (intro allI impI)
  fix x e assume x: "env u x" "bk_entries (view x) (pref @ pid) = Some e"
  have "evolves (view u) (view x)" using kv_env_wf[OF K x(1) assms(2)] by simp
  then show "n < ent_Revision e" using evolvesD[of "view u" "view x" "pref @ pid"] assms(3,4) x(2) by auto
qed

lemma gone_dead:
  assumes K: "kv_laws K view env" "deletes_marked view env" and wf: "bucket_wf (view w0)"
    and "was view env pref w0 w pid v n" "env w u" "bk_entries (view u) (pref @ pid) = None"
  shows "dead view env pref u pid (n + 1)"
proof -
  obtain x e where x: "env w0 x" "env x w" "bk_entries (view x) (pref @ pid) = Some e" "ent_Revision e = n"
    using assms(4) by (auto simp: was_def)
  have wfx: "bucket_wf (view x)" using kv_env_wf[OF K(1) x(1) wf] by simp
  have xu: "env x u" using kv_env_trans[OF K(1) x(2) assms(5)] .
  have "n \<le> bk_last (view x)" using wfx x(3,4) by (auto simp: bucket_wf_def)
  moreover have "bk_last (view x) < bk_last (view u)" using K(2) xu x(3) assms(6) unfolding deletes_marked_def by blast
  ultimately have "n + 1 \<le> bk_last (view u)" by simp
  then show ?thesis using absent_dead[OF K(1) _ assms(6)] kv_env_wf[OF K(1) xu wfx] by blast
qed

lemma batch_update: "batch_ok view env pref w0 w pend \<Longrightarrow> pending_ok view env pref w0 w pid p \<Longrightarrow> batch_ok view env pref w0 w (AList.update pid p pend)"
  by (induction pend) (auto simp: batch_ok_def)

lemma has_prefix_drop: "has_prefix k pref \<Longrightarrow> pref @ drop (length pref) k = k"
  by (auto simp: has_prefix_def) (metis append_take_drop_id)

lemma get_was:
  assumes K: "kv_laws K view env" and "env w0 w" "kv_Get K k w = (Inr e, w')" "has_prefix k pref"
  shows "was view env pref w0 w' (drop (length pref) k) (ent_Value e) (ent_Revision e)"
proof -
  obtain u where u: "env w u" "get_resp k (view u) (Inr e)" "env u w'" using kv_get_ok[OF K assms(3)] by blast
  then show ?thesis using kv_env_trans[OF K assms(2) u(1)] has_prefix_drop[OF assms(4)] by (auto simp: was_def get_resp_def)
qed

lemma reconcile_keys_ok:
  assumes K: "kv_laws (rc_kv cfg) view env" and "env w0 w" "batch_ok view env (claimsPref cfg) w0 w pend"
    and "reconcile_keys cfg snap ks (pend, seen, unreadable) w = ((pend', seen', unreadable'), w')"
  shows "env w w' \<and> batch_ok view env (claimsPref cfg) w0 w' pend' \<and>
    set seen \<union> set unreadable \<union> {pid. claimsPref cfg @ pid \<in> set ks} \<subseteq> set seen' \<union> set unreadable'"
  using assms(2-4)
proof (induction ks arbitrary: pend seen unreadable w)
  case Nil
  then show ?case using kv_env_refl[OF K] by simp
next
  case (Cons k ks)
  let ?pid = "drop (length (claimsPref cfg)) k"
  show ?case
  proof (cases "has_prefix k (claimsPref cfg)")
    case True
    obtain r u where g: "kv_Get (rc_kv cfg) k w = (r, u)" by fastforce
    have wu: "env w u" by (rule kv_get_env[OF K g])
    have w0u: "env w0 u" using kv_env_trans[OF K Cons.prems(1) wu] .
    have b: "batch_ok view env (claimsPref cfg) w0 u pend" by (rule batch_later[OF K wu Cons.prems(2)])
    have pid: "claimsPref cfg @ ?pid = k" by (rule has_prefix_drop[OF True])
    obtain pend1 seen1 un1 where rest: "reconcile_keys cfg snap ks (pend1, seen1, un1) u = ((pend', seen', unreadable'), w')"
      and ok: "batch_ok view env (claimsPref cfg) w0 u pend1"
      and sub: "insert ?pid (set seen \<union> set unreadable) \<subseteq> set seen1 \<union> set un1"
    proof (cases r)
      case (Inl e)
      then show thesis using that[of pend seen "?pid # unreadable"] Cons.prems(3) True g b by (auto simp: Let_def)
    next
      case (Inr e)
      have "pending_ok view env (claimsPref cfg) w0 u ?pid (PUpsert (ent_Value e) (ent_Revision e))"
        using get_was[OF K Cons.prems(1) _ True] g Inr by (simp add: pending_ok_def)
      note up = batch_update[OF b this]
      let ?stale = "case map_of snap ?pid of None \<Rightarrow> False | Some existing \<Rightarrow> ce_revision existing \<ge> ent_Revision e"
      show thesis
        by (rule that[of "if ?stale then pend else AList.update ?pid (PUpsert (ent_Value e) (ent_Revision e)) pend" "?pid # seen" unreadable])
          (use Cons.prems(3) True g b Inr up in \<open>auto simp: Let_def\<close>)
    qed
    from Cons.IH[OF w0u ok rest] show ?thesis
      using sub pid kv_env_trans[OF K wu] by (auto simp: subset_iff)
  next
    case False
    then have "claimsPref cfg @ x \<noteq> k" for x by (auto simp: has_prefix_def)
    then show ?thesis using Cons False by (auto simp: subset_iff)
  qed
qed

lemma tombstones_ok:
  assumes "batch_ok view env pref w0 w pend"
    and "\<And>pid e. (pid, e) \<in> set snap \<Longrightarrow> \<not> ce_deleted e \<Longrightarrow> pid \<notin> set seen \<union> set unreadable \<Longrightarrow> dead view env pref w pid (ce_revision e + 1)"
  shows "batch_ok view env pref w0 w (stage_tombstones snap seen unreadable pend)"
  using assms
proof (induction snap arbitrary: pend)
  case (Cons x snap)
  obtain pid e where x: "x = (pid, e)" by (cases x)
  let ?p = "if ce_deleted e \<or> pid \<in> set seen \<or> pid \<in> set unreadable then pend else AList.update pid (PDelete (ce_revision e + 1)) pend"
  have "batch_ok view env pref w0 w ?p"
    using Cons.prems(1) Cons.prems(2)[of pid e] x batch_update[of view env pref w0 w pend pid] by (auto simp: pending_ok_def)
  then have "batch_ok view env pref w0 w (stage_tombstones snap seen unreadable ?p)" using Cons.IH[of ?p] Cons.prems(2) by auto
  then show ?case by (simp add: stage_tombstones_def x)
qed (simp add: stage_tombstones_def)

lemma collect_ok:
  assumes K: "kv_laws (rc_kv cfg) view env" "keys_listed (rc_kv cfg) view env" "deletes_marked view env" and wf: "bucket_wf (view w0)"
    and w: "env w0 w" and snap: "gomap_wf snap" "cache_ok view env (claimsPref cfg) w0 w snap"
    and c: "reconcile_collect cfg snap w = (Some (pend, clean), w')"
  shows "env w w' \<and> batch_ok view env (claimsPref cfg) w0 w' pend"
proof -
  obtain r u where ks: "kv_Keys (rc_kv cfg) w = (r, u)" by fastforce
  obtain keys pend1 seen un where keys: "keys = (case r of Inr ks \<Rightarrow> ks | Inl _ \<Rightarrow> [])" "case r of Inr ks \<Rightarrow> True | Inl e \<Rightarrow> no_keys_found e"
    and rk: "reconcile_keys cfg snap keys ([], [], []) u = ((pend1, seen, un), w')" and pend: "pend = stage_tombstones snap seen un pend1"
    using c ks by (auto simp: reconcile_collect_def split: sum.splits if_splits prod.splits)
  have wu: "env w u" by (rule kv_keys_env[OF K(1) ks])
  have "batch_ok view env (claimsPref cfg) w0 u []" by (simp add: batch_ok_def)
  note rko = reconcile_keys_ok[OF K(1) kv_env_trans[OF K(1) w wu] this rk]
  have "dead view env (claimsPref cfg) w' pid (ce_revision e + 1)" if e: "(pid, e) \<in> set snap" "\<not> ce_deleted e" "pid \<notin> set seen \<union> set un" for pid e
  proof -
    have "claimsPref cfg @ pid \<notin> set keys" using rko e(3) by auto
    then obtain x where x: "env w x" "env x u" "bk_entries (view x) (claimsPref cfg @ pid) = None"
      using keys_absent[OF K(2) ks, of "claimsPref cfg @ pid"] keys by (cases r) auto
    have "map_of snap pid = Some e" using e(1) snap(1) by (simp add: gomap_wf_def)
    then obtain v where "was view env (claimsPref cfg) w0 w pid v (ce_revision e)"
      using entry_live[OF cache_entry[OF snap(2)] e(2)] by blast
    from gone_dead[OF K(1,3) wf this x(1,3)]
    show ?thesis using dead_later[OF K(1) kv_env_trans[OF K(1) x(2)]] rko by blast
  qed
  then show ?thesis using tombstones_ok[of view env _ w0 w' pend1 snap seen un] rko wu kv_env_trans[OF K(1)] pend by blast
qed

section \<open>Interleaving\<close>

text \<open>What the goroutines have in hand between two steps: a claim that a forced refresh has read, the
  snapshot of the reconciler and the batch that it has collected.\<close>

datatype res_task = Fetched string claim nat | Snapped "(string, claim_entry) gomap" | Collected "(string, pending) gomap"

record res_run =
  rr_res :: resolver
  rr_pend :: "(string, pending) gomap"
  rr_tasks :: "res_task multiset"

text \<open>The watcher delivers what happened in the bucket: a value that it held, or a deletion, after which the
  key was absent at a revision not smaller than that of the deletion.\<close>

definition delivered ::
  "('w \<Rightarrow> claim_value bucket) \<Rightarrow> ('w \<Rightarrow> 'w \<Rightarrow> bool) \<Rightarrow> 'w \<Rightarrow> 'w \<Rightarrow> watch_update \<Rightarrow> bool" where
  "delivered view env w0 w upd \<longleftrightarrow> (\<exists>u. env w0 u \<and> env u w \<and>
     (if wu_Operation upd = KeyValuePut
      then \<exists>e. bk_entries (view u) (wu_Key upd) = Some e \<and> ent_Value e = wu_Value upd \<and> ent_Revision e = wu_Revision upd
      else bk_entries (view u) (wu_Key upd) = None \<and> wu_Revision upd \<le> bk_last (view u)))"

inductive res_step ::
  "'w resolver_cfg \<Rightarrow> ('w \<Rightarrow> claim_value bucket) \<Rightarrow> ('w \<Rightarrow> 'w \<Rightarrow> bool) \<Rightarrow> 'w \<Rightarrow> res_run \<times> 'w \<Rightarrow> res_run \<times> 'w \<Rightarrow> bool"
  for cfg view env w0 where
  outside: "env w w' \<Longrightarrow> res_step cfg view env w0 (s, w) (s, w')"
| watch: "(case ev of Updated upd \<Rightarrow> delivered view env w0 w upd | _ \<Rightarrow> True) \<Longrightarrow>
    processWatcher cfg ev (rr_pend s) (rr_res s) = (go, pend, r) \<Longrightarrow>
    res_step cfg view env w0 (s, w) (s\<lparr>rr_pend := (if go then pend else []), rr_res := r\<rparr>, w)"
| fetch: "kv_Get (rc_kv cfg) (claimsPref cfg @ pid) w = (Inr e, w') \<Longrightarrow> UnmarshalClaim (ent_Value e) = Some c \<Longrightarrow>
    res_step cfg view env w0 (s, w) (s\<lparr>rr_tasks := add_mset (Fetched pid c (ent_Revision e)) (rr_tasks s)\<rparr>, w')"
| store: "Fetched pid c n \<in># rr_tasks s \<Longrightarrow>
    res_step cfg view env w0 (s, w) (s\<lparr>rr_tasks := rr_tasks s - {#Fetched pid c n#}, rr_res := refresh_store pid c n (rr_res s)\<rparr>, w)"
| snapshot: "res_step cfg view env w0 (s, w) (s\<lparr>rr_tasks := add_mset (Snapped (rs_cache (rr_res s))) (rr_tasks s)\<rparr>, w)"
| collect: "Snapped snap \<in># rr_tasks s \<Longrightarrow> reconcile_collect cfg snap w = (Some (pend, clean), w') \<Longrightarrow>
    res_step cfg view env w0 (s, w) (s\<lparr>rr_tasks := add_mset (Collected pend) (rr_tasks s - {#Snapped snap#})\<rparr>, w')"
| rescue: "Collected pend \<in># rr_tasks s \<Longrightarrow>
    res_step cfg view env w0 (s, w) (s\<lparr>rr_tasks := rr_tasks s - {#Collected pend#}, rr_res := applyPendingBatch pend (rr_res s)\<rparr>, w)"
| bookkeeping: "rs_cache r = rs_cache (rr_res s) \<Longrightarrow> res_step cfg view env w0 (s, w) (s\<lparr>rr_res := r\<rparr>, w)"

definition task_ok where
  "task_ok cfg view env w0 w t \<longleftrightarrow>
     (case t of
        Fetched pid c n \<Rightarrow> \<exists>v. was view env (claimsPref cfg) w0 w pid v n \<and> UnmarshalClaim v = Some c
      | Snapped snap \<Rightarrow> gomap_wf snap \<and> cache_ok view env (claimsPref cfg) w0 w snap
      | Collected pend \<Rightarrow> batch_ok view env (claimsPref cfg) w0 w pend)"

definition res_inv where
  "res_inv cfg view env w0 sw \<longleftrightarrow>
     (case sw of (s, w) \<Rightarrow> env w0 w \<and> gomap_wf (rs_cache (rr_res s)) \<and> cache_ok view env (claimsPref cfg) w0 w (rs_cache (rr_res s)) \<and>
        batch_ok view env (claimsPref cfg) w0 w (rr_pend s) \<and> (\<forall>t. t \<in># rr_tasks s \<longrightarrow> task_ok cfg view env w0 w t))"

lemma task_later: "kv_laws K view env \<Longrightarrow> env w w' \<Longrightarrow> task_ok cfg view env w0 w t \<Longrightarrow> task_ok cfg view env w0 w' t"
  using was_later[of K view env w w'] cache_later[of K view env w w'] batch_later[of K view env w w']
  by (auto simp: task_ok_def split: res_task.splits) blast

lemma inv_later:
  assumes K: "kv_laws K view env" and w: "env w w'" and i: "res_inv cfg view env w0 (s, w)"
  shows "res_inv cfg view env w0 (s, w')"
  using i kv_env_trans[OF K _ w] cache_later[OF K w] batch_later[OF K w] task_later[OF K w, of cfg] by (auto simp: res_inv_def)

lemma inv_task: "res_inv cfg view env w0 (s, w) \<Longrightarrow> t \<in># rr_tasks s \<Longrightarrow> task_ok cfg view env w0 w t"
  by (simp add: res_inv_def)

lemma wf_apply: "gomap_wf c \<Longrightarrow> gomap_wf (fold apply_pending pend c)"
  by (induction pend arbitrary: c) (auto simp: apply_pending_def Let_def map_simps split: pending.splits option.splits)

lemma delivered_ok:
  assumes K: "kv_laws K view env" and wf: "bucket_wf (view w0)" and "delivered view env w0 w upd" "batch_ok view env pref w0 w pend"
  shows "batch_ok view env pref w0 w (handleWatcherUpdate pref upd pend)"
proof (cases "has_prefix (wu_Key upd) pref")
  case True
  note key = has_prefix_drop[OF True]
  obtain u where u: "env w0 u" "env u w" "if wu_Operation upd = KeyValuePut
      then \<exists>e. bk_entries (view u) (wu_Key upd) = Some e \<and> ent_Value e = wu_Value upd \<and> ent_Revision e = wu_Revision upd
      else bk_entries (view u) (wu_Key upd) = None \<and> wu_Revision upd \<le> bk_last (view u)"
    using assms(3) by (auto simp: delivered_def)
  have wfu: "bucket_wf (view u)" using kv_env_wf[OF K u(1) wf] by simp
  show ?thesis
  proof (cases "wu_Operation upd")
    case KeyValuePut
    then have "pending_ok view env pref w0 w (drop (length pref) (wu_Key upd)) (PUpsert (wu_Value upd) (wu_Revision upd))"
      using u key by (auto simp: pending_ok_def was_def)
    then show ?thesis using batch_update[OF assms(4)] KeyValuePut True by (simp add: handleWatcherUpdate_def Let_def)
  next
    case KeyValueDelete
    then have "dead view env pref u (drop (length pref) (wu_Key upd)) (wu_Revision upd)"
      using absent_dead[OF K wfu] u(3) key by simp
    then show ?thesis using dead_later[OF K u(2)] batch_update[OF assms(4)] KeyValueDelete True
      by (simp add: handleWatcherUpdate_def Let_def pending_ok_def)
  next
    case KeyValuePurge
    then have "dead view env pref u (drop (length pref) (wu_Key upd)) (wu_Revision upd)"
      using absent_dead[OF K wfu] u(3) key by simp
    then show ?thesis using dead_later[OF K u(2)] batch_update[OF assms(4)] KeyValuePurge True
      by (simp add: handleWatcherUpdate_def Let_def pending_ok_def)
  qed
qed (use assms(4) in \<open>simp add: handleWatcherUpdate_def\<close>)

lemma watch_ok:
  assumes K: "kv_laws K view env" and wf: "bucket_wf (view w0)" and i: "res_inv cfg view env w0 (s, w)"
    and "case ev of Updated upd \<Rightarrow> delivered view env w0 w upd | _ \<Rightarrow> True"
    and "processWatcher cfg ev (rr_pend s) (rr_res s) = (go, pend, r)"
  shows "res_inv cfg view env w0 (s\<lparr>rr_pend := (if go then pend else []), rr_res := r\<rparr>, w)"
proof -
  have b: "cache_ok view env (claimsPref cfg) w0 w (rs_cache (applyPendingBatch p (rr_res s)))" "gomap_wf (rs_cache (applyPendingBatch p (rr_res s)))"
    if "batch_ok view env (claimsPref cfg) w0 w p" for p
    using i that batch_apply_ok wf_apply by (auto simp: res_inv_def applyPendingBatch_def)
  have e: "batch_ok view env (claimsPref cfg) w0 w []" by (simp add: batch_ok_def)
  have u: "batch_ok view env (claimsPref cfg) w0 w (handleWatcherUpdate (claimsPref cfg) upd (rr_pend s))" if "ev = Updated upd" for upd
    using delivered_ok[OF K wf] i assms(4) that by (simp add: res_inv_def)
  show ?thesis using assms(5) i b e u
    by (cases ev) (auto simp: res_inv_def processWatcher_def Let_def split: if_splits)
qed

lemma res_step_inv:
  assumes K: "kv_laws (rc_kv cfg) view env" "keys_listed (rc_kv cfg) view env" "deletes_marked view env" and wf: "bucket_wf (view w0)"
  shows "res_step cfg view env w0 sw sw' \<Longrightarrow> res_inv cfg view env w0 sw \<Longrightarrow>
    res_inv cfg view env w0 sw' \<and> cache_le (rs_cache (rr_res (fst sw))) (rs_cache (rr_res (fst sw')))"
proof (induction rule: res_step.induct)
  case (outside w w' s)
  then show ?case using inv_later[OF K(1)] by simp
next
  case (watch ev w s go pend r)
  have "cache_le (rs_cache (rr_res s)) (rs_cache r)" using watch(2)
    by (cases ev) (auto simp: processWatcher_def Let_def split: if_splits)
  then show ?case using watch_ok[OF K(1) wf watch.prems watch.hyps] by simp
next
  case (fetch pid w e w' c s)
  have w': "env w w'" by (rule kv_get_env[OF K(1) fetch(1)])
  have p: "has_prefix (claimsPref cfg @ pid) (claimsPref cfg)" by (simp add: has_prefix_def)
  have "was view env (claimsPref cfg) w0 w' pid (ent_Value e) (ent_Revision e)"
    using get_was[OF K(1) _ fetch(1) p] fetch.prems by (simp add: res_inv_def)
  then have "task_ok cfg view env w0 w' (Fetched pid c (ent_Revision e))" using fetch(2) by (auto simp: task_ok_def)
  then show ?case using inv_later[OF K(1) w' fetch.prems] by (auto simp: res_inv_def)
next
  case (store pid c n s w)
  then obtain v where "was view env (claimsPref cfg) w0 w pid v n" "UnmarshalClaim v = Some c"
    using inv_task[OF store.prems store.hyps] by (auto simp: task_ok_def)
  then have "cache_ok view env (claimsPref cfg) w0 w (rs_cache (refresh_store pid c n (rr_res s)))"
    using store.prems by (intro refresh_store_ok) (auto simp: res_inv_def)
  moreover have "gomap_wf (rs_cache (refresh_store pid c n (rr_res s)))"
    using store.prems by (auto simp: res_inv_def refresh_store_def map_simps split: option.splits)
  ultimately show ?case using store.prems refresh_store_le by (auto simp: res_inv_def dest: in_diffD)
next
  case (snapshot s w)
  then show ?case by (auto simp: res_inv_def task_ok_def)
next
  case (collect snap s w pend clean w')
  have "task_ok cfg view env w0 w (Snapped snap)" by (rule inv_task[OF collect.prems collect.hyps(1)])
  then have c: "env w w' \<and> batch_ok view env (claimsPref cfg) w0 w' pend"
    using collect_ok[OF K wf _ _ _ collect(2)] collect.prems by (simp add: res_inv_def task_ok_def)
  have "res_inv cfg view env w0 (s, w')" using inv_later[OF K(1) _ collect.prems] c by simp
  then show ?case using c by (auto simp: res_inv_def task_ok_def dest: in_diffD)
next
  case (rescue pend s w)
  then have "batch_ok view env (claimsPref cfg) w0 w pend" using inv_task[OF rescue.prems rescue.hyps] by (simp add: task_ok_def)
  then show ?case using rescue.prems batch_apply_ok[of view env "claimsPref cfg" w0 w "rs_cache (rr_res s)" pend] wf_apply
    by (auto simp: res_inv_def applyPendingBatch_def batch_apply_le dest: in_diffD)
next
  case (bookkeeping r s w)
  then show ?case by (auto simp: res_inv_def)
qed

section \<open>The gate\<close>

definition clock_env :: "'w resolver_cfg \<Rightarrow> ('w \<Rightarrow> 'w \<Rightarrow> bool) \<Rightarrow> bool" where
  "clock_env cfg env \<longleftrightarrow> (\<forall>w t w'. rc_Now cfg w = (t, w') \<longrightarrow> env w w')"

lemma clock: "clock_env cfg env \<Longrightarrow> rc_Now cfg w = (t, w') \<Longrightarrow> env w w'"
  by (simp add: clock_env_def)

lemma refresh_ok:
  assumes K: "kv_laws (rc_kv cfg) view env" "clock_env cfg env" and w: "env w0 w" "cache_ok view env (claimsPref cfg) w0 w (rs_cache r)"
    and f: "ForceRefreshPartition cfg pid r w = (e, r', w')"
  shows "env w w' \<and> cache_ok view env (claimsPref cfg) w0 w' (rs_cache r') \<and> cache_le (rs_cache r) (rs_cache r')"
proof -
  obtain recent u where u: "(case lastRefresh r pid of None \<Rightarrow> (False, w)
      | Some l \<Rightarrow> (case rc_Now cfg w of (t, w) \<Rightarrow> (time_sub t l < refreshCooldown cfg, w))) = (recent, u)" by fastforce
  have wu: "env w u" using u clock[OF K(2)] kv_env_refl[OF K(1)] by (auto split: option.splits prod.splits)
  obtain t x where x: "rc_Now cfg u = (t, x)" by fastforce
  have wx: "env w x" using kv_env_trans[OF K(1) wu clock[OF K(2) x]] .
  let ?r = "r\<lparr>lastRefresh := (lastRefresh r)(pid \<mapsto> t)\<rparr>"
  obtain g y where g: "kv_Get (rc_kv cfg) (claimsPref cfg @ pid) x = (g, y)" by fastforce
  have wy: "env w y" using kv_env_trans[OF K(1) wx kv_get_env[OF K(1) g]] .
  have cy: "cache_ok view env (claimsPref cfg) w0 y (rs_cache ?r)" using cache_later[OF K(1) wy w(2)] by simp
  consider "w' = u" "r' = r" | "w' = y" "r' = ?r"
    | en c where "g = Inr en" "UnmarshalClaim (ent_Value en) = Some c" "w' = y" "r' = refresh_store pid c (ent_Revision en) ?r"
    using f unfolding ForceRefreshPartition_def u Let_def
    by (auto simp: x g split: bool.splits sum.splits option.splits)
  then show ?thesis
  proof cases
    case 1
    then show ?thesis using wu cache_later[OF K(1) wu w(2)] by simp
  next
    case 2
    then show ?thesis using wy cy by simp
  next
    case 3
    have "was view env (claimsPref cfg) w0 y pid (ent_Value en) (ent_Revision en)"
      using get_was[OF K(1) kv_env_trans[OF K(1) w(1) wx], of "claimsPref cfg @ pid" en y "claimsPref cfg"] g 3(1) by (simp add: has_prefix_def)
    then show ?thesis using 3 wy refresh_store_ok[OF cy _ 3(2)] refresh_store_le[of ?r pid c "ent_Revision en"] by simp
  qed
qed

lemma warm_keys_ok:
  assumes K: "kv_laws (rc_kv cfg) view env"
  shows "warm_keys cfg ks c w = (c', w') \<Longrightarrow> env w0 w \<Longrightarrow> gomap_wf c \<Longrightarrow> cache_ok view env (claimsPref cfg) w0 w c \<Longrightarrow>
    env w w' \<and> gomap_wf c' \<and> cache_ok view env (claimsPref cfg) w0 w' c'"
proof (induction ks arbitrary: c w)
  case Nil
  then show ?case using kv_env_refl[OF K] by simp
next
  case (Cons k ks)
  show ?case
  proof (cases "has_prefix k (claimsPref cfg)")
    case True
    obtain g u where g: "kv_Get (rc_kv cfg) k w = (g, u)" by fastforce
    have wu: "env w u" by (rule kv_get_env[OF K g])
    have w0u: "env w0 u" using kv_env_trans[OF K Cons.prems(2) wu] .
    have cu: "cache_ok view env (claimsPref cfg) w0 u c" by (rule cache_later[OF K wu Cons.prems(4)])
    obtain c1 where c1: "warm_keys cfg ks c1 u = (c', w')" "gomap_wf c1" "cache_ok view env (claimsPref cfg) w0 u c1"
    proof (cases "\<exists>en cl. g = Inr en \<and> UnmarshalClaim (ent_Value en) = Some cl")
      case True
      then obtain en cl where e: "g = Inr en" "UnmarshalClaim (ent_Value en) = Some cl" by blast
      have "was view env (claimsPref cfg) w0 u (drop (length (claimsPref cfg)) k) (ent_Value en) (ent_Revision en)"
        using get_was[OF K Cons.prems(2) _ \<open>has_prefix k (claimsPref cfg)\<close>] g e(1) by simp
      then have "cache_ok view env (claimsPref cfg) w0 u (AList.update (drop (length (claimsPref cfg)) k) (entry_of cl (ent_Revision en)) c)"
        by (rule cache_update[OF cu entry_of_ok[OF _ e(2)]])
      then show thesis using that[OF _ update_wf[OF Cons.prems(3)]] Cons.prems(1) \<open>has_prefix k (claimsPref cfg)\<close> g e by simp
    next
      case False
      then show thesis using that[OF _ Cons.prems(3) cu] Cons.prems(1) \<open>has_prefix k (claimsPref cfg)\<close> g
        by (cases g) (auto split: option.splits)
    qed
    then show ?thesis using Cons.IH[OF c1(1) w0u c1(2,3)] kv_env_trans[OF K wu] by blast
  next
    case False
    then show ?thesis using Cons by simp
  qed
qed

lemma warm_ok:
  assumes K: "kv_laws (rc_kv cfg) view env" and "warm cfg r w0 = (None, r', w)"
  shows "res_inv cfg view env w0 (\<lparr>rr_res = r', rr_pend = [], rr_tasks = {#}\<rparr>, w)"
proof -
  obtain g u where g: "kv_Keys (rc_kv cfg) w0 = (g, u)" by fastforce
  have wu: "env w0 u" by (rule kv_keys_env[OF K g])
  have e: "gomap_wf []" "cache_ok view env (claimsPref cfg) w0 u []" by (simp_all add: gomap_wf_def cache_ok_def)
  obtain ks where ks: "warm_keys cfg ks [] u = (rs_cache r', w)"
    using assms(2) g that[of "[]"] by (auto simp: warm_def split: sum.splits if_splits prod.splits)
  show ?thesis using warm_keys_ok[OF K ks wu e] kv_env_trans[OF K wu] by (simp add: res_inv_def batch_ok_def)
qed

lemma res_steps_inv:
  assumes K: "kv_laws (rc_kv cfg) view env" "keys_listed (rc_kv cfg) view env" "deletes_marked view env" and wf: "bucket_wf (view w0)"
  shows "(res_step cfg view env w0)\<^sup>*\<^sup>* sw sw' \<Longrightarrow> res_inv cfg view env w0 sw \<Longrightarrow> res_inv cfg view env w0 sw'"
  by (induction rule: rtranclp_induct) (auto dest: res_step_inv[OF K wf])


section \<open>Convergence\<close>

text \<open>A store that answers every read, with the content \<open>b\<close>, while nobody writes.\<close>

definition still :: "(claim_value, 'w) kv \<Rightarrow> ('w \<Rightarrow> claim_value bucket) \<Rightarrow> claim_value bucket \<Rightarrow> bool" where
  "still K view b \<longleftrightarrow> (\<forall>u. view u = b \<longrightarrow>
     (\<forall>k. \<exists>u'. kv_Get K k u = (case bk_entries b k of None \<Rightarrow> Inl ErrKeyNotFound | Some e \<Rightarrow> Inr e, u') \<and> view u' = b) \<and>
     (\<exists>ks u'. kv_Keys K u = (if ks = [] then Inl ErrNoKeysFound else Inr ks, u') \<and> set ks = {k. bk_entries b k \<noteq> None} \<and> view u' = b))"

lemma still_get: "still K view b \<Longrightarrow> view u = b \<Longrightarrow> \<exists>u'. kv_Get K k u = (case bk_entries b k of None \<Rightarrow> Inl ErrKeyNotFound | Some e \<Rightarrow> Inr e, u') \<and> view u' = b"
  unfolding still_def by blast

definition staged :: "(string, claim_entry) gomap \<Rightarrow> string \<Rightarrow> claim_value kv_entry \<Rightarrow> pending option \<Rightarrow> pending option" where
  "staged snap pid e p =
     (if (case map_of snap pid of None \<Rightarrow> False | Some existing \<Rightarrow> ce_revision existing \<ge> ent_Revision e) then p
      else Some (PUpsert (ent_Value e) (ent_Revision e)))"

lemma staged_idem [simp]: "staged snap pid e (staged snap pid e p) = staged snap pid e p"
  by (simp add: staged_def)

lemma reconcile_keys_still:
  assumes S: "still (rc_kv cfg) view b"
  shows "view w = b \<Longrightarrow> \<forall>k \<in> set ks. bk_entries b k \<noteq> None \<Longrightarrow> gomap_wf pend \<Longrightarrow>
    reconcile_keys cfg snap ks (pend, seen, unreadable) w = ((pend', seen', unreadable'), w') \<Longrightarrow>
    gomap_wf pend' \<and> unreadable' = unreadable \<and> set seen' = set seen \<union> {pid. claimsPref cfg @ pid \<in> set ks} \<and>
    (\<forall>pid. map_of pend' pid = (case bk_entries b (claimsPref cfg @ pid) of
        Some e \<Rightarrow> if claimsPref cfg @ pid \<in> set ks then staged snap pid e (map_of pend pid) else map_of pend pid
      | None \<Rightarrow> map_of pend pid))"
proof (induction ks arbitrary: pend seen w)
  case (Cons k ks)
  let ?pid = "drop (length (claimsPref cfg)) k"
  show ?case
  proof (cases "has_prefix k (claimsPref cfg)")
    case True
    note pid = has_prefix_drop[OF True]
    obtain e where e: "bk_entries b k = Some e" using Cons.prems(2) by auto
    obtain u where u: "kv_Get (rc_kv cfg) k w = (Inr e, u)" "view u = b" using still_get[OF S Cons.prems(1), of k] e by auto
    let ?stale = "case map_of snap ?pid of None \<Rightarrow> False | Some existing \<Rightarrow> ce_revision existing \<ge> ent_Revision e"
    obtain P where r: "reconcile_keys cfg snap ks (P, ?pid # seen, unreadable) u = ((pend', seen', unreadable'), w')"
      and wf: "gomap_wf P" and l: "\<And>q. map_of P q = (if q = ?pid then staged snap ?pid e (map_of pend ?pid) else map_of pend q)"
      by (rule that[of "if ?stale then pend else AList.update ?pid (PUpsert (ent_Value e) (ent_Revision e)) pend"])
        (use Cons.prems(3,4) True u in \<open>auto simp: Let_def map_simps staged_def\<close>)
    have q: "claimsPref cfg @ x = k \<longleftrightarrow> x = ?pid" for x using pid by (metis same_append_eq)
    note IH = Cons.IH[OF u(2) _ wf r]
    have "map_of pend' x = (case bk_entries b (claimsPref cfg @ x) of
        Some e \<Rightarrow> if claimsPref cfg @ x \<in> set (k # ks) then staged snap x e (map_of pend x) else map_of pend x
      | None \<Rightarrow> map_of pend x)" for x
    proof (cases "x = ?pid")
      case True
      then show ?thesis using IH Cons.prems(2) e pid l by simp
    next
      case False
      then have "claimsPref cfg @ x \<noteq> k" using q by simp
      moreover have "map_of P x = map_of pend x" using l False by simp
      ultimately show ?thesis using IH Cons.prems(2) by (simp split: option.split)
    qed
    then show ?thesis using IH Cons.prems(2) q by auto
  next
    case False
    then have "claimsPref cfg @ x \<noteq> k" for x by (auto simp: has_prefix_def)
    then show ?thesis using Cons False by (auto split: option.splits)
  qed
qed (auto split: option.splits)

lemma tombstones_lookup:
  "gomap_wf snap \<Longrightarrow> gomap_wf pend \<Longrightarrow> gomap_wf (stage_tombstones snap seen un pend) \<and>
   map_of (stage_tombstones snap seen un pend) pid =
     (case map_of snap pid of
        Some e \<Rightarrow> if ce_deleted e \<or> pid \<in> set seen \<or> pid \<in> set un then map_of pend pid else Some (PDelete (ce_revision e + 1))
      | None \<Rightarrow> map_of pend pid)"
proof (induction snap arbitrary: pend)
  case (Cons x snap)
  obtain q e where x: "x = (q, e)" by (cases x)
  let ?p = "if ce_deleted e \<or> q \<in> set seen \<or> q \<in> set un then pend else AList.update q (PDelete (ce_revision e + 1)) pend"
  have eq: "stage_tombstones (x # snap) seen un pend = stage_tombstones snap seen un ?p" by (simp add: stage_tombstones_def x)
  have n: "map_of snap q = None" "gomap_wf snap" using Cons.prems(1) x by (auto simp: gomap_wf_def map_of_eq_None_iff)
  have "gomap_wf ?p" using Cons.prems(2) by (simp add: map_simps)
  from Cons.IH[OF n(2) this] show ?case using n(1) x unfolding eq by (auto simp: map_simps split: option.splits)
qed (simp add: stage_tombstones_def)

lemma collect_still:
  assumes S: "still (rc_kv cfg) view b" and "view w = b" "gomap_wf snap"
  obtains pend w' where "reconcile_collect cfg snap w = (Some (pend, True), w')" "gomap_wf pend"
    "\<And>pid. map_of pend pid = (case bk_entries b (claimsPref cfg @ pid) of
        Some e \<Rightarrow> staged snap pid e None
      | None \<Rightarrow> (case map_of snap pid of None \<Rightarrow> None | Some e \<Rightarrow> if ce_deleted e then None else Some (PDelete (ce_revision e + 1))))"
proof -
  obtain ks u where ks: "kv_Keys (rc_kv cfg) w = (if ks = [] then Inl ErrNoKeysFound else Inr ks, u)" "set ks = {k. bk_entries b k \<noteq> None}" "view u = b"
    using S assms(2) unfolding still_def by blast
  obtain p seen un w' where rk: "reconcile_keys cfg snap ks ([], [], []) u = ((p, seen, un), w')" by (cases "reconcile_keys cfg snap ks ([], [], []) u") auto
  have e: "gomap_wf []" by (simp add: gomap_wf_def)
  note rs = reconcile_keys_still[OF S ks(3) _ e rk]
  note tl = tombstones_lookup[OF assms(3), of p seen un]
  have c: "reconcile_collect cfg snap w = (Some (stage_tombstones snap seen un p, True), w')"
    using rk rs ks(2) by (auto simp: reconcile_collect_def ks(1) no_keys_found_def)
  have l: "map_of (stage_tombstones snap seen un p) pid = (case bk_entries b (claimsPref cfg @ pid) of
        Some e \<Rightarrow> staged snap pid e None
      | None \<Rightarrow> (case map_of snap pid of None \<Rightarrow> None | Some e \<Rightarrow> if ce_deleted e then None else Some (PDelete (ce_revision e + 1))))" for pid
    using tl rs ks(2) by (simp split: option.split)
  show thesis by (rule that[OF c _ l]) (use tl rs ks(2) in simp)
qed

lemma apply_staged:
  assumes K: "kv_laws K view env" and wf: "bucket_wf (view w0)" "env w0 w"
    and c: "cache_ok view env pref w0 w cache" "bk_entries (view w) (pref @ pid) = Some e" "UnmarshalClaim (ent_Value e) = Some cl"
  shows "map_of (case staged cache pid e None of None \<Rightarrow> cache | Some p \<Rightarrow> apply_pending (pid, p) cache) pid = Some (entry_of cl (ent_Revision e))"
proof (cases "map_of cache pid")
  case None
  then show ?thesis using c(3) by (simp add: staged_def apply_pending_def map_simps)
next
  case (Some x)
  note ok = cache_entry[OF c(1) Some]
  show ?thesis
  proof (cases "ce_revision x \<ge> ent_Revision e")
    case True
    have "\<not> ce_deleted x"
      using entry_dead[OF ok] c(2) True kv_env_refl[OF K] unfolding dead_def by (meson not_le)
    then obtain v d where v: "was view env pref w0 w pid v (ce_revision x)" "UnmarshalClaim v = Some d" "x = entry_of d (ce_revision x)"
      using entry_live[OF ok] by blast
    have "ce_revision x = ent_Revision e \<and> v = ent_Value e" using was_le[OF K wf(1) v(1) c(2)] True by auto
    then have "x = entry_of cl (ent_Revision e)" using v(2,3) c(3) by simp
    then show ?thesis using Some True by (simp add: staged_def)
  next
    case False
    then show ?thesis using Some c(3) by (simp add: staged_def apply_pending_def map_simps)
  qed
qed


section \<open>An instance\<close>

text \<open>A bucket that others write to at given times and this process only reads. The world is the time.\<close>

definition timed_kv :: "(time \<Rightarrow> (string \<times> 'v kv_entry) list) \<Rightarrow> ('v, time) kv" where
  "timed_kv h = \<lparr>
     kv_Get = (\<lambda>k t. (case map_of (h t) k of None \<Rightarrow> Inl ErrKeyNotFound | Some e \<Rightarrow> Inr e, t)),
     kv_Create = (\<lambda>k v t. (Inl (ErrKV ''read-only''), t)),
     kv_Update = (\<lambda>k v n t. (Inl (ErrKV ''read-only''), t)),
     kv_Put = (\<lambda>k v t. (Inl (ErrKV ''read-only''), t)),
     kv_Delete = (\<lambda>k n t. (Some (ErrKV ''read-only''), t)),
     kv_Keys = (\<lambda>t. (if map fst (h t) = [] then Inl ErrNoKeysFound else Inr (map fst (h t)), t))\<rparr>"

lemma timed_kv_laws:
  assumes "\<And>t. bk_entries (view t) = map_of (h t)"
    and "\<And>t t'. t \<le> t' \<Longrightarrow> bucket_wf (view t) \<Longrightarrow> evolves (view t) (view t') \<and> bucket_wf (view t')"
  shows "kv_laws (timed_kv h) view (\<le>)"
proof -
  have w: "write_law view (\<le>) c k v (\<lambda>t. (Inl (ErrKV s), t))" for c k v s
    unfolding write_law_def by (auto simp: write_resp_def)
  have "get_law view (\<le>) (kv_Get (timed_kv h))"
    unfolding get_law_def using assms(1) by (auto simp: timed_kv_def get_resp_def split: option.splits)
  moreover have "delete_law view (\<le>) (kv_Delete (timed_kv h))"
    unfolding delete_law_def by (auto simp: timed_kv_def del_resp_def)
  moreover have "env_law view (\<le>)" unfolding env_law_def using assms(2) by auto
  ultimately show ?thesis unfolding kv_laws_def using w by (simp add: timed_kv_def)
qed

lemma timed_kv_keys: "(\<And>t. bk_entries (view t) = map_of (h t)) \<Longrightarrow> keys_listed (timed_kv h) view (\<le>)"
  unfolding keys_listed_def timed_kv_def
  by (auto simp: no_keys_found_def map_of_eq_None_iff image_iff split: if_splits)

lemma timed_kv_still:
  assumes "\<And>t. bk_entries (view t) = map_of (h t)" "\<And>t. view t = b \<Longrightarrow> h t = kvs"
  shows "still (timed_kv h) view b"
  unfolding still_def
proof (intro allI impI conjI)
  fix u k
  assume u: "view u = b"
  show "\<exists>u'. kv_Get (timed_kv h) k u = (case bk_entries b k of None \<Rightarrow> Inl ErrKeyNotFound | Some e \<Rightarrow> Inr e, u') \<and> view u' = b"
    using assms(1)[of u] u by (simp add: timed_kv_def)
  have "set (map fst (h u)) = {k. bk_entries b k \<noteq> None}"
    using assms(1)[of u] u dom_map_of_conv_image_fst[of "h u"] by (auto simp: dom_def)
  then show "\<exists>ks u'. kv_Keys (timed_kv h) u = (if ks = [] then Inl ErrNoKeysFound else Inr ks, u') \<and> set ks = {k. bk_entries b k \<noteq> None} \<and> view u' = b"
    using u by (intro exI[of _ "map fst (h u)"]) (simp add: timed_kv_def)
qed

text \<open>At time 100 the partition \<open>p1\<close> of the worker \<open>w1\<close> is deleted and \<open>p2\<close> passes from \<open>w2\<close> to \<open>w1\<close>.\<close>

definition ex_entry :: "string \<Rightarrow> string \<Rightarrow> nat \<Rightarrow> claim_value kv_entry" where
  "ex_entry pid owner n = \<lparr>ent_Value = Marshal (NewInitialClaim pid owner 0 0), ent_Revision = n, ent_Created = 0\<rparr>"

definition ex_claims :: "time \<Rightarrow> (string \<times> claim_value kv_entry) list" where
  "ex_claims t = (if t < 100 then [(''c.p1'', ex_entry ''p1'' ''w1'' 3), (''c.p2'', ex_entry ''p2'' ''w2'' 5)]
                  else [(''c.p2'', ex_entry ''p2'' ''w1'' 7)])"

definition ex_view :: "time \<Rightarrow> claim_value bucket" where
  "ex_view t = \<lparr>bk_last = (if t < 100 then 5 else 7), bk_entries = map_of (ex_claims t)\<rparr>"

definition ex_rcfg :: "time resolver_cfg" where
  "ex_rcfg = \<lparr>rc_kv = timed_kv ex_claims, claimsPref = ''c.'', refreshCooldown = 10, driftRestartCooldown = 10, batchMaxItems = 4,
     gateMaxSkips = 0, gateConfirmGap = 0, rc_streamPos = None, rc_Now = (\<lambda>t. (t, t)), rc_sleep = (\<lambda>d t. (False, t + d)),
     rc_stopWatcher = (\<lambda>t. t)\<rparr>"

definition ex_pos :: kv_stream_pos where
  "ex_pos = \<lparr>pos_Created = 0, pos_LastSeq = 0, pos_Msgs = 0, pos_MaxAge = 0, pos_AllowMsgTTL = False, pos_SubjectDeleteMarkerTTL = 0\<rparr>"

definition ex_res :: resolver where
  "ex_res = \<lparr>rs_cache = [], lastRefresh = Map.empty, gateLatchValid = False, gateLatch = ex_pos, gateSkipsSinceFull = 0,
     gateUnsafeSeen = False, driftRestartPending = False, lastDriftRestartNano = 0\<rparr>"

definition ex_gate :: processing_gate where
  "ex_gate = \<lparr>pg_workerID = ''w1'', pg_Enabled = True, subjPrefix = ''in.'', subjSuffix = ''.go'', warmupUntil = None,
     allowedWarmup = [], allowedSteady = [HandoffStateStable]\<rparr>"

lemmas ex_resolver_simps = ex_rcfg_def ex_res_def ex_gate_def ex_claims_def ex_entry_def timed_kv_def Marshal_def NewInitialClaim_def

lemma ex_view_laws: "kv_laws (rc_kv ex_rcfg) ex_view (\<le>)" "keys_listed (rc_kv ex_rcfg) ex_view (\<le>)"
  "deletes_marked ex_view (\<le>)" "bucket_wf (ex_view t)" "clock_env ex_rcfg (\<le>)"
proof -
  have wf: "bucket_wf (ex_view t)" for t by (auto simp: bucket_wf_def ex_view_def ex_claims_def ex_entry_def split: if_splits)
  then show "bucket_wf (ex_view t)" .
  have "evolves (ex_view t) (ex_view t')" if "t \<le> t'" for t t'
    using that by (auto simp: evolves_def ex_view_def ex_claims_def ex_entry_def)
  then show "kv_laws (rc_kv ex_rcfg) ex_view (\<le>)"
    unfolding ex_rcfg_def using wf by (auto intro!: timed_kv_laws simp: ex_view_def)
  show "keys_listed (rc_kv ex_rcfg) ex_view (\<le>)"
    unfolding ex_rcfg_def by (auto intro!: timed_kv_keys simp: ex_view_def)
  show "deletes_marked ex_view (\<le>)"
    by (auto simp: deletes_marked_def ex_view_def ex_claims_def split: if_splits)
  show "clock_env ex_rcfg (\<le>)" by (simp add: clock_env_def ex_rcfg_def)
qed

definition ex_warmed :: resolver where
  "ex_warmed = ex_res\<lparr>rs_cache := [(''p1'', entry_of (NewInitialClaim ''p1'' ''w1'' 0 0) 3), (''p2'', entry_of (NewInitialClaim ''p2'' ''w2'' 0 0) 5)]\<rparr>"

lemma ex_warm: "warm ex_rcfg ex_res 0 = (None, ex_warmed, 0)"
  by (simp add: warm_def ex_warmed_def ex_resolver_simps has_prefix_def UnmarshalClaim_def unmarshal_claim_def ClaimStateStable_def)

lemma ex_wait: "t \<le> t' \<Longrightarrow> (res_step ex_rcfg ex_view (\<le>) 0)\<^sup>*\<^sup>* (s, t) (s, t')"
  by (rule r_into_rtranclp) (rule outside)



end
