(* ===== verification/Lease.thy ===== *)
theory Lease
  imports KV
begin

text \<open>
  Leases. Several agents share a bucket; an agent remembers the revisions of its own writes and shows them
  to the store as conditions of later writes. Whatever the protocol is, the revisions that two agents
  remember are different, because the store gives every write a larger revision. The leader election and the
  stable worker identities are instances.
\<close>

locale lease =
  fixes step :: "'s \<Rightarrow> 's \<Rightarrow> bool"
    and ok :: "'s \<Rightarrow> bool"
    and last :: "'s \<Rightarrow> nat"
    and owns :: "'s \<Rightarrow> 'i \<Rightarrow> nat set"
  assumes ok_step: "ok s \<Longrightarrow> step s s' \<Longrightarrow> ok s'"
    and last_step: "ok s \<Longrightarrow> step s s' \<Longrightarrow> last s \<le> last s'"
    and grant_step: "ok s \<Longrightarrow> step s s' \<Longrightarrow> (\<forall>j. owns s' j \<subseteq> owns s j) \<or>
      (\<exists>i n. last s < n \<and> n \<le> last s' \<and> owns s' i \<subseteq> insert n (owns s i) \<and> (\<forall>j. j \<noteq> i \<longrightarrow> owns s' j \<subseteq> owns s j))"
begin

definition separate :: "'s \<Rightarrow> bool" where
  "separate s \<longleftrightarrow> ok s \<and> (\<forall>i. \<forall>n \<in> owns s i. n \<le> last s) \<and> (\<forall>i j. i \<noteq> j \<longrightarrow> owns s i \<inter> owns s j = {})"

lemma separate_mono:
  "separate s \<Longrightarrow> ok s' \<Longrightarrow> last s \<le> last s' \<Longrightarrow> (\<And>j. owns s' j \<subseteq> owns s j) \<Longrightarrow> separate s'"
  unfolding separate_def by (meson disjoint_iff order_trans subsetD)

lemma separate_grant:
  assumes "separate s" "ok s'" "last s < n" "n \<le> last s'" "owns s' i \<subseteq> insert n (owns s i)" "\<And>j. j \<noteq> i \<Longrightarrow> owns s' j \<subseteq> owns s j"
  shows "separate s'"
proof -
  have old: "m \<le> last s" if "m \<in> owns s j" for m j using assms(1) that by (auto simp: separate_def)
  have sub: "owns s' j \<subseteq> (if j = i then insert n (owns s j) else owns s j)" for j using assms(5,6) by auto
  have "m \<le> last s'" if "m \<in> owns s' j" for m j
    using subsetD[OF sub that] old[of m j] assms(3,4) by (auto split: if_splits)
  moreover have "owns s' a \<inter> owns s' b = {}" if ab: "a \<noteq> b" for a b
  proof -
    have "n \<notin> owns s a" "n \<notin> owns s b" using old[of n] assms(3) by force+
    moreover have "owns s a \<inter> owns s b = {}" using assms(1) ab by (auto simp: separate_def)
    ultimately show ?thesis using sub[of a] sub[of b] ab by (auto split: if_splits)
  qed
  ultimately show ?thesis using assms(2) by (auto simp: separate_def)
qed

lemma separate_step: "separate s \<Longrightarrow> step s s' \<Longrightarrow> separate s'"
  using grant_step[of s s'] ok_step[of s s'] last_step[of s s'] separate_mono[of s s'] separate_grant[of s s']
  by (metis separate_def)

lemma separate_steps: "step\<^sup>*\<^sup>* s s' \<Longrightarrow> separate s \<Longrightarrow> separate s'"
  by (induction rule: rtranclp_induct) (auto intro: separate_step)

lemma separate_init: "ok s \<Longrightarrow> (\<And>i. owns s i = {}) \<Longrightarrow> separate s"
  by (simp add: separate_def)

lemma owns_disjoint: "step\<^sup>*\<^sup>* s s' \<Longrightarrow> separate s \<Longrightarrow> i \<noteq> j \<Longrightarrow> owns s' i \<inter> owns s' j = {}"
  by (drule (1) separate_steps) (simp add: separate_def)

end

text \<open>What a write does to the revisions of the bucket.\<close>

lemma kv_write_grant:
  assumes K: "kv_laws K view env" "bucket_wf (view w)"
    and r: "kv_Update K k v m w = (r, w') \<or> kv_Create K k v w = (r, w')"
  shows "bucket_wf (view w') \<and> evolves (view w) (view w') \<and>
    (case r of Inr n \<Rightarrow> bk_last (view w) < n \<and> n \<le> bk_last (view w') | Inl _ \<Rightarrow> True)"
proof -
  obtain g w1 w2 where g: "env w w1" "write_resp g (eff_put k v) (view w1) r (view w2)" "env w2 w'"
    using r kv_update_ok[OF K(1)] kv_create_ok[OF K(1)] by blast
  note e1 = kv_env_wf[OF K(1) g(1) K(2)]
  note t = write_resp_touches[OF g(2), unfolded touches_def]
  have e2: "bucket_wf (view w2)" "evolves (view w) (view w2)" using t e1 evolves_trans by blast+
  note e3 = kv_env_wf[OF K(1) g(3) e2(1)]
  have "bk_last (view w1) < n \<and> bk_last (view w2) = n" if "r = Inr n" for n
    using g(2) that by (auto simp: write_resp_def eff_put_def)
  moreover have "bk_last (view w) \<le> bk_last (view w1)" "bk_last (view w2) \<le> bk_last (view w')"
    using e1 e3 evolves_last by blast+
  ultimately have "case r of Inr n \<Rightarrow> bk_last (view w) < n \<and> n \<le> bk_last (view w') | Inl _ \<Rightarrow> True"
    by (fastforce split: sum.split)
  then show ?thesis using e2 e3 evolves_trans by blast
qed

lemma kv_write_value:
  assumes K: "kv_laws K view env" "bucket_wf (view w)"
    and r: "kv_Update K k v m w = (Inr n, w') \<or> kv_Create K k v w = (Inr n, w')"
    and e: "bk_entries (view w') k = Some e" "ent_Revision e = n"
  shows "ent_Value e = v"
proof -
  obtain g w1 w2 where g: "env w w1" "write_resp g (eff_put k v) (view w1) (Inr n) (view w2)" "env w2 w'"
    using r kv_update_ok[OF K(1)] kv_create_ok[OF K(1)] by blast
  have wf: "bucket_wf (view w2)"
    using write_resp_touches[OF g(2), unfolded touches_def] kv_env_wf[OF K(1) g(1) K(2)] by blast
  have "evolves (view w2) (view w')" using kv_env_wf[OF K(1) g(3) wf] by blast
  moreover have p: "eff_put k v (view w1) n (view w2)" using g(2) by (simp add: write_resp_def)
  moreover have "bk_last (view w2) = n" using p by (auto simp: eff_put_def)
  ultimately show ?thesis using e eff_put_at[OF p] evolvesD[of "view w2" "view w'" k] by auto
qed

lemma kv_delete_wf:
  assumes K: "kv_laws K view env" "bucket_wf (view w)" and r: "kv_Delete K k m w = (r, w')"
  shows "bucket_wf (view w') \<and> evolves (view w) (view w')"
  by (rule evo_wf[OF kv_delete_evo[OF K(1) r] K(2,1)]) (erule touches_mono, simp)

section \<open>An in-memory store with a time to live\<close>

text \<open>Time passes and entries expire.\<close>

definition mem_expires :: "'v mem_world \<Rightarrow> 'v mem_world \<Rightarrow> bool" where
  "mem_expires w w' \<longleftrightarrow> snd w \<le> snd w' \<and> bk_last (fst w') = bk_last (fst w) \<and>
     (\<forall>k. bk_entries (fst w') k = bk_entries (fst w) k \<or> bk_entries (fst w') k = None)"

lemma kv_laws_env_mono:
  assumes "kv_laws K view env" "env_law view env'" "\<And>w w'. env w w' \<Longrightarrow> env' w w'"
  shows "kv_laws K view env'"
proof -
  have "get_law view env' (kv_Get K)" using assms(1,3) unfolding kv_laws_def get_law_def by meson
  moreover have "delete_law view env' (kv_Delete K)" using assms(1,3) unfolding kv_laws_def delete_law_def by meson
  moreover have "write_law view env' c k v f" if "write_law view env c k v f" for c k v f
    using that assms(3) unfolding write_law_def by meson
  ultimately show ?thesis using assms unfolding kv_laws_def by blast
qed

lemma mem_expires_laws: "kv_laws (mem_kv names) fst mem_expires"
proof (rule kv_laws_env_mono[OF mem_kv_laws])
  have "evolves (fst w) (fst w') \<and> bucket_wf (fst w')" if e: "mem_expires w w'" "bucket_wf (fst w)" for w w' :: "'a mem_world"
    using e unfolding mem_expires_def evolves_def bucket_wf_def by (metis order_refl option.distinct(1))
  moreover have "mem_expires a c" if "mem_expires a b" "mem_expires b c" for a b c :: "'a mem_world"
    using that unfolding mem_expires_def by (metis order_trans)
  ultimately show "env_law fst (mem_expires :: 'a mem_world \<Rightarrow> _)"
    unfolding env_law_def by (intro conjI allI impI) (simp add: mem_expires_def, blast, blast, blast)
qed (auto simp: mem_expires_def)

end
