(* ===== verification/Election.thy ===== *)
theory Election
  imports Lease "HOL-Library.Multiset"
begin

text \<open>
  Leader election on a key with a time to live, \<^verbatim>\<open>internal/election/nats_election.go\<close>, and the loop of
  the manager around it, \<^verbatim>\<open>manager_election.go\<close>. The bucket is a parameter with the laws of the
  theory KV; that the server drops the key when its time is over is a step of the environment. Logging
  is left out. An error of the store that is none of its sentinels is told by its text.
\<close>

section \<open>The agent\<close>

record election =
  el_workerID :: string
  el_revision :: nat
  termRevision :: nat
  el_isLeader :: bool

definition NewNATSElection :: election where
  "NewNATSElection = \<lparr>el_workerID = [], el_revision = 0, termRevision = 0, el_isLeader = False\<rparr>"

text \<open>\<open>el_Unix\<close> is \<open>time.Now().Unix()\<close>.\<close>

record 'w election_cfg =
  el_kv :: "(string, 'w) kv"
  el_key :: string
  el_Unix :: "'w \<Rightarrow> int \<times> 'w"

datatype election_error =
  ErrInvalidDuration
| ErrNotLeader
| ErrLeadershipLost kv_error
| ErrLeadershipRevisionMismatch
| ElectionKV kv_error

definition context_error :: "kv_error \<Rightarrow> bool" where
  "context_error e \<longleftrightarrow> e = ErrKV ''context canceled'' \<or> e = ErrKV ''context deadline exceeded''"

definition setLeaderState :: "bool \<Rightarrow> string \<Rightarrow> nat \<Rightarrow> nat \<Rightarrow> election \<Rightarrow> election" where
  "setLeaderState isLeader workerID revision term e =
     e\<lparr>el_isLeader := isLeader, el_workerID := workerID, el_revision := revision, termRevision := term\<rparr>"

definition clearLeadership :: "election \<Rightarrow> election" where
  "clearLeadership e = setLeaderState False [] 0 0 e"

definition leader_value :: "string \<Rightarrow> int \<Rightarrow> string" where
  "leader_value workerID t = workerID @ '':'' @ show_int t"

text \<open>An operation asks the store and then enters the answer under the lock; between the two other operations
  of the same agent may run.\<close>

definition renew_return :: "kv_error + nat \<Rightarrow> election \<Rightarrow> election_error option \<times> election" where
  "renew_return r e =
     (case r of
        Inl err \<Rightarrow> (Some (ErrLeadershipLost err), if context_error err then e else clearLeadership e)
      | Inr newRevision \<Rightarrow> (None, e\<lparr>el_revision := newRevision\<rparr>))"

definition RenewLeadership :: "'w election_cfg \<Rightarrow> election \<Rightarrow> 'w \<Rightarrow> election_error option \<times> election \<times> 'w" where
  "RenewLeadership cfg e w =
     (if \<not> el_isLeader e then (Some ErrNotLeader, e, w)
      else case el_Unix cfg w of
             (t, w) \<Rightarrow>
               (case kv_Update (el_kv cfg) (el_key cfg) (leader_value (el_workerID e) t) (el_revision e) w of
                  (r, w) \<Rightarrow> (case renew_return r e of (err, e) \<Rightarrow> (err, e, w))))"

definition create_return :: "string \<Rightarrow> kv_error + nat \<Rightarrow> election \<Rightarrow> (election_error + bool) \<times> election" where
  "create_return workerID r e =
     (case r of
        Inl err \<Rightarrow> (if err = ErrKeyExists then Inr False else Inl (ElectionKV err), e)
      | Inr revision \<Rightarrow> (Inr True, setLeaderState True workerID revision revision e))"

definition acquire :: "'w election_cfg \<Rightarrow> string \<Rightarrow> election \<Rightarrow> 'w \<Rightarrow> (election_error + bool) \<times> election \<times> 'w" where
  "acquire cfg workerID e w =
     (case el_Unix cfg w of
        (t, w) \<Rightarrow>
          (case kv_Create (el_kv cfg) (el_key cfg) (leader_value workerID t) w of
             (r, w) \<Rightarrow> (case create_return workerID r e of (res, e) \<Rightarrow> (res, e, w))))"

definition RequestLeadership ::
  "'w election_cfg \<Rightarrow> string \<Rightarrow> i64 \<Rightarrow> election \<Rightarrow> 'w \<Rightarrow> (election_error + bool) \<times> election \<times> 'w" where
  "RequestLeadership cfg workerID leaseDuration e w =
     (if leaseDuration \<le> 0 then (Inl ErrInvalidDuration, e, w)
      else if el_isLeader e \<and> el_workerID e = workerID
      then case RenewLeadership cfg e w of
             (None, e, w) \<Rightarrow> (Inr True, e, w)
           | (Some err, e, w) \<Rightarrow>
               if (case err of ErrLeadershipLost k \<Rightarrow> context_error k | _ \<Rightarrow> False) then (Inl err, e, w)
               else acquire cfg workerID (clearLeadership e) w
      else acquire cfg workerID e w)"

definition release_return :: "kv_error option \<Rightarrow> election \<Rightarrow> election_error option \<times> election" where
  "release_return r e =
     (case r of
        Some err \<Rightarrow> if err = ErrKeyNotFound then (None, setLeaderState False [] 0 0 e) else (Some (ElectionKV err), e)
      | None \<Rightarrow> (None, setLeaderState False [] 0 0 e))"

definition ReleaseLeadership :: "'w election_cfg \<Rightarrow> election \<Rightarrow> 'w \<Rightarrow> election_error option \<times> election \<times> 'w" where
  "ReleaseLeadership cfg e w =
     (if \<not> el_isLeader e then (Some ErrNotLeader, e, w)
      else case kv_Delete (el_kv cfg) (el_key cfg) None w of
             (r, w) \<Rightarrow> (case release_return r e of (err, e) \<Rightarrow> (err, e, w)))"

definition IsLeader :: "'w election_cfg \<Rightarrow> election \<Rightarrow> 'w \<Rightarrow> (election_error + bool) \<times> election \<times> 'w" where
  "IsLeader cfg e w =
     (if \<not> el_isLeader e then (Inr False, e, w)
      else case kv_Get (el_kv cfg) (el_key cfg) w of
             (Inl err, w) \<Rightarrow> if err = ErrKeyNotFound then (Inr False, clearLeadership e, w) else (Inl (ElectionKV err), e, w)
           | (Inr entry, w) \<Rightarrow>
               if ent_Revision entry \<noteq> el_revision e then (Inr False, clearLeadership e, w) else (Inr True, e, w))"

definition election_WorkerID :: "election \<Rightarrow> string" where
  "election_WorkerID e = el_workerID e"

definition election_Revision :: "election \<Rightarrow> nat" where
  "election_Revision e = termRevision e"

definition CheckLeadership :: "'w election_cfg \<Rightarrow> nat \<Rightarrow> election \<Rightarrow> 'w \<Rightarrow> election_error option \<times> 'w" where
  "CheckLeadership cfg claimed e w =
     (if claimed = 0 then (Some ErrLeadershipRevisionMismatch, w)
      else if el_workerID e = [] \<or> termRevision e = 0 then (Some ErrLeadershipRevisionMismatch, w)
      else if claimed \<noteq> termRevision e then (Some ErrLeadershipRevisionMismatch, w)
      else case kv_Get (el_kv cfg) (el_key cfg) w of
             (Inl err, w) \<Rightarrow>
               if err = ErrKeyNotFound then (Some ErrLeadershipRevisionMismatch, w) else (Some (ElectionKV err), w)
           | (Inr entry, w) \<Rightarrow>
               if ent_Revision entry < claimed then (Some ErrLeadershipRevisionMismatch, w)
               else if \<not> has_prefix (ent_Value entry) (el_workerID e @ '':'') then (Some ErrLeadershipRevisionMismatch, w)
               else (None, w))"

section \<open>The loop of the manager\<close>

text \<open>What the loop touches: the flag of the manager, the agent and whether a calculator runs. Hooks and the
  errors that feed the degraded circuit are events, in the order in which they are raised.\<close>

record leadership =
  mgr_isLeader :: bool
  mgr_election :: election
  mgr_calculating :: bool

datatype leadership_event = LeadershipChanged bool | KVOpError election_error

text \<open>\<open>ld_ctxDone\<close> tells whether the context of the manager is cancelled; \<open>ld_startCalculator\<close> and
  \<open>ld_stopCalculator\<close> are the work of the calculator, of which only the success of the start matters here.\<close>

record 'w leadership_cfg =
  ld_election :: "'w election_cfg"
  ld_workerID :: string
  ld_ElectionTimeout :: duration
  ld_ctxDone :: "'w \<Rightarrow> bool"
  ld_startCalculator :: "'w \<Rightarrow> bool \<times> 'w"
  ld_stopCalculator :: "'w \<Rightarrow> 'w"

definition lease_seconds :: "duration \<Rightarrow> i64" where
  "lease_seconds d = go_div d 1000000000"

fun election_canceled :: "election_error \<Rightarrow> bool" where
  "election_canceled (ErrLeadershipLost k) = (k = ErrKV ''context canceled'')"
| "election_canceled (ElectionKV k) = (k = ErrKV ''context canceled'')"
| "election_canceled _ = False"

definition start_calculator :: "'w leadership_cfg \<Rightarrow> leadership \<Rightarrow> 'w \<Rightarrow> bool \<times> leadership \<times> 'w" where
  "start_calculator cfg m w =
     (if mgr_calculating m then (True, m, w)
      else case ld_startCalculator cfg w of (ok, w) \<Rightarrow> (ok, m\<lparr>mgr_calculating := ok\<rparr>, w))"

definition stop_calculator :: "'w leadership_cfg \<Rightarrow> leadership \<Rightarrow> 'w \<Rightarrow> leadership \<times> 'w" where
  "stop_calculator cfg m w =
     (if \<not> mgr_calculating m then (m, w) else (m\<lparr>mgr_calculating := False\<rparr>, ld_stopCalculator cfg w))"

definition releaseLeadershipAfterCalculatorFailure :: "'w leadership_cfg \<Rightarrow> leadership \<Rightarrow> 'w \<Rightarrow> leadership_event list \<times> leadership \<times> 'w" where
  "releaseLeadershipAfterCalculatorFailure cfg m w =
     (case ReleaseLeadership (ld_election cfg) (mgr_election m) w of
        (_, e, w) \<Rightarrow> ([LeadershipChanged False], m\<lparr>mgr_isLeader := False, mgr_election := e\<rparr>, w))"

text \<open>One tick.\<close>

definition renew_tick :: "'w leadership_cfg \<Rightarrow> leadership \<Rightarrow> 'w \<Rightarrow> leadership_event list \<times> leadership \<times> 'w" where
  "renew_tick cfg m w =
     (case RenewLeadership (ld_election cfg) (mgr_election m) w of
        (None, e, w) \<Rightarrow> ([], m\<lparr>mgr_election := e\<rparr>, w)
      | (Some err, e, w) \<Rightarrow>
          let m = m\<lparr>mgr_election := e\<rparr>
          in if election_canceled err \<and> ld_ctxDone cfg w then ([], m, w)
             else case stop_calculator cfg (m\<lparr>mgr_isLeader := False\<rparr>) w of
                    (m, w) \<Rightarrow> ([KVOpError err, LeadershipChanged False], m, w))"

definition request_tick :: "'w leadership_cfg \<Rightarrow> leadership \<Rightarrow> 'w \<Rightarrow> leadership_event list \<times> leadership \<times> 'w" where
  "request_tick cfg m w =
     (case RequestLeadership (ld_election cfg) (ld_workerID cfg) (lease_seconds (ld_ElectionTimeout cfg)) (mgr_election m) w of
        (Inl err, e, w) \<Rightarrow>
          let m = m\<lparr>mgr_election := e\<rparr>
          in if election_canceled err \<and> ld_ctxDone cfg w then ([], m, w) else ([KVOpError err], m, w)
      | (Inr False, e, w) \<Rightarrow> ([], m\<lparr>mgr_election := e\<rparr>, w)
      | (Inr True, e, w) \<Rightarrow>
          (case start_calculator cfg (m\<lparr>mgr_election := e, mgr_isLeader := True\<rparr>) w of
             (True, m, w) \<Rightarrow> ([LeadershipChanged True], m, w)
           | (False, m, w) \<Rightarrow>
               (case releaseLeadershipAfterCalculatorFailure cfg m w of
                  (evs, m, w) \<Rightarrow> (LeadershipChanged True # evs, m, w))))"

definition monitorLeadership :: "'w leadership_cfg \<Rightarrow> leadership \<Rightarrow> 'w \<Rightarrow> leadership_event list \<times> leadership \<times> 'w" where
  "monitorLeadership cfg m w = (if mgr_isLeader m then renew_tick cfg m w else request_tick cfg m w)"

text \<open>The first request, at the start of the manager; the calculator is started by the caller.\<close>

definition participateElection :: "'w leadership_cfg \<Rightarrow> leadership \<Rightarrow> 'w \<Rightarrow> election_error option \<times> leadership_event list \<times> leadership \<times> 'w" where
  "participateElection cfg m w =
     (case RequestLeadership (ld_election cfg) (ld_workerID cfg) (lease_seconds (ld_ElectionTimeout cfg)) NewNATSElection w of
        (Inl err, e, w) \<Rightarrow> (Some err, [], m\<lparr>mgr_election := e\<rparr>, w)
      | (Inr isLeader, e, w) \<Rightarrow>
          (None, if isLeader then [LeadershipChanged True] else [], m\<lparr>mgr_election := e, mgr_isLeader := isLeader\<rparr>, w))"

end
