(* ===== verification/Election_Safety.thy ===== *)
theory Election_Safety
  imports Election
begin

text \<open>
  Several election agents on one key. An operation is split where it talks to the store: other agents, and
  other operations of the same agent, run between the call and the entry of its answer.
\<close>

section \<open>Interleaving\<close>

datatype el_task = Renewed "kv_error + nat" | Created string "kv_error + nat" | Released "kv_error option"

record el_sys =
  el_agents :: "nat \<Rightarrow> election"
  el_tasks :: "(nat \<times> el_task) multiset"

definition el_set :: "nat \<Rightarrow> election \<Rightarrow> el_sys \<Rightarrow> el_sys" where
  "el_set i e s = s\<lparr>el_agents := (el_agents s)(i := e)\<rparr>"

definition el_call :: "nat \<times> el_task \<Rightarrow> el_sys \<Rightarrow> el_sys" where
  "el_call t s = s\<lparr>el_tasks := add_mset t (el_tasks s)\<rparr>"

definition el_done :: "nat \<times> el_task \<Rightarrow> el_sys \<Rightarrow> el_sys" where
  "el_done t s = s\<lparr>el_tasks := el_tasks s - {#t#}\<rparr>"

text \<open>The agent \<open>i\<close> works for the worker \<open>name i\<close>. An agent may forget its leadership at any time.\<close>

inductive el_step ::
  "'w election_cfg \<Rightarrow> ('w \<Rightarrow> 'w \<Rightarrow> bool) \<Rightarrow> (nat \<Rightarrow> string) \<Rightarrow> el_sys \<times> 'w \<Rightarrow> el_sys \<times> 'w \<Rightarrow> bool"
  for cfg env name where
  el_outside: "env w w' \<Longrightarrow> el_step cfg env name (s, w) (s, w')"
| el_renew: "el_isLeader (el_agents s i) \<Longrightarrow>
    kv_Update (el_kv cfg) (el_key cfg) (leader_value (el_workerID (el_agents s i)) t) (el_revision (el_agents s i)) w = (r, w') \<Longrightarrow>
    el_step cfg env name (s, w) (el_call (i, Renewed r) s, w')"
| el_renewed: "(i, Renewed r) \<in># el_tasks s \<Longrightarrow>
    el_step cfg env name (s, w) (el_done (i, Renewed r) (el_set i (snd (renew_return r (el_agents s i))) s), w)"
| el_create: "kv_Create (el_kv cfg) (el_key cfg) (leader_value (name i) t) w = (r, w') \<Longrightarrow>
    el_step cfg env name (s, w) (el_call (i, Created (name i) r) s, w')"
| el_created: "(i, Created wid r) \<in># el_tasks s \<Longrightarrow>
    el_step cfg env name (s, w) (el_done (i, Created wid r) (el_set i (snd (create_return wid r (el_agents s i))) s), w)"
| el_release: "el_isLeader (el_agents s i) \<Longrightarrow> kv_Delete (el_kv cfg) (el_key cfg) None w = (r, w') \<Longrightarrow>
    el_step cfg env name (s, w) (el_call (i, Released r) s, w')"
| el_released: "(i, Released r) \<in># el_tasks s \<Longrightarrow>
    el_step cfg env name (s, w) (el_done (i, Released r) (el_set i (snd (release_return r (el_agents s i))) s), w)"
| el_forget: "el_step cfg env name (s, w) (el_set i (clearLeadership (el_agents s i)) s, w)"

definition el_init :: el_sys where
  "el_init = \<lparr>el_agents = (\<lambda>_. NewNATSElection), el_tasks = {#}\<rparr>"

lemmas el_sys_simps = el_set_def el_call_def el_done_def

section \<open>The operations are runs\<close>

definition unix_env :: "'w election_cfg \<Rightarrow> ('w \<Rightarrow> 'w \<Rightarrow> bool) \<Rightarrow> bool" where
  "unix_env cfg env \<longleftrightarrow> (\<forall>w t w'. el_Unix cfg w = (t, w') \<longrightarrow> env w w')"

lemma unix_step: "unix_env cfg env \<Longrightarrow> el_Unix cfg w = (t, w') \<Longrightarrow> el_step cfg env name (s, w) (s, w')"
  by (rule el_outside) (simp add: unix_env_def)

lemma el_set_same [simp]: "el_set i (el_agents s i) s = s"
  by (simp add: el_set_def)

lemma el_set_twice [simp]: "el_set i e (el_set i e' s) = el_set i e s" "el_agents (el_set i e s) i = e"
  by (simp_all add: el_set_def)

lemma el_answer: "el_done (i, t) (el_set i e (el_call (i, t) s)) = el_set i e s"
  by (simp add: el_sys_simps)

lemma el_called [simp]: "t \<in># el_tasks (el_call t s)" "el_agents (el_call t s) = el_agents s"
  by (simp_all add: el_call_def)

lemma renew_steps:
  assumes U: "unix_env cfg env" and r: "RenewLeadership cfg (el_agents s i) w = (err, e', w')"
  shows "(el_step cfg env name)\<^sup>*\<^sup>* (s, w) (el_set i e' s, w')"
proof (cases "el_isLeader (el_agents s i)")
  case True
  obtain t w1 where t: "el_Unix cfg w = (t, w1)" by fastforce
  obtain a where a: "kv_Update (el_kv cfg) (el_key cfg) (leader_value (el_workerID (el_agents s i)) t) (el_revision (el_agents s i)) w1 = (a, w')"
    "e' = snd (renew_return a (el_agents s i))"
    using r True t by (auto simp: RenewLeadership_def split: prod.splits)
  have "el_step cfg env name (s, w) (s, w1)" by (rule unix_step[OF U t])
  moreover have "el_step cfg env name (s, w1) (el_call (i, Renewed a) s, w')" by (rule el_renew[OF True a(1)])
  moreover have "el_step cfg env name (el_call (i, Renewed a) s, w') (el_set i e' s, w')"
    using el_renewed[of i a "el_call (i, Renewed a) s" cfg env name w'] by (simp add: el_answer a(2))
  ultimately show ?thesis by (meson converse_rtranclp_into_rtranclp rtranclp.rtrancl_refl)
qed (use r in \<open>auto simp: RenewLeadership_def\<close>)

lemma acquire_steps:
  assumes U: "unix_env cfg env" and r: "acquire cfg (name i) (el_agents s i) w = (res, e', w')"
  shows "(el_step cfg env name)\<^sup>*\<^sup>* (s, w) (el_set i e' s, w')"
proof -
  obtain t w1 where t: "el_Unix cfg w = (t, w1)" by fastforce
  obtain a where a: "kv_Create (el_kv cfg) (el_key cfg) (leader_value (name i) t) w1 = (a, w')"
    "e' = snd (create_return (name i) a (el_agents s i))"
    using r t by (auto simp: acquire_def split: prod.splits)
  have "el_step cfg env name (s, w) (s, w1)" by (rule unix_step[OF U t])
  moreover have "el_step cfg env name (s, w1) (el_call (i, Created (name i) a) s, w')" by (rule el_create) (rule a(1))
  moreover have "el_step cfg env name (el_call (i, Created (name i) a) s, w') (el_set i e' s, w')"
    using el_created[of i "name i" a "el_call (i, Created (name i) a) s" cfg env name w'] by (simp add: el_answer a(2))
  ultimately show ?thesis by (meson converse_rtranclp_into_rtranclp rtranclp.rtrancl_refl)
qed

lemma release_steps:
  assumes r: "ReleaseLeadership cfg (el_agents s i) w = (err, e', w')"
  shows "(el_step cfg env name)\<^sup>*\<^sup>* (s, w) (el_set i e' s, w')"
proof (cases "el_isLeader (el_agents s i)")
  case True
  obtain a where a: "kv_Delete (el_kv cfg) (el_key cfg) None w = (a, w')" "e' = snd (release_return a (el_agents s i))"
    using r True by (auto simp: ReleaseLeadership_def split: prod.splits)
  have "el_step cfg env name (s, w) (el_call (i, Released a) s, w')" by (rule el_release[OF True a(1)])
  moreover have "el_step cfg env name (el_call (i, Released a) s, w') (el_set i e' s, w')"
    using el_released[of i a "el_call (i, Released a) s" cfg env name w'] by (simp add: el_answer a(2))
  ultimately show ?thesis by (meson converse_rtranclp_into_rtranclp rtranclp.rtrancl_refl)
qed (use r in \<open>auto simp: ReleaseLeadership_def\<close>)

lemma request_steps:
  assumes U: "unix_env cfg env" and r: "RequestLeadership cfg (name i) d (el_agents s i) w = (res, e', w')"
  shows "(el_step cfg env name)\<^sup>*\<^sup>* (s, w) (el_set i e' s, w')"
proof (cases "d \<le> 0 \<or> \<not> (el_isLeader (el_agents s i) \<and> el_workerID (el_agents s i) = name i)")
  case True
  then show ?thesis using r acquire_steps[OF U] by (auto simp: RequestLeadership_def split: if_splits)
next
  case False
  obtain err e1 w1 where n: "RenewLeadership cfg (el_agents s i) w = (err, e1, w1)" by (metis prod_cases3)
  note steps = renew_steps[OF U n, of name]
  show ?thesis
  proof (cases "(e', w') = (e1, w1)")
    case False
    then have "acquire cfg (name i) (clearLeadership e1) w1 = (res, e', w')"
      using r n \<open>\<not> (d \<le> 0 \<or> _)\<close> by (auto simp: RequestLeadership_def split: option.splits if_splits)
    then have "(el_step cfg env name)\<^sup>*\<^sup>* (el_set i (clearLeadership e1) s, w1) (el_set i e' s, w')"
      using acquire_steps[OF U, of name i "el_set i (clearLeadership e1) s"] by simp
    moreover have "el_step cfg env name (el_set i e1 s, w1) (el_set i (clearLeadership e1) s, w1)"
      using el_forget[of cfg env name "el_set i e1 s" w1 i] by simp
    ultimately show ?thesis using steps by (meson converse_rtranclp_into_rtranclp rtranclp_trans)
  qed (use steps in simp)
qed

section \<open>Leases\<close>

definition el_owns :: "el_sys \<Rightarrow> nat \<Rightarrow> nat set" where
  "el_owns s i = {n. n \<noteq> 0 \<and> (n = el_revision (el_agents s i) \<or> n = termRevision (el_agents s i) \<or>
     (i, Renewed (Inr n)) \<in># el_tasks s \<or> (\<exists>wid. (i, Created wid (Inr n)) \<in># el_tasks s))}"

definition el_ok :: "'w election_cfg \<Rightarrow> ('w \<Rightarrow> string bucket) \<Rightarrow> ('w \<Rightarrow> 'w \<Rightarrow> bool) \<Rightarrow> el_sys \<times> 'w \<Rightarrow> bool" where
  "el_ok cfg view env sw \<longleftrightarrow> kv_laws (el_kv cfg) view env \<and> bucket_wf (view (snd sw))"

definition el_last :: "('w \<Rightarrow> string bucket) \<Rightarrow> el_sys \<times> 'w \<Rightarrow> nat" where
  "el_last view sw = bk_last (view (snd sw))"

text \<open>A call adds at most the revision that the store returned, an answer adds nothing.\<close>

lemma el_owns_call [simp]:
  "n \<in> el_owns (el_call (i, t) s) j \<longleftrightarrow>
     n \<in> el_owns s j \<or> i = j \<and> n \<noteq> 0 \<and> (t = Renewed (Inr n) \<or> (\<exists>wid. t = Created wid (Inr n)))"
  by (auto simp: el_owns_def el_call_def)

lemma el_owns_answer:
  assumes "t \<in># el_tasks s" "t = (i, Renewed r) \<and> e = snd (renew_return r (el_agents s i)) \<or>
    t = (i, Created wid r) \<and> e = snd (create_return wid r (el_agents s i)) \<or>
    t = (i, Released d) \<and> e = snd (release_return d (el_agents s i))"
  shows "el_owns (el_done t (el_set i e s)) j \<subseteq> el_owns s j"
  using assms
  by (auto simp: el_owns_def el_sys_simps renew_return_def create_return_def release_return_def clearLeadership_def setLeaderState_def
      split: sum.splits if_splits option.splits dest: in_diffD)

lemma el_owns_forget: "el_owns (el_set i (clearLeadership (el_agents s i)) s) j \<subseteq> el_owns s j"
  by (auto simp: el_owns_def el_sys_simps clearLeadership_def setLeaderState_def split: if_splits)

text \<open>The agents hold leases in the sense of the theory Lease.\<close>

lemma el_ok_step:
  assumes "el_ok cfg view env x" "el_step cfg env name x y"
  shows "el_ok cfg view env y \<and> evolves (view (snd x)) (view (snd y))"
proof -
  have K: "kv_laws (el_kv cfg) view env" "bucket_wf (view (snd x))" using assms(1) by (auto simp: el_ok_def)
  from assms(2) show ?thesis
  proof cases
    case (el_outside w w' s)
    then show ?thesis using K kv_env_wf[OF K(1)] by (simp add: el_ok_def)
  next
    case (el_renew s i t w r w')
    then show ?thesis using K kv_write_grant[OF K(1) _ disjI1[OF el_renew(4)]] by (simp add: el_ok_def)
  next
    case (el_create i t w r w' s)
    then show ?thesis using K kv_write_grant[OF K(1) _ disjI2[OF el_create(3)]] by (simp add: el_ok_def)
  next
    case (el_release s i w r w')
    then show ?thesis using K kv_delete_wf[OF K(1)] by (simp add: el_ok_def)
  qed (use K in \<open>simp_all add: el_ok_def\<close>)
qed

lemma el_grant_step:
  assumes "el_ok cfg view env x" "el_step cfg env name x y"
  shows "(\<forall>j. el_owns (fst y) j \<subseteq> el_owns (fst x) j) \<or> (\<exists>i n. el_last view x < n \<and> n \<le> el_last view y \<and>
    el_owns (fst y) i \<subseteq> insert n (el_owns (fst x) i) \<and> (\<forall>j. j \<noteq> i \<longrightarrow> el_owns (fst y) j \<subseteq> el_owns (fst x) j))"
proof -
  have K: "kv_laws (el_kv cfg) view env" "bucket_wf (view (snd x))" using assms(1) by (auto simp: el_ok_def)
  have wr: ?thesis if x: "x = (s, w)" "y = (el_call (i, t) s, w')" and t: "t = Renewed r \<or> t = Created wid r"
    and g: "case r of Inr n \<Rightarrow> bk_last (view w) < n \<and> n \<le> bk_last (view w') | Inl _ \<Rightarrow> True" for s w i t w' r wid
  proof (cases r)
    case (Inl e)
    then show ?thesis using t x by (intro disjI1) auto
  next
    case (Inr n)
    have "el_owns (fst y) i \<subseteq> insert n (el_owns (fst x) i)" "j \<noteq> i \<Longrightarrow> el_owns (fst y) j \<subseteq> el_owns (fst x) j" for j
      using t x Inr by auto
    then show ?thesis using g Inr x by (auto simp: el_last_def)
  qed
  from assms(2) show ?thesis
  proof cases
    case (el_renew s i t w r w')
    then show ?thesis using wr[of s w i "Renewed r" w' r] K kv_write_grant[OF K(1) _ disjI1[OF el_renew(4)]] by simp
  next
    case (el_create i t w r w' s)
    then show ?thesis using wr[of s w i "Created (name i) r" w' r] K kv_write_grant[OF K(1) _ disjI2[OF el_create(3)]] by simp
  next
    case (el_release s i w r w')
    then show ?thesis by (intro disjI1) auto
  next
    case (el_renewed i r s w)
    then show ?thesis using el_owns_answer[of "(i, Renewed r)" s i r] by auto
  next
    case (el_created i wid r s w)
    then show ?thesis using el_owns_answer[of "(i, Created wid r)" s i r] by auto
  next
    case (el_released i r s w)
    then show ?thesis using el_owns_answer[of "(i, Released r)" s i _ _ _ r] by auto
  next
    case (el_forget s w i)
    then show ?thesis using el_owns_forget[of i s] by auto
  qed simp
qed

interpretation el: lease "el_step cfg env name" "el_ok cfg view env" "el_last view" "el_owns \<circ> fst" for cfg env name view
proof
  fix s s'
  assume s: "el_ok cfg view env s" "el_step cfg env name s s'"
  show "el_ok cfg view env s'" "el_last view s \<le> el_last view s'"
    using el_ok_step[OF s] evolves_last by (auto simp: el_last_def)
  show "(\<forall>j. (el_owns \<circ> fst) s' j \<subseteq> (el_owns \<circ> fst) s j) \<or> (\<exists>i n. el_last view s < n \<and> n \<le> el_last view s' \<and>
      (el_owns \<circ> fst) s' i \<subseteq> insert n ((el_owns \<circ> fst) s i) \<and> (\<forall>j. j \<noteq> i \<longrightarrow> (el_owns \<circ> fst) s' j \<subseteq> (el_owns \<circ> fst) s j))"
    using el_grant_step[OF s] by simp
qed

lemma el_owns_init [simp]: "el_owns el_init i = {}"
  by (auto simp: el_owns_def el_init_def NewNATSElection_def)

lemma el_init_separate: "kv_laws (el_kv cfg) view env \<Longrightarrow> bucket_wf (view w) \<Longrightarrow> el.separate cfg view env (el_init, w)"
  by (rule el.separate_init) (simp_all add: el_ok_def)


section \<open>The live check\<close>

text \<open>An entry with the revision of an agent names its worker.\<close>

definition el_named :: "'w election_cfg \<Rightarrow> ('w \<Rightarrow> string bucket) \<Rightarrow> (nat \<Rightarrow> string) \<Rightarrow> el_sys \<times> 'w \<Rightarrow> bool" where
  "el_named cfg view name sw \<longleftrightarrow>
     (\<forall>i. el_isLeader (el_agents (fst sw) i) \<longrightarrow> el_workerID (el_agents (fst sw) i) = name i) \<and>
     (\<forall>i wid r. (i, Created wid r) \<in># el_tasks (fst sw) \<longrightarrow> wid = name i) \<and>
     (\<forall>i e. ent_Revision e \<in> el_owns (fst sw) i \<longrightarrow> bk_entries (view (snd sw)) (el_key cfg) = Some e \<longrightarrow>
        (\<exists>t. ent_Value e = leader_value (name i) t))"

lemma el_named_world:
  assumes "el.separate cfg view env (s, w)" "el_named cfg view name (s, w)" "evolves (view w) (view w')"
  shows "el_named cfg view name (s, w')"
proof -
  have "ent_Revision e \<le> bk_last (view w)" if "ent_Revision e \<in> el_owns s i" for i e
    using assms(1) that by (auto simp: el.separate_def el_last_def)
  then show ?thesis using assms(2) evolvesD[OF assms(3), of "el_key cfg"] unfolding el_named_def by fastforce
qed

lemma el_named_call:
  assumes s: "el.separate cfg view env (s, w)" "el_named cfg view name (s, w)" and v: "evolves (view w) (view w')"
    and t: "\<And>wid r. t = Created wid r \<Longrightarrow> wid = name i"
    and e: "\<And>n e. t = Renewed (Inr n) \<or> (\<exists>wid. t = Created wid (Inr n)) \<Longrightarrow> bk_entries (view w') (el_key cfg) = Some e \<Longrightarrow>
      ent_Revision e = n \<Longrightarrow> \<exists>x. ent_Value e = leader_value (name i) x"
  shows "el_named cfg view name (el_call (i, t) s, w')"
  using el_named_world[OF s v] t e unfolding el_named_def by (auto simp: el_call_def) (metis el_call_def el_owns_call)+

lemma el_namedD:
  "el_named cfg view name (s, w) \<Longrightarrow> el_isLeader (el_agents s i) \<Longrightarrow> el_workerID (el_agents s i) = name i"
  "el_named cfg view name (s, w) \<Longrightarrow> (i, Created wid r) \<in># el_tasks s \<Longrightarrow> wid = name i"
  by (auto simp: el_named_def)

lemma el_named_sub:
  assumes "el_named cfg view name (s, w)" "\<And>j. el_owns s' j \<subseteq> el_owns s j"
    and "\<And>j. el_isLeader (el_agents s' j) \<Longrightarrow> el_workerID (el_agents s' j) = name j" "set_mset (el_tasks s') \<subseteq> set_mset (el_tasks s)"
  shows "el_named cfg view name (s', w)"
  unfolding el_named_def fst_conv snd_conv
proof (intro conjI allI impI)
  fix i wid r assume "(i, Created wid r) \<in># el_tasks s'"
  then show "wid = name i" using el_namedD(2)[OF assms(1)] assms(4) by blast
next
  fix i e assume "ent_Revision e \<in> el_owns s' i" "bk_entries (view w) (el_key cfg) = Some e"
  then show "\<exists>t. ent_Value e = leader_value (name i) t" using assms(1,2) unfolding el_named_def fst_conv snd_conv by blast
qed (rule assms(3))

lemma el_named_answer:
  assumes "el_named cfg view name (s, w)" "t \<in># el_tasks s" "t = (i, Renewed r) \<and> e = snd (renew_return r (el_agents s i)) \<or>
    t = (i, Created wid r) \<and> e = snd (create_return wid r (el_agents s i)) \<or>
    t = (i, Released d) \<and> e = snd (release_return d (el_agents s i))"
  shows "el_named cfg view name (el_done t (el_set i e s), w)"
proof -
  have "el_isLeader e \<Longrightarrow> el_workerID e = name i"
    using assms(2,3) el_namedD[OF assms(1)]
    by (auto simp: renew_return_def create_return_def release_return_def clearLeadership_def setLeaderState_def
      split: sum.splits if_splits option.splits)
  then show ?thesis using el_namedD(1)[OF assms(1)]
    by (intro el_named_sub[OF assms(1) el_owns_answer[OF assms(2,3)]]) (auto simp: el_sys_simps split: if_splits dest: in_diffD)
qed

lemma el_named_step:
  assumes s: "el.separate cfg view env x" "el_named cfg view name x" "el_step cfg env name x y"
  shows "el_named cfg view name y"
proof -
  have k: "el_ok cfg view env x" using s(1) by (simp add: el.separate_def)
  have K: "kv_laws (el_kv cfg) view env" "bucket_wf (view (snd x))" using k by (auto simp: el_ok_def)
  note v = el_ok_step[OF k s(3), THEN conjunct2]
  from s(3) show ?thesis
  proof cases
    case (el_outside w w' s)
    then show ?thesis using el_named_world s v by auto
  next
    case (el_renew s i t w r w')
    have "el_workerID (el_agents s i) = name i" using assms(2) el_renew by (auto simp: el_named_def)
    then show ?thesis using el_renew s(1,2) v kv_write_value[OF K(1) _ disjI1] K(2) by (auto intro!: el_named_call)
  next
    case (el_create i t w r w' s)
    then show ?thesis using assms(1,2) v kv_write_value[OF K(1) _ disjI2] K(2) by (auto intro!: el_named_call)
  next
    case (el_release s i w r w')
    then show ?thesis using assms(1,2) v by (auto intro!: el_named_call)
  next
    case (el_forget s w i)
    have "el_named cfg view name (el_set i (clearLeadership (el_agents s i)) s, w)"
      using assms(2) el_namedD(1)[of cfg view name s w] el_forget
      by (intro el_named_sub[OF _ el_owns_forget[of i s]]) (auto simp: el_set_def clearLeadership_def setLeaderState_def split: if_splits)
    then show ?thesis using el_forget by simp
  qed (use assms(2) in \<open>auto intro!: el_named_answer\<close>)
qed

lemma el_steps_inv:
  assumes "(el_step cfg env name)\<^sup>*\<^sup>* x y" "el.separate cfg view env x" "el_named cfg view name x"
  shows "el.separate cfg view env y \<and> el_named cfg view name y"
  using assms by (induction rule: rtranclp_induct) (auto intro: el.separate_step el_named_step)

lemma el_init_named: "el_named cfg view name (el_init, w)"
  by (simp add: el_named_def) (simp add: el_init_def NewNATSElection_def)

lemma leader_value_prefix:
  assumes "CHR '':'' \<notin> set m" "CHR '':'' \<notin> set n" "has_prefix (leader_value n t) (m @ '':'')"
  shows "m = n"
proof -
  have "leader_value n t = (m @ '':'') @ drop (Suc (length m)) (leader_value n t)"
    using assms(3) append_take_drop_id[of "Suc (length m)" "leader_value n t"] by (simp add: has_prefix_def)
  then have "n @ CHR '':'' # show_int t = m @ CHR '':'' # drop (Suc (length m)) (leader_value n t)"
    by (simp add: leader_value_def)
  then show ?thesis using assms(1,2) by (simp add: append_sep_eq)
qed

text \<open>C11: The live fence of the publisher. If \<open>CheckLeadership\<close> accepts the term that the caller claims, then
  this is the current term of the agent, and at some moment during the call the key was there, at a revision not
  below the term, and was the lease of no other agent.\<close>

theorem check_leadership_live:
  assumes "kv_laws (el_kv cfg) view env" "bucket_wf (view w0)" "inj name" "\<And>i. CHR '':'' \<notin> set (name i)"
    and "(el_step cfg env name)\<^sup>*\<^sup>* (el_init, w0) (s, w)" "el_isLeader (el_agents s i)"
    and "CheckLeadership cfg claimed (el_agents s i) w = (None, w')"
  shows "claimed = election_Revision (el_agents s i) \<and>
    (\<exists>u e. env w u \<and> env u w' \<and> bk_entries (view u) (el_key cfg) = Some e \<and> claimed \<le> ent_Revision e \<and>
       (\<forall>j. j \<noteq> i \<longrightarrow> el_revision (el_agents s j) \<noteq> ent_Revision e \<and> election_Revision (el_agents s j) \<noteq> ent_Revision e))"
proof -
  note K = assms(1)
  have I: "el.separate cfg view env (s, w)" "el_named cfg view name (s, w)"
    using el_steps_inv[OF assms(5) el_init_separate[OF assms(1,2)] el_init_named] by auto
  have c: "claimed \<noteq> 0" "claimed = election_Revision (el_agents s i)"
    using assms(7) by (auto simp: CheckLeadership_def election_Revision_def split: if_splits)
  obtain e where e: "kv_Get (el_kv cfg) (el_key cfg) w = (Inr e, w')" "claimed \<le> ent_Revision e"
      "has_prefix (ent_Value e) (name i @ '':'')"
    using assms(7) el_namedD(1)[OF I(2) assms(6)]
    by (auto simp: CheckLeadership_def not_less split: if_splits prod.splits sum.splits)
  obtain u where u: "env w u" "bk_entries (view u) (el_key cfg) = Some e" "env u w'"
    using kv_get_ok[OF K e(1)] by (auto simp: get_resp_def)
  have "evolves (view w) (view u)" using kv_env_wf[OF K u(1)] I(1) by (auto simp: el.separate_def el_ok_def)
  from el_named_world[OF I this] have n: "\<exists>t. ent_Value e = leader_value (name j) t" if "ent_Revision e \<in> el_owns s j" for j
    using u(2) that by (auto simp: el_named_def)
  have "ent_Revision e \<notin> el_owns s j" if j: "j \<noteq> i" for j
  proof
    assume "ent_Revision e \<in> el_owns s j"
    then obtain t where "ent_Value e = leader_value (name j) t" using n by blast
    then have "name i = name j" using leader_value_prefix[OF assms(4) assms(4)] e(3) by metis
    then show False using j assms(3) by (simp add: inj_eq)
  qed
  then have "\<forall>j. j \<noteq> i \<longrightarrow> el_revision (el_agents s j) \<noteq> ent_Revision e \<and> election_Revision (el_agents s j) \<noteq> ent_Revision e"
    using c(1) e(2) unfolding el_owns_def election_Revision_def by fastforce
  then show ?thesis using c(2) e(2) u by blast
qed

section \<open>A run\<close>

definition ex_el :: "string mem_world election_cfg" where
  "ex_el = \<lparr>el_kv = mem_kv [''leader''], el_key = ''leader'', el_Unix = (\<lambda>w. (7, w))\<rparr>"

definition ex_name :: "nat \<Rightarrow> string" where
  "ex_name i = ''w-'' @ show_nat i"

definition ex_lead :: "nat \<Rightarrow> nat \<Rightarrow> election" where
  "ex_lead i n = \<lparr>el_workerID = ex_name i, el_revision = n, termRevision = n, el_isLeader = True\<rparr>"

definition ex_bucket :: "nat \<Rightarrow> nat option \<Rightarrow> string mem_world" where
  "ex_bucket n holder = (\<lparr>bk_last = n, bk_entries = (case holder of None \<Rightarrow> Map.empty
     | Some i \<Rightarrow> Map.empty(''leader'' \<mapsto> \<lparr>ent_Value = leader_value (ex_name i) 7, ent_Revision = n, ent_Created = 0\<rparr>))\<rparr>, 0)"

lemma ex_name_ok: "inj ex_name" "CHR '':'' \<notin> set (ex_name i)"
  by (auto simp: ex_name_def inj_def show_nat_no_colon)

lemma ex_request: "RequestLeadership ex_el (ex_name i) 10 NewNATSElection (ex_bucket n None) = (Inr True, ex_lead i (n + 1), ex_bucket (n + 1) (Some i))"
  by (simp add: RequestLeadership_def NewNATSElection_def acquire_def ex_el_def mem_kv_def mem_write_def ex_bucket_def rev_at_def
      create_return_def setLeaderState_def ex_lead_def Let_def)

lemma ex_release: "ReleaseLeadership ex_el (ex_lead i m) (ex_bucket n (Some j)) = (None, NewNATSElection, ex_bucket (n + 1) None)"
  by (simp add: ReleaseLeadership_def ex_lead_def ex_el_def mem_kv_def ex_bucket_def release_return_def setLeaderState_def NewNATSElection_def
      fun_upd_idem_iff)

lemma ex_expire: "mem_expires (ex_bucket n h) (ex_bucket n None)"
  by (simp add: mem_expires_def ex_bucket_def split: option.split)

lemma ex_el_laws: "kv_laws (el_kv ex_el) fst mem_expires" "bucket_wf (fst (ex_bucket 0 None))"
  by (simp_all add: ex_el_def mem_expires_laws bucket_wf_def ex_bucket_def)

text \<open>The lease of the first leader runs out and a second one is elected.\<close>

lemma ex_takeover:
  "(el_step ex_el mem_expires ex_name)\<^sup>*\<^sup>* (el_init, ex_bucket 0 None) (el_set 1 (ex_lead 1 2) (el_set 0 (ex_lead 0 1) el_init), ex_bucket 2 (Some 1))"
proof -
  have U: "unix_env ex_el mem_expires" by (auto simp: unix_env_def ex_el_def mem_expires_def)
  have a: "el_agents el_init i = NewNATSElection" "el_agents (el_set 0 e el_init) (Suc 0) = NewNATSElection" for i e
    by (simp_all add: el_init_def el_set_def)
  have "(el_step ex_el mem_expires ex_name)\<^sup>*\<^sup>* (el_init, ex_bucket 0 None) (el_set 0 (ex_lead 0 1) el_init, ex_bucket 1 (Some 0))"
    by (rule request_steps[OF U, where d = 10]) (use ex_request[of 0 0] a in simp)
  also have "el_step ex_el mem_expires ex_name (el_set 0 (ex_lead 0 1) el_init, ex_bucket 1 (Some 0)) (el_set 0 (ex_lead 0 1) el_init, ex_bucket 1 None)"
    by (rule el_outside) (rule ex_expire)
  also have "(el_step ex_el mem_expires ex_name)\<^sup>*\<^sup>* (el_set 0 (ex_lead 0 1) el_init, ex_bucket 1 None)
      (el_set 1 (ex_lead 1 2) (el_set 0 (ex_lead 0 1) el_init), ex_bucket 2 (Some 1))"
    by (rule request_steps[OF U, where d = 10]) (use ex_request[of 1 1] a in \<open>simp add: numeral_2_eq_2\<close>)
  finally show ?thesis .
qed


theorem check_leadership_live_witness:
  "CheckLeadership ex_el 2 (ex_lead 1 2) (ex_bucket 2 (Some 1)) = (None, ex_bucket 2 (Some 1)) \<and>
   (\<exists>u e. mem_expires (ex_bucket 2 (Some 1)) u \<and> mem_expires u (ex_bucket 2 (Some 1)) \<and>
      bk_entries (fst u) ''leader'' = Some e \<and> 2 \<le> ent_Revision e \<and> 1 \<noteq> ent_Revision e)"
proof
  show c: "CheckLeadership ex_el 2 (ex_lead 1 2) (ex_bucket 2 (Some 1)) = (None, ex_bucket 2 (Some 1))"
    by (simp add: CheckLeadership_def ex_lead_def ex_el_def mem_kv_def ex_bucket_def leader_value_def has_prefix_def ex_name_def)
  have k: "el_key ex_el = ''leader''" by (simp add: ex_el_def)
  show "\<exists>u e. mem_expires (ex_bucket 2 (Some 1)) u \<and> mem_expires u (ex_bucket 2 (Some 1)) \<and>
      bk_entries (fst u) ''leader'' = Some e \<and> 2 \<le> ent_Revision e \<and> 1 \<noteq> ent_Revision e"
  proof -
    let ?s = "el_set 1 (ex_lead 1 2) (el_set 0 (ex_lead 0 1) el_init)"
    obtain u e where u: "mem_expires (ex_bucket 2 (Some 1)) u" "mem_expires u (ex_bucket 2 (Some 1))" "bk_entries (fst u) ''leader'' = Some e"
      "2 \<le> ent_Revision e" "el_revision (el_agents ?s 0) \<noteq> ent_Revision e"
      using check_leadership_live[OF ex_el_laws ex_name_ok ex_takeover, of 1 2 "ex_bucket 2 (Some 1)"] c k
      by (auto simp: ex_lead_def)
    have "1 \<noteq> ent_Revision e" using u(5) by (simp add: el_set_def ex_lead_def)
    then show ?thesis using u(1-4) by blast
  qed
qed

text \<open>A deposed leader can take the lease away from its successor. \<open>ReleaseLeadership\<close> deletes the key
  without a condition on the revision: after the lease of the first leader has run out and the second one has
  been elected, a release by the first deletes the lease of the second, and a third agent is elected while the
  second is the leader.\<close>

theorem release_deletes_successor:
  "\<exists>s w w' w'' e. (el_step ex_el mem_expires ex_name)\<^sup>*\<^sup>* (el_init, ex_bucket 0 None) (s, w) \<and>
     el_isLeader (el_agents s 1) \<and> IsLeader ex_el (el_agents s 1) w = (Inr True, el_agents s 1, w) \<and>
     ReleaseLeadership ex_el (el_agents s 0) w = (None, NewNATSElection, w') \<and> rev_at (fst w') (el_key ex_el) = None \<and>
     RequestLeadership ex_el (ex_name 2) 10 (el_agents s 2) w' = (Inr True, e, w'') \<and> el_isLeader e"
proof -
  let ?s = "el_set 1 (ex_lead 1 2) (el_set 0 (ex_lead 0 1) el_init)"
  have a: "el_agents ?s 0 = ex_lead 0 1" "el_agents ?s 1 = ex_lead 1 2" "el_agents ?s 2 = NewNATSElection"
    by (simp_all add: el_set_def el_init_def)
  have "IsLeader ex_el (ex_lead 1 2) (ex_bucket 2 (Some 1)) = (Inr True, ex_lead 1 2, ex_bucket 2 (Some 1))"
    by (simp add: IsLeader_def ex_lead_def ex_el_def mem_kv_def ex_bucket_def)
  moreover have "rev_at (fst (ex_bucket 3 None)) (el_key ex_el) = None" by (simp add: rev_at_def ex_bucket_def)
  ultimately show ?thesis using ex_takeover ex_release[of 0 1 2 1] ex_request[of 2 3] a
    by (intro exI[of _ ?s] exI[of _ "ex_bucket 2 (Some 1)"] exI[of _ "ex_bucket 3 None"] exI[of _ "ex_bucket 4 (Some 2)"] exI[of _ "ex_lead 2 4"])
      (simp add: ex_lead_def)
qed

text \<open>A timeout of the election below one second is accepted by the configuration and leaves the group
  without a leader: the lease is passed on in whole seconds.\<close>

lemma subsecond_election_fails:
  assumes "0 < d" "d < 1000000000"
  shows "fst (RequestLeadership cfg workerID (lease_seconds d) e w) = Inl ErrInvalidDuration"
  using assms by (simp add: RequestLeadership_def lease_seconds_def go_div_def)

section \<open>The loop of the manager\<close>

text \<open>A calculator only runs under a manager that takes itself for the leader, and then the agent agrees.\<close>

definition leadership_ok :: "leadership \<Rightarrow> bool" where
  "leadership_ok m \<longleftrightarrow> (mgr_calculating m \<longrightarrow> mgr_isLeader m) \<and> (mgr_isLeader m \<longrightarrow> el_isLeader (mgr_election m))"

lemma monitorLeadership_ok:
  assumes "leadership_ok m" "monitorLeadership cfg m w = (evs, m', w')"
  shows "leadership_ok m' \<or> ld_ctxDone cfg w'"
proof (cases "mgr_isLeader m")
  case True
  then show ?thesis using assms
    by (auto simp: monitorLeadership_def renew_tick_def RenewLeadership_def renew_return_def stop_calculator_def leadership_ok_def Let_def
        split: option.splits prod.splits sum.splits if_splits)
next
  case False
  obtain res e w1 where r: "RequestLeadership (ld_election cfg) (ld_workerID cfg) (lease_seconds (ld_ElectionTimeout cfg)) (mgr_election m) w = (res, e, w1)"
    by (metis prod_cases3)
  have "res = Inr True \<Longrightarrow> el_isLeader e" using r
    by (auto simp: RequestLeadership_def RenewLeadership_def renew_return_def acquire_def create_return_def setLeaderState_def
        split: if_splits option.splits prod.splits sum.splits)
  then show ?thesis using assms False r
    by (auto simp: monitorLeadership_def request_tick_def leadership_ok_def start_calculator_def releaseLeadershipAfterCalculatorFailure_def Let_def
        split: option.splits prod.splits sum.splits if_splits bool.splits)
qed

end
