(* ===== verification/Stable_ID.thy ===== *)
theory Stable_ID
  imports Lease "HOL-Library.Multiset"
begin

text \<open>
  Stable worker identities, \<^verbatim>\<open>internal/stableid/claimer.go\<close>: a worker takes the first identity of a pool
  whose key is absent or stale and renews it. The bucket is a parameter with the laws of the theory KV; the value
  of a key is the formatted time of the claim, of which nothing is read back. Logging is left out.
\<close>

section \<open>The claimer\<close>

record claimer =
  cl_workerID :: string
  lastRevision :: nat
  renewStarted :: bool
  cl_closed :: bool

definition NewClaimer :: claimer where
  "NewClaimer = \<lparr>cl_workerID = [], lastRevision = 0, renewStarted = False, cl_closed = False\<rparr>"

text \<open>\<open>cl_Format\<close> is \<open>Time.Format(time.RFC3339)\<close>. \<open>cl_ctx\<close> is the error of a context that is done. \<open>cl_bucketMissing\<close>
  is the test for the three errors of the client that say that the bucket or its stream is gone. \<open>cl_await\<close> waits
  for the end of the renewal loop and returns the error of the context if that ends first.\<close>

record 'w claimer_cfg =
  cl_kv :: "(string, 'w) kv"
  cl_prefix :: string
  minID :: int
  maxID :: int
  cl_ttl :: duration
  cl_Now :: "'w \<Rightarrow> time \<times> 'w"
  cl_Format :: "time \<Rightarrow> string"
  cl_ctx :: "'w \<Rightarrow> kv_error option \<times> 'w"
  cl_bucketMissing :: "kv_error \<Rightarrow> bool"
  cl_await :: "'w \<Rightarrow> kv_error option \<times> 'w"

datatype claim_error =
  ErrNoAvailableID
| ErrNotClaimed
| ErrAlreadyClosed
| ErrRenewalAlreadyStarted
| ErrClaimLost "kv_error option"
| ClaimContext kv_error
| ClaimKV kv_error

definition workerID_for :: "'w claimer_cfg \<Rightarrow> int \<Rightarrow> string" where
  "workerID_for cfg n = cl_prefix cfg @ ''-'' @ show_int n"

definition keyForID :: "string \<Rightarrow> string" where
  "keyForID workerID = workerID"

definition minRenewInterval :: duration where
  "minRenewInterval = 100000000"

definition renewInterval :: "'w claimer_cfg \<Rightarrow> duration" where
  "renewInterval cfg = max (go_div (cl_ttl cfg) 3) minRenewInterval"

definition staleThreshold :: "'w claimer_cfg \<Rightarrow> duration" where
  "staleThreshold cfg = wrap64 (3 * renewInterval cfg)"

definition isStale :: "'w claimer_cfg \<Rightarrow> string kv_entry \<Rightarrow> 'w \<Rightarrow> bool \<times> 'w" where
  "isStale cfg entry w = (case cl_Now cfg w of (t, w) \<Rightarrow> (time_sub t (ent_Created entry) > staleThreshold cfg, w))"

definition claimed_as :: "string \<Rightarrow> nat \<Rightarrow> claimer \<Rightarrow> claimer" where
  "claimed_as workerID revision c = c\<lparr>cl_workerID := workerID, lastRevision := revision\<rparr>"

text \<open>What a write tells about an identity: it is ours, it is another's, or the attempt failed.\<close>

datatype claim_outcome = Won nat | Next | Failed claim_error

definition claim_outcome_of :: "kv_error + nat \<Rightarrow> claim_outcome" where
  "claim_outcome_of r =
     (case r of Inr revision \<Rightarrow> Won revision | Inl err \<Rightarrow> if err = ErrKeyExists then Next else Failed (ClaimKV err))"

text \<open>One identity of the pool.\<close>

definition claim_id :: "'w claimer_cfg \<Rightarrow> string \<Rightarrow> 'w \<Rightarrow> claim_outcome \<times> 'w" where
  "claim_id cfg workerID w =
     (case cl_Now cfg w of
        (t, w) \<Rightarrow>
          let key = keyForID workerID; value = cl_Format cfg t
          in case kv_Create (cl_kv cfg) key value w of
               (r, w) \<Rightarrow>
                 if claim_outcome_of r \<noteq> Next then (claim_outcome_of r, w)
                 else case kv_Get (cl_kv cfg) key w of
                        (Inl _, w) \<Rightarrow> (case kv_Create (cl_kv cfg) key value w of (r, w) \<Rightarrow> (claim_outcome_of r, w))
                      | (Inr entry, w) \<Rightarrow>
                          (case isStale cfg entry w of
                             (True, w) \<Rightarrow> (case kv_Update (cl_kv cfg) key value (ent_Revision entry) w of (r, w) \<Rightarrow> (claim_outcome_of r, w))
                           | (False, w) \<Rightarrow> (Next, w)))"

fun claim_ids :: "'w claimer_cfg \<Rightarrow> int list \<Rightarrow> claimer \<Rightarrow> 'w \<Rightarrow> (claim_error + string) \<times> claimer \<times> 'w" where
  "claim_ids cfg [] c w = (Inl ErrNoAvailableID, c, w)"
| "claim_ids cfg (n # ids) c w =
     (case cl_ctx cfg w of
        (Some err, w) \<Rightarrow> (Inl (ClaimContext err), c, w)
      | (None, w) \<Rightarrow>
          (case claim_id cfg (workerID_for cfg n) w of
             (Won revision, w) \<Rightarrow> (Inr (workerID_for cfg n), claimed_as (workerID_for cfg n) revision c, w)
           | (Failed err, w) \<Rightarrow> (Inl err, c, w)
           | (Next, w) \<Rightarrow> claim_ids cfg ids c w))"

definition Claim :: "'w claimer_cfg \<Rightarrow> claimer \<Rightarrow> 'w \<Rightarrow> (claim_error + string) \<times> claimer \<times> 'w" where
  "Claim cfg c w = claim_ids cfg [minID cfg..maxID cfg] c w"

definition StartRenewal :: "claimer \<Rightarrow> claim_error option \<times> claimer" where
  "StartRenewal c =
     (if cl_workerID c = [] then (Some ErrNotClaimed, c)
      else if cl_closed c then (Some ErrAlreadyClosed, c)
      else if renewStarted c then (Some ErrRenewalAlreadyStarted, c)
      else (None, c\<lparr>renewStarted := True\<rparr>))"

text \<open>The answer to a renewal.\<close>

definition renew_answer :: "'w claimer_cfg \<Rightarrow> kv_error + nat \<Rightarrow> claimer \<Rightarrow> claim_error option \<times> claimer" where
  "renew_answer cfg r c =
     (case r of
        Inl err \<Rightarrow> (Some (if err = ErrKeyExists then ErrClaimLost None
                         else if cl_bucketMissing cfg err then ErrClaimLost (Some err) else ClaimKV err), c)
      | Inr newRev \<Rightarrow> (None, c\<lparr>lastRevision := newRev\<rparr>))"

definition renew :: "'w claimer_cfg \<Rightarrow> claimer \<Rightarrow> 'w \<Rightarrow> claim_error option \<times> claimer \<times> 'w" where
  "renew cfg c w =
     (if cl_workerID c = [] then (Some ErrNotClaimed, c, w)
      else case cl_Now cfg w of
             (t, w) \<Rightarrow>
               (case kv_Update (cl_kv cfg) (keyForID (cl_workerID c)) (cl_Format cfg t) (lastRevision c) w of
                  (r, w) \<Rightarrow> (case renew_answer cfg r c of (e, c) \<Rightarrow> (e, c, w))))"

text \<open>One tick of the renewal loop: the error for the callback and whether the loop goes on.\<close>

definition renewalLoop :: "'w claimer_cfg \<Rightarrow> claimer \<Rightarrow> 'w \<Rightarrow> claim_error option \<times> bool \<times> claimer \<times> 'w" where
  "renewalLoop cfg c w = (case renew cfg c w of (e, c, w) \<Rightarrow> (e, (case e of Some (ErrClaimLost _) \<Rightarrow> False | _ \<Rightarrow> True), c, w))"

definition renew_timeout :: "'w claimer_cfg \<Rightarrow> duration" where
  "renew_timeout cfg =
     (let opTimeout = go_div (cl_ttl cfg) 2
      in if opTimeout < 100000000 then 100000000 else if opTimeout > 5000000000 then 5000000000 else opTimeout)"

text \<open>The answer to the delete of a release.\<close>

definition claim_release_answer :: "kv_error option \<Rightarrow> claimer \<Rightarrow> claim_error option \<times> claimer" where
  "claim_release_answer r c =
     (case r of
        Some err \<Rightarrow> if err = ErrKeyExists then (None, c\<lparr>cl_workerID := []\<rparr>) else (Some (ClaimKV err), c)
      | None \<Rightarrow> (None, c\<lparr>cl_workerID := []\<rparr>))"

definition claimer_Release :: "'w claimer_cfg \<Rightarrow> claimer \<Rightarrow> 'w \<Rightarrow> claim_error option \<times> claimer \<times> 'w" where
  "claimer_Release cfg c w =
     (let wid = cl_workerID c
      in if wid = [] then (Some ErrNotClaimed, c, w)
         else let c = c\<lparr>cl_closed := True\<rparr>
              in case (if renewStarted c then cl_await cfg w else (None, w)) of
                   (Some err, w) \<Rightarrow> (Some (ClaimContext err), c, w)
                 | (None, w) \<Rightarrow>
                     (case kv_Delete (cl_kv cfg) (keyForID wid) (Some (lastRevision c)) w of
                        (r, w) \<Rightarrow> (case claim_release_answer r c of (e, c) \<Rightarrow> (e, c, w))))"

definition claimer_Close :: "claimer \<Rightarrow> claimer" where
  "claimer_Close c = c\<lparr>cl_closed := True\<rparr>"

definition claimer_WorkerID :: "claimer \<Rightarrow> string" where
  "claimer_WorkerID c = cl_workerID c"

section \<open>The manager\<close>

text \<open>Where the manager sends an error of the renewal: a lost identity stops the worker, unless the whole bucket is
  gone, which like every other error goes to the degraded circuit.\<close>

datatype claimer_route = RecordKVError claim_error | ClaimLostShutdown | RecordKVOpError claim_error

definition onClaimerError :: "(claim_error \<Rightarrow> bool) \<Rightarrow> claim_error \<Rightarrow> claimer_route" where
  "onClaimerError isWholeBucketLoss err =
     (case err of
        ErrClaimLost _ \<Rightarrow> if isWholeBucketLoss err then RecordKVError err else ClaimLostShutdown
      | _ \<Rightarrow> RecordKVOpError err)"

definition claimWorkerID :: "'w claimer_cfg \<Rightarrow> 'w \<Rightarrow> claim_error option \<times> claimer \<times> 'w" where
  "claimWorkerID cfg w =
     (case Claim cfg NewClaimer w of
        (Inl err, c, w) \<Rightarrow> (Some err, c, w)
      | (Inr _, c, w) \<Rightarrow> (case StartRenewal c of (err, c) \<Rightarrow> (err, c, w)))"

end
