(* ===== verification/Stable_ID_Safety.thy ===== *)
theory Stable_ID_Safety
  imports Stable_ID
begin

text \<open>
  Several claimers on one bucket, interleaved at their calls of the store: no two of them hold the same identity
  at the same revision, and what a claimer renews or deletes is its own.
\<close>

section \<open>Interleaving\<close>

datatype id_task = Claiming string "kv_error + nat" | Renewing "kv_error + nat" | Releasing "kv_error option"

record id_sys =
  id_claimers :: "nat \<Rightarrow> claimer"
  id_tasks :: "(nat \<times> id_task) multiset"

definition id_set :: "nat \<Rightarrow> claimer \<Rightarrow> id_sys \<Rightarrow> id_sys" where
  "id_set i c s = s\<lparr>id_claimers := (id_claimers s)(i := c)\<rparr>"

definition id_call :: "nat \<times> id_task \<Rightarrow> id_sys \<Rightarrow> id_sys" where
  "id_call t s = s\<lparr>id_tasks := add_mset t (id_tasks s)\<rparr>"

definition id_done :: "nat \<times> id_task \<Rightarrow> id_sys \<Rightarrow> id_sys" where
  "id_done t s = s\<lparr>id_tasks := id_tasks s - {#t#}\<rparr>"

lemmas id_sys_simps = id_set_def id_call_def id_done_def

definition claim_answer :: "string \<Rightarrow> kv_error + nat \<Rightarrow> claimer \<Rightarrow> claimer" where
  "claim_answer workerID r c = (case r of Inr n \<Rightarrow> claimed_as workerID n c | Inl _ \<Rightarrow> c)"

text \<open>A claim creates the key or replaces an entry of a revision that it has read; a renewal and a release are
  conditioned on the revision of the claimer's last write.\<close>

inductive id_step :: "'w claimer_cfg \<Rightarrow> ('w \<Rightarrow> 'w \<Rightarrow> bool) \<Rightarrow> id_sys \<times> 'w \<Rightarrow> id_sys \<times> 'w \<Rightarrow> bool"
  for cfg env where
  id_outside: "env w w' \<Longrightarrow> id_step cfg env (s, w) (s, w')"
| id_create: "kv_Create (cl_kv cfg) (keyForID wid) v w = (r, w') \<Longrightarrow> id_step cfg env (s, w) (id_call (i, Claiming wid r) s, w')"
| id_takeover: "kv_Update (cl_kv cfg) (keyForID wid) v n w = (r, w') \<Longrightarrow> id_step cfg env (s, w) (id_call (i, Claiming wid r) s, w')"
| id_claimed: "(i, Claiming wid r) \<in># id_tasks s \<Longrightarrow>
    id_step cfg env (s, w) (id_done (i, Claiming wid r) (id_set i (claim_answer wid r (id_claimers s i)) s), w)"
| id_renew: "cl_workerID (id_claimers s i) \<noteq> [] \<Longrightarrow>
    kv_Update (cl_kv cfg) (keyForID (cl_workerID (id_claimers s i))) v (lastRevision (id_claimers s i)) w = (r, w') \<Longrightarrow>
    id_step cfg env (s, w) (id_call (i, Renewing r) s, w')"
| id_renewed: "(i, Renewing r) \<in># id_tasks s \<Longrightarrow>
    id_step cfg env (s, w) (id_done (i, Renewing r) (id_set i (snd (renew_answer cfg r (id_claimers s i))) s), w)"
| id_release: "cl_workerID (id_claimers s i) \<noteq> [] \<Longrightarrow>
    kv_Delete (cl_kv cfg) (keyForID (cl_workerID (id_claimers s i))) (Some (lastRevision (id_claimers s i))) w = (r, w') \<Longrightarrow>
    id_step cfg env (s, w) (id_call (i, Releasing r) s, w')"
| id_released: "(i, Releasing r) \<in># id_tasks s \<Longrightarrow>
    id_step cfg env (s, w) (id_done (i, Releasing r) (id_set i (snd (claim_release_answer r (id_claimers s i))) s), w)"
| id_flags: "id_step cfg env (s, w) (id_set i ((id_claimers s i)\<lparr>renewStarted := a, cl_closed := b\<rparr>) s, w)"

definition id_init :: id_sys where
  "id_init = \<lparr>id_claimers = (\<lambda>_. NewClaimer), id_tasks = {#}\<rparr>"

section \<open>Leases\<close>

definition id_owns :: "id_sys \<Rightarrow> nat \<Rightarrow> nat set" where
  "id_owns s i = {n. n \<noteq> 0 \<and> (n = lastRevision (id_claimers s i) \<or>
     (i, Renewing (Inr n)) \<in># id_tasks s \<or> (\<exists>wid. (i, Claiming wid (Inr n)) \<in># id_tasks s))}"

definition id_ok :: "'w claimer_cfg \<Rightarrow> ('w \<Rightarrow> string bucket) \<Rightarrow> ('w \<Rightarrow> 'w \<Rightarrow> bool) \<Rightarrow> id_sys \<times> 'w \<Rightarrow> bool" where
  "id_ok cfg view env sw \<longleftrightarrow> kv_laws (cl_kv cfg) view env \<and> bucket_wf (view (snd sw))"

definition id_last :: "('w \<Rightarrow> string bucket) \<Rightarrow> id_sys \<times> 'w \<Rightarrow> nat" where
  "id_last view sw = bk_last (view (snd sw))"

lemma id_owns_call [simp]:
  "n \<in> id_owns (id_call (i, t) s) j \<longleftrightarrow>
     n \<in> id_owns s j \<or> i = j \<and> n \<noteq> 0 \<and> (t = Renewing (Inr n) \<or> (\<exists>wid. t = Claiming wid (Inr n)))"
  by (auto simp: id_owns_def id_call_def)

lemma id_owns_answer:
  assumes "t \<in># id_tasks s" "t = (i, Renewing r) \<and> c = snd (renew_answer cfg r (id_claimers s i)) \<or>
    t = (i, Claiming wid r) \<and> c = claim_answer wid r (id_claimers s i) \<or>
    t = (i, Releasing d) \<and> c = snd (claim_release_answer d (id_claimers s i))"
  shows "id_owns (id_done t (id_set i c s)) j \<subseteq> id_owns s j"
  using assms
  by (auto simp: id_owns_def id_sys_simps renew_answer_def claim_answer_def claim_release_answer_def claimed_as_def
      split: sum.splits if_splits option.splits dest: in_diffD)

lemma id_owns_flags: "id_owns (id_set i ((id_claimers s i)\<lparr>renewStarted := a, cl_closed := b\<rparr>) s) j \<subseteq> id_owns s j"
  by (auto simp: id_owns_def id_sys_simps split: if_splits)

lemma id_ok_step:
  assumes "id_ok cfg view env x" "id_step cfg env x y"
  shows "id_ok cfg view env y \<and> evolves (view (snd x)) (view (snd y))"
proof -
  have K: "kv_laws (cl_kv cfg) view env" "bucket_wf (view (snd x))" using assms(1) by (auto simp: id_ok_def)
  from assms(2) show ?thesis
  proof cases
    case (id_outside w w' s)
    then show ?thesis using K kv_env_wf[OF K(1)] by (simp add: id_ok_def)
  next
    case (id_create wid v w r w' s i)
    then show ?thesis using K kv_write_grant[OF K(1) _ disjI2[OF id_create(3)]] by (simp add: id_ok_def)
  next
    case (id_takeover wid v n w r w' s i)
    then show ?thesis using K kv_write_grant[OF K(1) _ disjI1[OF id_takeover(3)]] by (simp add: id_ok_def)
  next
    case (id_renew s i v w r w')
    then show ?thesis using K kv_write_grant[OF K(1) _ disjI1[OF id_renew(4)]] by (simp add: id_ok_def)
  next
    case (id_release s i w r w')
    then show ?thesis using K kv_delete_wf[OF K(1)] by (simp add: id_ok_def)
  qed (use K in \<open>simp_all add: id_ok_def\<close>)
qed

lemma id_grant_step:
  assumes "id_ok cfg view env x" "id_step cfg env x y"
  shows "(\<forall>j. id_owns (fst y) j \<subseteq> id_owns (fst x) j) \<or> (\<exists>i n. id_last view x < n \<and> n \<le> id_last view y \<and>
    id_owns (fst y) i \<subseteq> insert n (id_owns (fst x) i) \<and> (\<forall>j. j \<noteq> i \<longrightarrow> id_owns (fst y) j \<subseteq> id_owns (fst x) j))"
proof -
  have K: "kv_laws (cl_kv cfg) view env" "bucket_wf (view (snd x))" using assms(1) by (auto simp: id_ok_def)
  have wr: ?thesis if x: "x = (s, w)" "y = (id_call (i, t) s, w')" and t: "t = Renewing r \<or> t = Claiming wid r"
    and g: "case r of Inr n \<Rightarrow> bk_last (view w) < n \<and> n \<le> bk_last (view w') | Inl _ \<Rightarrow> True" for s w i t w' r wid
  proof (cases r)
    case (Inl e)
    then show ?thesis using t x by (intro disjI1) auto
  next
    case (Inr n)
    have "id_owns (fst y) i \<subseteq> insert n (id_owns (fst x) i)" "j \<noteq> i \<Longrightarrow> id_owns (fst y) j \<subseteq> id_owns (fst x) j" for j
      using t x Inr by auto
    then show ?thesis using g Inr x by (auto simp: id_last_def)
  qed
  from assms(2) show ?thesis
  proof cases
    case (id_create wid v w r w' s i)
    then show ?thesis using wr[of s w i "Claiming wid r" w' r wid] K kv_write_grant[OF K(1) _ disjI2[OF id_create(3)]] by simp
  next
    case (id_takeover wid v n w r w' s i)
    then show ?thesis using wr[of s w i "Claiming wid r" w' r wid] K kv_write_grant[OF K(1) _ disjI1[OF id_takeover(3)]] by simp
  next
    case (id_renew s i v w r w')
    then show ?thesis using wr[of s w i "Renewing r" w' r] K kv_write_grant[OF K(1) _ disjI1[OF id_renew(4)]] by simp
  next
    case (id_release s i w r w')
    then show ?thesis by (intro disjI1) auto
  next
    case (id_renewed i r s w)
    then show ?thesis using id_owns_answer[of "(i, Renewing r)" s i r] by auto
  next
    case (id_claimed i wid r s w)
    then show ?thesis using id_owns_answer[of "(i, Claiming wid r)" s i r] by auto
  next
    case (id_released i r s w)
    then show ?thesis using id_owns_answer[of "(i, Releasing r)" s i _ _ _ _ r] by auto
  next
    case (id_flags s w i a b)
    then show ?thesis using id_owns_flags[where i = i and s = s] by auto
  qed simp
qed

interpretation sid: lease "id_step cfg env" "id_ok cfg view env" "id_last view" "id_owns \<circ> fst" for cfg env view
proof
  fix s s'
  assume s: "id_ok cfg view env s" "id_step cfg env s s'"
  show "id_ok cfg view env s'" "id_last view s \<le> id_last view s'"
    using id_ok_step[OF s] evolves_last by (auto simp: id_last_def)
  show "(\<forall>j. (id_owns \<circ> fst) s' j \<subseteq> (id_owns \<circ> fst) s j) \<or> (\<exists>i n. id_last view s < n \<and> n \<le> id_last view s' \<and>
      (id_owns \<circ> fst) s' i \<subseteq> insert n ((id_owns \<circ> fst) s i) \<and> (\<forall>j. j \<noteq> i \<longrightarrow> (id_owns \<circ> fst) s' j \<subseteq> (id_owns \<circ> fst) s j))"
    using id_grant_step[OF s] by simp
qed

lemma id_owns_init [simp]: "id_owns id_init i = {}"
  by (auto simp: id_owns_def id_init_def NewClaimer_def)

lemma id_init_separate: "kv_laws (cl_kv cfg) view env \<Longrightarrow> bucket_wf (view w) \<Longrightarrow> sid.separate cfg view env (id_init, w)"
  by (rule sid.separate_init) (simp_all add: id_ok_def)

section \<open>The operations are runs\<close>

text \<open>Clock, context and waiting only let time pass.\<close>

definition claimer_env :: "'w claimer_cfg \<Rightarrow> ('w \<Rightarrow> 'w \<Rightarrow> bool) \<Rightarrow> bool" where
  "claimer_env cfg env \<longleftrightarrow> (\<forall>w w'. (\<exists>t. cl_Now cfg w = (t, w')) \<or> (\<exists>e. cl_ctx cfg w = (e, w')) \<or> (\<exists>e. cl_await cfg w = (e, w')) \<longrightarrow> env w w')"

lemma claimer_envD:
  assumes "claimer_env cfg env"
  shows "cl_Now cfg w = (t, w') \<Longrightarrow> env w w'" "cl_ctx cfg w = (e, w') \<Longrightarrow> env w w'" "cl_await cfg w = (e, w') \<Longrightarrow> env w w'"
  using assms unfolding claimer_env_def by blast+

lemma id_set_same [simp]: "id_set i (id_claimers s i) s = s"
  by (simp add: id_set_def)

lemma id_answer: "id_done (i, t) (id_set i c (id_call (i, t) s)) = id_set i c s"
  by (simp add: id_sys_simps)

lemma id_called [simp]: "t \<in># id_tasks (id_call t s)" "id_claimers (id_call t s) = id_claimers s"
  by (simp_all add: id_call_def)

lemma claimed_steps:
  assumes "id_step cfg env (s, w) (id_call (i, Claiming wid r) s, w')"
  shows "(id_step cfg env)\<^sup>*\<^sup>* (s, w) (id_set i (claim_answer wid r (id_claimers s i)) s, w')"
  using assms id_claimed[of i wid r "id_call (i, Claiming wid r) s" cfg env w']
  by (simp add: id_answer)

lemma id_renew_steps:
  assumes E: "claimer_env cfg env" and r: "renew cfg (id_claimers s i) w = (err, c', w')"
  shows "(id_step cfg env)\<^sup>*\<^sup>* (s, w) (id_set i c' s, w')"
proof (cases "cl_workerID (id_claimers s i) = []")
  case False
  obtain t w1 where t: "cl_Now cfg w = (t, w1)" by fastforce
  obtain a where a: "kv_Update (cl_kv cfg) (keyForID (cl_workerID (id_claimers s i))) (cl_Format cfg t) (lastRevision (id_claimers s i)) w1 = (a, w')"
    "c' = snd (renew_answer cfg a (id_claimers s i))"
    using r False t by (auto simp: renew_def split: prod.splits)
  have "id_step cfg env (s, w) (s, w1)" by (rule id_outside) (rule claimer_envD(1)[OF E t])
  moreover have "id_step cfg env (s, w1) (id_call (i, Renewing a) s, w')" by (rule id_renew[OF False a(1)])
  moreover have "id_step cfg env (id_call (i, Renewing a) s, w') (id_set i c' s, w')"
    using id_renewed[of i a "id_call (i, Renewing a) s" cfg env w'] by (simp add: id_answer a(2))
  ultimately show ?thesis by (meson converse_rtranclp_into_rtranclp rtranclp.rtrancl_refl)
qed (use r in \<open>auto simp: renew_def\<close>)

section \<open>Claiming\<close>

text \<open>An attempt that does not win leaves the bucket as it found it, unless it fails; one that wins has written
  the key when it was absent, or when its entry was stale by the clock of the worker.\<close>

definition id_vacant :: "'w claimer_cfg \<Rightarrow> string \<Rightarrow> string bucket \<Rightarrow> bool" where
  "id_vacant cfg key b \<longleftrightarrow> rev_at b key = None \<or>
     (\<exists>e u t u'. bk_entries b key = Some e \<and> cl_Now cfg u = (t, u') \<and> time_sub t (ent_Created e) > staleThreshold cfg)"

definition id_quiet :: "'b \<Rightarrow> 'b \<Rightarrow> bool" where
  "id_quiet b b' \<longleftrightarrow> False"

definition id_won :: "'w claimer_cfg \<Rightarrow> ('w \<Rightarrow> string bucket) \<Rightarrow> ('w \<Rightarrow> 'w \<Rightarrow> bool) \<Rightarrow> string \<Rightarrow> nat \<Rightarrow> 'w \<Rightarrow> 'w \<Rightarrow> bool" where
  "id_won cfg view env workerID n w w' \<longleftrightarrow> (\<exists>w1 w2 v. evo view env id_quiet w w1 \<and> id_vacant cfg (keyForID workerID) (view w1) \<and>
     eff_put (keyForID workerID) v (view w1) n (view w2) \<and> env w2 w')"

lemma id_wonI: "evo view env id_quiet w w1 \<Longrightarrow> id_vacant cfg (keyForID workerID) (view w1) \<Longrightarrow>
    eff_put (keyForID workerID) v (view w1) n (view w2) \<Longrightarrow> env w2 w' \<Longrightarrow> id_won cfg view env workerID n w w'"
  unfolding id_won_def by blast

lemma outcome_cases:
  "claim_outcome_of r = Won n \<longleftrightarrow> r = Inr n" "claim_outcome_of r = Next \<longleftrightarrow> r = Inl ErrKeyExists"
  by (auto simp: claim_outcome_of_def split: sum.splits)

lemma create_outcome:
  assumes K: "kv_laws (cl_kv cfg) view env" and w: "evo view env id_quiet w0 w" and r: "kv_Create (cl_kv cfg) (keyForID wid) v w = (r, w')"
  shows "(claim_outcome_of r = Next \<longrightarrow> evo view env id_quiet w0 w') \<and> (claim_outcome_of r = Won n \<longrightarrow> id_won cfg view env wid n w0 w')"
proof -
  obtain w1 w2 where x: "env w w1" "write_resp (\<lambda>b. rev_at b (keyForID wid) = None) (eff_put (keyForID wid) v) (view w1) r (view w2)" "env w2 w'"
    using kv_create_ok[OF K r] by blast
  have w1: "evo view env id_quiet w0 w1" by (rule evo_env[OF w x(1)])
  have v: "rev_at (view w1) (keyForID wid) = None \<Longrightarrow> id_vacant cfg (keyForID wid) (view w1)" by (simp add: id_vacant_def)
  show ?thesis using x(2,3) evo_env[OF evo_same[OF w1]] v
    by (auto simp: outcome_cases write_resp_def intro: id_wonI[OF w1])
qed

lemma takeover_outcome:
  assumes K: "kv_laws (cl_kv cfg) view env" and wf: "bucket_wf (view w0)" and x: "evo view env id_quiet w0 x"
    and e: "bk_entries (view x) (keyForID wid) = Some e" and st: "isStale cfg e y = (True, w)" "env x y" "env y w"
    and r: "kv_Update (cl_kv cfg) (keyForID wid) v (ent_Revision e) w = (r, w')"
  shows "(claim_outcome_of r = Next \<longrightarrow> evo view env id_quiet w0 w') \<and> (claim_outcome_of r = Won n \<longrightarrow> id_won cfg view env wid n w0 w')"
proof -
  have own: "id_quiet b b' \<Longrightarrow> touches (\<lambda>_. True) b b'" for b b' :: "string bucket" by (simp add: id_quiet_def)
  have ww: "evo view env id_quiet w0 w" by (rule evo_env[OF evo_env[OF x st(2)] st(3)])
  obtain w1 w2 where z: "env w w1" "write_resp (\<lambda>b. rev_at b (keyForID wid) = Some (ent_Revision e)) (eff_put (keyForID wid) v) (view w1) r (view w2)" "env w2 w'"
    using kv_update_ok[OF K r] by blast
  have w1: "evo view env id_quiet w0 w1" by (rule evo_env[OF ww z(1)])
  have wx: "bucket_wf (view x)" using evo_wf[OF x wf K own] by simp
  have "evolves (view x) (view w1)"
    using kv_env_wf[OF K kv_env_trans[OF K kv_env_trans[OF K st(2,3)] z(1)] wx] by simp
  then have "rev_at (view w1) (keyForID wid) = Some (ent_Revision e) \<Longrightarrow> id_vacant cfg (keyForID wid) (view w1)"
    using same_revision[OF e _ wx] st(1) unfolding id_vacant_def by (auto simp: isStale_def split: prod.splits)
  then show ?thesis using z(2,3) evo_env[OF evo_same[OF w1]]
    by (auto simp: outcome_cases write_resp_def intro: id_wonI[OF w1])
qed

lemma claim_id_outcome:
  assumes K: "kv_laws (cl_kv cfg) view env" and E: "claimer_env cfg env" and wf: "bucket_wf (view w0)"
    and w: "evo view env id_quiet w0 w" and c: "claim_id cfg wid w = (a, w')"
  shows "(a = Next \<longrightarrow> evo view env id_quiet w0 w') \<and> (a = Won n \<longrightarrow> id_won cfg view env wid n w0 w')"
proof -
  obtain t w1 where t: "cl_Now cfg w = (t, w1)" by fastforce
  let ?v = "cl_Format cfg t"
  obtain r w2 where r: "kv_Create (cl_kv cfg) (keyForID wid) ?v w1 = (r, w2)" by fastforce
  have w1: "evo view env id_quiet w0 w1" by (rule evo_env[OF w claimer_envD(1)[OF E t]])
  note o1 = create_outcome[OF K w1 r, of n]
  show ?thesis
  proof (cases "claim_outcome_of r = Next")
    case False
    then show ?thesis using c o1 by (auto simp: claim_id_def t r Let_def)
  next
    case True
    then have w2: "evo view env id_quiet w0 w2" using o1 by simp
    obtain g w3 where g: "kv_Get (cl_kv cfg) (keyForID wid) w2 = (g, w3)" by fastforce
    have w3: "evo view env id_quiet w0 w3" by (rule evo_env[OF w2 kv_get_env[OF K g]])
    show ?thesis
    proof (cases g)
      case (Inl e)
      obtain r2 w4 where r2: "kv_Create (cl_kv cfg) (keyForID wid) ?v w3 = (r2, w4)" by fastforce
      then show ?thesis using c True Inl create_outcome[OF K w3 r2, of n] by (auto simp: claim_id_def t r g Let_def)
    next
      case (Inr e)
      obtain x where x: "env w2 x" "bk_entries (view x) (keyForID wid) = Some e" "env x w3"
        using kv_get_ok[OF K g] Inr by (auto simp: get_resp_def)
      obtain b w4 where b: "isStale cfg e w3 = (b, w4)" by fastforce
      have e4: "env w3 w4" using b claimer_envD(1)[OF E] by (auto simp: isStale_def split: prod.splits)
      obtain r2 w5 where r2: "kv_Update (cl_kv cfg) (keyForID wid) ?v (ent_Revision e) w4 = (r2, w5)" by fastforce
      have "b \<Longrightarrow> (claim_outcome_of r2 = Next \<longrightarrow> evo view env id_quiet w0 w5) \<and> (claim_outcome_of r2 = Won n \<longrightarrow> id_won cfg view env wid n w0 w5)"
        using takeover_outcome[OF K wf evo_env[OF w2 x(1)] x(2) _ x(3) e4 r2] b by simp
      then show ?thesis using c True Inr evo_env[OF w3 e4] by (cases b) (auto simp: claim_id_def t r g b r2 Let_def)
    qed
  qed
qed

lemma claim_ids_outcome:
  assumes K: "kv_laws (cl_kv cfg) view env" and E: "claimer_env cfg env" and wf: "bucket_wf (view w0)"
  shows "evo view env id_quiet w0 w \<Longrightarrow> claim_ids cfg ids c w = (r, c', w') \<Longrightarrow>
    (case r of
       Inr wid \<Rightarrow> \<exists>n. \<exists>k \<in> set ids. wid = workerID_for cfg k \<and> c' = claimed_as wid n c \<and> id_won cfg view env wid n w0 w'
     | Inl e \<Rightarrow> c' = c \<and> (e = ErrNoAvailableID \<longrightarrow> evo view env id_quiet w0 w'))"
proof (induction ids arbitrary: w)
  case (Cons k ids)
  obtain e w1 where e: "cl_ctx cfg w = (e, w1)" by fastforce
  have w1: "evo view env id_quiet w0 w1" by (rule evo_env[OF Cons.prems(1) claimer_envD(2)[OF E e]])
  show ?case
  proof (cases e)
    case None
    obtain a w2 where a: "claim_id cfg (workerID_for cfg k) w1 = (a, w2)" by fastforce
    note co = claim_id_outcome[OF K E wf w1 a]
    have ne: "claim_outcome_of x \<noteq> Failed ErrNoAvailableID" for x by (simp add: claim_outcome_of_def split: sum.split)
    have "a \<noteq> Failed ErrNoAvailableID"
      using a ne by (auto simp: claim_id_def Let_def split: prod.splits sum.splits bool.splits if_splits)
    then show ?thesis using Cons.prems(2) Cons.IH[of w2] co e None a
      by (cases a) (fastforce split: sum.splits)+
  qed (use Cons.prems(2) e in auto)
qed auto

text \<open>C12: A claim takes only an identity that is free. Whatever other workers do meanwhile: if \<open>Claim\<close> returns an
  identity, it is one of the pool, and the key was written by this claimer, at the revision it remembers, at a moment
  at which the key was absent or its entry was older than the stale threshold by the clock of this worker; before that
  moment the claim wrote nothing. If it returns that no identity is available, it wrote nothing.\<close>

theorem claim_takes_free:
  assumes "kv_laws (cl_kv cfg) view env" "claimer_env cfg env" "bucket_wf (view w)" "Claim cfg c w = (r, c', w')"
  shows "case r of
       Inr wid \<Rightarrow> (\<exists>k \<in> {minID cfg..maxID cfg}. wid = workerID_for cfg k) \<and> claimer_WorkerID c' = wid \<and>
         id_won cfg view env wid (lastRevision c') w w'
     | Inl e \<Rightarrow> c' = c \<and> (e = ErrNoAvailableID \<longrightarrow> evo view env id_quiet w w')"
  using claim_ids_outcome[OF assms(1-3) evo_refl assms(4)[unfolded Claim_def]]
  by (auto simp: claimed_as_def claimer_WorkerID_def split: sum.splits)

section \<open>Exclusive identities\<close>

text \<open>C13: An identity has one holder. Whatever the claimers do, concurrently and with any operation of the store
  failing: two claimers never remember the same revision, and a renewal or a release of one of them changes the
  bucket only at the key of its own identity and only while that key has the revision of its own last write, never the
  key as another claimer has written it.\<close>

theorem claimer_touches_own:
  assumes "kv_laws (cl_kv cfg) view env" "claimer_env cfg env" "bucket_wf (view w0)"
    and "(id_step cfg env)\<^sup>*\<^sup>* (id_init, w0) (s, w)"
    and "renew cfg (id_claimers s i) w = (e, c', w') \<or> claimer_Release cfg (id_claimers s i) w = (e, c', w')"
  shows "\<exists>w1 w2. env w w1 \<and> env w2 w' \<and> (view w2 = view w1 \<or>
     touches (\<lambda>k. k = keyForID (claimer_WorkerID (id_claimers s i))) (view w1) (view w2) \<and>
     rev_at (view w1) (keyForID (claimer_WorkerID (id_claimers s i))) = Some (lastRevision (id_claimers s i)) \<and>
     (\<forall>j. j \<noteq> i \<longrightarrow> lastRevision (id_claimers s j) \<noteq> lastRevision (id_claimers s i)))"
proof -
  note K = assms(1)
  let ?c = "id_claimers s i"
  let ?k = "keyForID (claimer_WorkerID ?c)"
  have sep: "sid.separate cfg view env (s, w)" by (rule sid.separate_steps[OF assms(4) id_init_separate[OF assms(1,3)]])
  then have wf: "bucket_wf (view w)" by (simp add: sid.separate_def id_ok_def)
  have others: "\<forall>j. j \<noteq> i \<longrightarrow> lastRevision (id_claimers s j) \<noteq> lastRevision ?c" if "lastRevision ?c \<noteq> 0"
  proof (intro allI impI)
    fix j assume "j \<noteq> i"
    then have "id_owns s j \<inter> id_owns s i = {}" using sep by (simp add: sid.separate_def)
    moreover have "lastRevision ?c \<in> id_owns s i" using that by (simp add: id_owns_def)
    moreover have "lastRevision (id_claimers s j) = lastRevision ?c \<Longrightarrow> lastRevision ?c \<in> id_owns s j" using that by (simp add: id_owns_def)
    ultimately show "lastRevision (id_claimers s j) \<noteq> lastRevision ?c" by blast
  qed
  obtain w1 w2 where x: "env w w1" "env w2 w'" "view w2 = view w1 \<or> touches (\<lambda>k. k = ?k) (view w1) (view w2) \<and> rev_at (view w1) ?k = Some (lastRevision ?c)"
  proof (cases "renew cfg ?c w = (e, c', w')")
    case True
    show ?thesis
    proof (cases "cl_workerID ?c = []")
      case False
      obtain t u where t: "cl_Now cfg w = (t, u)" by fastforce
      obtain r where r: "kv_Update (cl_kv cfg) ?k (cl_Format cfg t) (lastRevision ?c) u = (r, w')"
        using True False t by (auto simp: renew_def claimer_WorkerID_def split: prod.splits)
      obtain w1 w2 where z: "env u w1" "write_resp (\<lambda>b. rev_at b ?k = Some (lastRevision ?c)) (eff_put ?k (cl_Format cfg t)) (view w1) r (view w2)" "env w2 w'"
        using kv_update_ok[OF K r] by blast
      have "view w2 = view w1 \<or> rev_at (view w1) ?k = Some (lastRevision ?c)"
        using z(2) by (auto simp: write_resp_def split: sum.splits kv_error.splits)
      then show ?thesis using that[OF kv_env_trans[OF K claimer_envD(1)[OF assms(2) t] z(1)] z(3)] write_resp_touches[OF z(2)] by blast
    qed (use True that kv_env_refl[OF K] in \<open>auto simp: renew_def\<close>)
  next
    case False
    then have rel: "claimer_Release cfg ?c w = (e, c', w')" using assms(5) by simp
    obtain ce u where a: "(if renewStarted ?c then cl_await cfg w else (None, w)) = (ce, u)" by fastforce
    have u: "env w u" using a claimer_envD(3)[OF assms(2)] kv_env_refl[OF K] by (auto split: if_splits)
    show ?thesis
    proof (cases "cl_workerID ?c = [] \<or> ce \<noteq> None")
      case True
      then show ?thesis using rel a that[OF u kv_env_refl[OF K]] that[OF kv_env_refl[OF K] kv_env_refl[OF K]]
        by (auto simp: claimer_Release_def Let_def split: option.splits if_splits)
    next
      case False
      then obtain r where r: "kv_Delete (cl_kv cfg) ?k (Some (lastRevision ?c)) u = (r, w')"
        using rel a by (auto simp: claimer_Release_def claimer_WorkerID_def Let_def split: prod.splits option.splits if_splits)
      obtain w1 w2 where z: "env u w1" "del_resp (\<lambda>b. Some (lastRevision ?c) = None \<or> rev_at b ?k = Some (lastRevision ?c)) (eff_del ?k) (view w1) r (view w2)" "env w2 w'"
        using kv_delete_ok[OF K r] by blast
      have "view w2 = view w1 \<or> rev_at (view w1) ?k = Some (lastRevision ?c)"
        using z(2) by (auto simp: del_resp_def split: option.splits kv_error.splits)
      then show ?thesis using that[OF kv_env_trans[OF K u z(1)] z(3)] del_resp_touches[OF z(2)] by blast
    qed
  qed
  have "lastRevision ?c \<noteq> 0" if "rev_at (view w1) ?k = Some (lastRevision ?c)"
    using kv_env_wf[OF K x(1) wf] that unfolding rev_at_def bucket_wf_def by fastforce
  then show ?thesis using x others by blast
qed

section \<open>Timing\<close>

text \<open>The threshold is three intervals, without overflow, so that a holder whose key is at most two intervals old is
  not taken over by a worker whose clock runs at most one interval ahead.\<close>

lemma staleThreshold_eq:
  assumes "in_i64 (cl_ttl cfg)"
  shows "staleThreshold cfg = 3 * renewInterval cfg"
proof -
  have "3 * (\<bar>cl_ttl cfg\<bar> div 3) \<le> \<bar>cl_ttl cfg\<bar>" by simp
  then have "in_i64 (3 * renewInterval cfg)"
    using assms by (auto simp: in_i64_def renewInterval_def go_div_def minRenewInterval_def max_def sgn_if)
  then show ?thesis by (simp add: staleThreshold_def)
qed

lemma fresh_not_stale:
  assumes "in_i64 (cl_ttl cfg)" "cl_Now cfg w = (t, w')" "t \<le> ent_Created e + 3 * renewInterval cfg"
  shows "isStale cfg e w = (False, w')"
proof -
  have "0 \<le> 3 * renewInterval cfg" by (simp add: renewInterval_def minRenewInterval_def)
  then show ?thesis using assms by (simp add: isStale_def staleThreshold_eq time_sub_def)
qed

lemma renew_timeout_bounds: "100000000 \<le> renew_timeout cfg \<and> renew_timeout cfg \<le> 5000000000"
  by (simp add: renew_timeout_def Let_def)

section \<open>A pool that answers\<close>

definition id_available :: "'w claimer_cfg \<Rightarrow> string mem_world \<Rightarrow> string \<Rightarrow> bool" where
  "id_available cfg w workerID =
     (case bk_entries (fst w) (keyForID workerID) of
        None \<Rightarrow> True
      | Some e \<Rightarrow> time_sub (snd w) (ent_Created e) > staleThreshold cfg)"

lemma claim_ids_mem:
  assumes "cl_kv cfg = mem_kv names" "cl_Now cfg = (\<lambda>w. (snd w, w))" "cl_ctx cfg = (\<lambda>w. (None, w))"
  shows "claim_ids cfg ids c w =
    (case find (\<lambda>k. id_available cfg w (workerID_for cfg k)) ids of
       None \<Rightarrow> (Inl ErrNoAvailableID, c, w)
     | Some k \<Rightarrow> (Inr (workerID_for cfg k), claimed_as (workerID_for cfg k) (bk_last (fst w) + 1) c,
         snd (mem_write (keyForID (workerID_for cfg k)) (cl_Format cfg (snd w)) w)))"
proof -
  have "claim_id cfg wid w = (if id_available cfg w wid then (Won (bk_last (fst w) + 1), snd (mem_write (keyForID wid) (cl_Format cfg (snd w)) w)) else (Next, w))" for wid
    by (auto simp: claim_id_def assms mem_kv_def mem_write_def rev_at_def claim_outcome_of_def isStale_def id_available_def Let_def split: option.splits)
  then show ?thesis by (induction ids) (simp_all add: assms(3))
qed

text \<open>On a store that answers every request and that nobody else writes to, \<open>Claim\<close> returns the first
  identity of the pool that is absent or stale, written at the next revision, and fails with no available identity
  exactly when every identity of the pool is fresh.\<close>

lemma claim_first_available:
  assumes "cl_kv cfg = mem_kv names" "cl_Now cfg = (\<lambda>w. (snd w, w))" "cl_ctx cfg = (\<lambda>w. (None, w))"
  shows "Claim cfg c w =
    (case find (\<lambda>k. id_available cfg w (workerID_for cfg k)) [minID cfg..maxID cfg] of
       None \<Rightarrow> (Inl ErrNoAvailableID, c, w)
     | Some k \<Rightarrow> (Inr (workerID_for cfg k), claimed_as (workerID_for cfg k) (bk_last (fst w) + 1) c,
         snd (mem_write (keyForID (workerID_for cfg k)) (cl_Format cfg (snd w)) w)))"
  unfolding Claim_def by (rule claim_ids_mem[OF assms])

section \<open>A run\<close>

definition ex_ids :: "string mem_world claimer_cfg" where
  "ex_ids = \<lparr>cl_kv = mem_kv [], cl_prefix = ''w'', minID = 0, maxID = 2, cl_ttl = 30000000000, cl_Now = (\<lambda>w. (snd w, w)),
     cl_Format = show_int, cl_ctx = (\<lambda>w. (None, w)), cl_bucketMissing = (\<lambda>_. False), cl_await = (\<lambda>w. (None, w))\<rparr>"

text \<open>The first identity is fresh, the second is stale.\<close>

definition ex_pool :: "string mem_world" where
  "ex_pool = (\<lparr>bk_last = 4, bk_entries = Map.empty(''w-0'' \<mapsto> \<lparr>ent_Value = ''x'', ent_Revision = 4, ent_Created = 39000000000\<rparr>,
     ''w-1'' \<mapsto> \<lparr>ent_Value = ''y'', ent_Revision = 3, ent_Created = 5000000000\<rparr>)\<rparr>, 40000000000)"

definition ex_won :: "string mem_world" where
  "ex_won = snd (mem_write ''w-1'' (show_int 40000000000) ex_pool)"

lemma ex_ids_env: "claimer_env ex_ids (=)"
  by (auto simp: claimer_env_def ex_ids_def)

lemma ex_ids_names: "workerID_for ex_ids 0 = ''w-0''" "workerID_for ex_ids 1 = ''w-1''" "workerID_for ex_ids 2 = ''w-2''"
  by code_simp+

lemma ex_pool_wf: "bucket_wf (fst ex_pool)"
  by (simp add: bucket_wf_def ex_pool_def)

lemma ex_ids_avail: "\<not> id_available ex_ids ex_pool ''w-0''" "id_available ex_ids ex_pool ''w-1''"
  by (simp_all add: id_available_def ex_pool_def keyForID_def staleThreshold_def renewInterval_def minRenewInterval_def ex_ids_def
      go_div_def time_sub_def wrap64_def)

lemma ex_ids_fields: "cl_kv ex_ids = mem_kv []" "cl_Now ex_ids = (\<lambda>w. (snd w, w))" "cl_ctx ex_ids = (\<lambda>w. (None, w))"
  "[minID ex_ids..maxID ex_ids] = [0, 1, 2]" "bk_last (fst ex_pool) + 1 = 5" "cl_Format ex_ids (snd ex_pool) = show_int 40000000000"
  by (simp_all add: ex_ids_def ex_pool_def upto.simps)

lemma ex_claim: "Claim ex_ids NewClaimer ex_pool = (Inr ''w-1'', claimed_as ''w-1'' 5 NewClaimer, ex_won)"
  unfolding Claim_def claim_ids_mem[OF ex_ids_fields(1-3)]
  using ex_ids_avail ex_ids_names ex_ids_fields(4-6) by (simp add: ex_won_def keyForID_def)

theorem claim_takes_free_witness:
  "Claim ex_ids NewClaimer ex_pool = (Inr ''w-1'', claimed_as ''w-1'' 5 NewClaimer, ex_won) \<and>
   (\<exists>k \<in> {0..2}. ''w-1'' = workerID_for ex_ids k) \<and> id_won ex_ids fst (=) ''w-1'' 5 ex_pool ex_won"
proof
  show c: "Claim ex_ids NewClaimer ex_pool = (Inr ''w-1'', claimed_as ''w-1'' 5 NewClaimer, ex_won)" by (rule ex_claim)
  have "kv_laws (cl_kv ex_ids) fst (=)" by (simp add: ex_ids_def mem_kv_laws)
  from claim_takes_free[OF this ex_ids_env ex_pool_wf c]
  show "(\<exists>k \<in> {0..2}. ''w-1'' = workerID_for ex_ids k) \<and> id_won ex_ids fst (=) ''w-1'' 5 ex_pool ex_won"
    by (simp add: claimed_as_def ex_ids_def)
qed

text \<open>A claimer that was taken over releases its identity: the new holder keeps it.\<close>

definition ex_taken :: "string mem_world" where
  "ex_taken = (\<lparr>bk_last = 2, bk_entries = Map.empty(''w-0'' \<mapsto> \<lparr>ent_Value = ''y'', ent_Revision = 2, ent_Created = 0\<rparr>)\<rparr>, 0)"

definition ex_two :: id_sys where
  "ex_two = id_set 1 (claimed_as ''w-0'' 2 NewClaimer) (id_set 0 (claimed_as ''w-0'' 1 NewClaimer) id_init)"

lemma ex_two_reached: "(id_step ex_ids (=))\<^sup>*\<^sup>* (id_init, (\<lparr>bk_last = 0, bk_entries = Map.empty\<rparr>, 0)) (ex_two, ex_taken)"
proof -
  let ?w1 = "(\<lparr>bk_last = 1, bk_entries = Map.empty(''w-0'' \<mapsto> \<lparr>ent_Value = ''x'', ent_Revision = 1, ent_Created = 0\<rparr>)\<rparr>, 0) :: string mem_world"
  have a: "(id_step ex_ids (=))\<^sup>*\<^sup>* (id_init, (\<lparr>bk_last = 0, bk_entries = Map.empty\<rparr>, 0)) (id_set 0 (claim_answer ''w-0'' (Inr 1) (id_claimers id_init 0)) id_init, ?w1)"
    by (rule claimed_steps, rule id_create[where v = "''x''"]) (simp add: ex_ids_def mem_kv_def mem_write_def rev_at_def keyForID_def)
  let ?s1 = "id_set 0 (claimed_as ''w-0'' 1 NewClaimer) id_init"
  have b: "(id_step ex_ids (=))\<^sup>*\<^sup>* (?s1, ?w1) (id_set 1 (claim_answer ''w-0'' (Inr 2) (id_claimers ?s1 1)) ?s1, ex_taken)"
    by (rule claimed_steps, rule id_takeover[where v = "''y''" and n = 1])
      (simp add: ex_ids_def mem_kv_def mem_write_def rev_at_def keyForID_def ex_taken_def numeral_2_eq_2)
  have "claim_answer ''w-0'' (Inr 1) (id_claimers id_init 0) = claimed_as ''w-0'' 1 NewClaimer"
    "id_set 1 (claim_answer ''w-0'' (Inr 2) (id_claimers ?s1 1)) ?s1 = ex_two"
    by (simp_all add: claim_answer_def id_init_def id_set_def ex_two_def)
  then show ?thesis using a b by (simp only: rtranclp_trans)
qed

theorem claimer_touches_own_witness:
  "claimer_Release ex_ids (id_claimers ex_two 0) ex_taken = (None, (claimed_as [] 1 NewClaimer)\<lparr>cl_closed := True\<rparr>, ex_taken) \<and>
   rev_at (fst ex_taken) ''w-0'' = Some (lastRevision (id_claimers ex_two 1)) \<and> lastRevision (id_claimers ex_two 1) \<noteq> lastRevision (id_claimers ex_two 0)"
proof -
  have K: "kv_laws (cl_kv ex_ids) fst (=)" by (simp add: ex_ids_def mem_kv_laws)
  have wf: "bucket_wf (fst (\<lparr>bk_last = 0, bk_entries = Map.empty\<rparr>, 0 :: time))" by (simp add: bucket_wf_def)
  have r: "claimer_Release ex_ids (id_claimers ex_two 0) ex_taken = (None, (claimed_as [] 1 NewClaimer)\<lparr>cl_closed := True\<rparr>, ex_taken)"
    by (simp add: claimer_Release_def ex_two_def id_set_def claimed_as_def NewClaimer_def ex_ids_def mem_kv_def ex_taken_def rev_at_def
        keyForID_def claim_release_answer_def)
  have "renew ex_ids (id_claimers ex_two 1) ex_taken = (None, claimed_as ''w-0'' 3 NewClaimer, snd (mem_write ''w-0'' (show_int 0) ex_taken))"
    by (simp add: renew_def ex_two_def id_set_def claimed_as_def NewClaimer_def ex_ids_def mem_kv_def mem_write_def ex_taken_def rev_at_def
        keyForID_def renew_answer_def)
  from claimer_touches_own[OF K ex_ids_env wf ex_two_reached disjI1, OF this]
  have "lastRevision (id_claimers ex_two 0) \<noteq> lastRevision (id_claimers ex_two 1)"
    by (auto simp: mem_write_def dest: arg_cong[of _ _ bk_last])
  then show ?thesis using r by (simp add: ex_taken_def rev_at_def ex_two_def id_set_def claimed_as_def)
qed

end
