(* ===== verification/Worker_Monitor.thy ===== *)
theory Worker_Monitor
  imports Publisher
begin

text \<open>
  The worker monitor of the leader, \<^verbatim>\<open>internal/assignment/worker_monitor.go\<close>: the scans of the
  heartbeat bucket and one session of the heartbeat watcher, in which the routine refreshes of live
  workers are recognised and suppressed. The watcher is a sequence of entries with the times at which they
  are received. The deadline of a pass (\<open>boundedOpCtx\<close>) is the parameter \<open>op_Err\<close>, which says at each
  moment whether it has passed; the backoff between two sessions, logging and the goroutines that call
  these operations are left out.
\<close>

section \<open>Scans\<close>

record 'w monitor_cfg =
  hb_kv :: "(hb_bytes, 'w) kv"
  hbPrefix :: string
  hbTTL :: duration
  op_Err :: "'w \<Rightarrow> bool \<times> 'w"

definition suppressionHolidayFactor :: int where "suppressionHolidayFactor = 3"

text \<open>The worker of a heartbeat key: the text after the prefix and one more character.\<close>

definition worker_of_key :: "string \<Rightarrow> string \<Rightarrow> string option" where
  "worker_of_key pre key =
     (if length key > length pre + 1 \<and> take (length pre) key = pre then Some (drop (length pre + 1) key) else None)"

definition GetActiveWorkers :: "'w monitor_cfg \<Rightarrow> 'w \<Rightarrow> (kv_error + string list) \<times> 'w" where
  "GetActiveWorkers m w =
     (case kv_Keys (hb_kv m) w of
        (Inl ErrNoKeysFound, w) \<Rightarrow> (Inr [], w)
      | (Inl err, w) \<Rightarrow> (Inl err, w)
      | (Inr keys, w) \<Rightarrow> (Inr (List.map_filter (worker_of_key (hbPrefix m)) keys), w))"

type_synonym heartbeats = "(string, heartbeat) gomap"

datatype scan_error = ListKeys_failed kv_error | FetchAborted

fun heartbeat_scan ::
  "'w monitor_cfg \<Rightarrow> string list \<Rightarrow> heartbeats \<Rightarrow> 'w \<Rightarrow> (heartbeats \<times> scan_error option) \<times> 'w" where
  "heartbeat_scan m [] out w =
     (case op_Err m w of (expired, w) \<Rightarrow> ((out, if expired then Some FetchAborted else None), w))"
| "heartbeat_scan m (key # keys) out w =
     (case op_Err m w of
        (True, w) \<Rightarrow> ((out, Some FetchAborted), w)
      | (False, w) \<Rightarrow>
          (case worker_of_key (hbPrefix m) key of
             None \<Rightarrow> heartbeat_scan m keys out w
           | Some workerID \<Rightarrow>
               (case kv_Get (hb_kv m) key w of
                  (Inl gerr, w) \<Rightarrow> heartbeat_scan m keys out w
                | (Inr entry, w) \<Rightarrow>
                    (case DecodeHeartbeat (ent_Value entry) of
                       None \<Rightarrow> heartbeat_scan m keys out w
                     | Some hb \<Rightarrow> heartbeat_scan m keys (AList.update workerID hb out) w))))"

definition GetHeartbeats :: "'w monitor_cfg \<Rightarrow> 'w \<Rightarrow> (heartbeats \<times> scan_error option) \<times> 'w" where
  "GetHeartbeats m w =
     (case kv_Keys (hb_kv m) w of
        (Inl ErrNoKeysFound, w) \<Rightarrow>
          (case op_Err m w of (expired, w) \<Rightarrow> (([], if expired then Some FetchAborted else None), w))
      | (Inl err, w) \<Rightarrow> (([], Some (ListKeys_failed err)), w)
      | (Inr keys, w) \<Rightarrow> heartbeat_scan m keys [] w)"

text \<open>Why the heartbeat of a worker could not be read: the read failed, or its bytes do not decode.\<close>

datatype hb_failure = HbGetFailed kv_error | HbDecodeFailed hb_bytes

fun heartbeats_for ::
  "'w monitor_cfg \<Rightarrow> string list \<Rightarrow> heartbeats \<Rightarrow> (string \<Rightarrow> hb_failure option) \<Rightarrow> 'w \<Rightarrow>
     (heartbeats \<times> (string \<Rightarrow> hb_failure option) \<times> bool) \<times> 'w" where
  "heartbeats_for m [] out fails w = ((out, fails, False), w)"
| "heartbeats_for m (workerID # ids) out fails w =
     (case op_Err m w of
        (True, w) \<Rightarrow> ((out, fails, True), w)
      | (False, w) \<Rightarrow>
          (case kv_Get (hb_kv m) (hbPrefix m @ ''.'' @ workerID) w of
             (Inl gerr, w) \<Rightarrow> heartbeats_for m ids out (fails(workerID \<mapsto> HbGetFailed gerr)) w
           | (Inr entry, w) \<Rightarrow>
               (case DecodeHeartbeat (ent_Value entry) of
                  None \<Rightarrow> heartbeats_for m ids out (fails(workerID \<mapsto> HbDecodeFailed (ent_Value entry))) w
                | Some hb \<Rightarrow> heartbeats_for m ids (AList.update workerID hb out) fails w)))"

text \<open>The third result says whether the pass was aborted by its deadline.\<close>

definition GetHeartbeatsFor ::
  "'w monitor_cfg \<Rightarrow> string list \<Rightarrow> 'w \<Rightarrow> (heartbeats \<times> (string \<Rightarrow> hb_failure option) \<times> bool) \<times> 'w" where
  "GetHeartbeatsFor m workerIDs w = heartbeats_for m workerIDs [] (\<lambda>_. None) w"

text \<open>One worker of the targeted fetch: its heartbeat is collected or the failure recorded.\<close>

lemma heartbeats_for_step:
  assumes "heartbeats_for m (i # ids) out fails w = ((out', fails', False), w')"
  shows "\<exists>out1 fails1 w1. heartbeats_for m ids out1 fails1 w1 = ((out', fails', False), w') \<and>
     ((\<exists>hb. out1 = AList.update i hb out \<and> fails1 = fails) \<or> (\<exists>f. out1 = out \<and> fails1 = fails(i \<mapsto> f)))"
  using assms by (auto split: prod.splits sum.splits option.splits bool.splits)

declare heartbeats_for.simps(2) [simp del]

lemma heartbeats_for_mono:
  "heartbeats_for m ids out fails w = ((out', fails', False), w') \<Longrightarrow>
     (map_of out i \<noteq> None \<longrightarrow> map_of out' i \<noteq> None) \<and> (fails i \<noteq> None \<longrightarrow> fails' i \<noteq> None)"
proof (induction ids arbitrary: out fails w)
  case (Cons j ids)
  from heartbeats_for_step[OF Cons.prems] show ?case
    by (elim exE conjE disjE) (drule Cons.IH; auto simp: map_simps split: if_splits)+
qed auto

lemma heartbeats_for_dom:
  "heartbeats_for m ids out fails w = ((out', fails', False), w') \<Longrightarrow> i \<in> set ids \<Longrightarrow>
     map_of out' i \<noteq> None \<or> fails' i \<noteq> None"
proof (induction ids arbitrary: out fails w)
  case (Cons j ids)
  from heartbeats_for_step[OF Cons.prems(1)] obtain out1 fails1 w1 where
    1: "heartbeats_for m ids out1 fails1 w1 = ((out', fails', False), w')"
    and "(\<exists>hb. out1 = AList.update j hb out \<and> fails1 = fails) \<or> (\<exists>f. out1 = out \<and> fails1 = fails(j \<mapsto> f))"
    by blast
  then have "map_of out1 j \<noteq> None \<or> fails1 j \<noteq> None" by (auto simp: map_simps)
  then show ?case using Cons.IH[OF 1] heartbeats_for_mono[OF 1, of j] Cons.prems(2) by auto
qed auto

lemma heartbeats_for_wf:
  "heartbeats_for m ids out fails w = ((out', fails', False), w') \<Longrightarrow> gomap_wf out \<Longrightarrow>
     gomap_wf out' \<and> (\<forall>i. map_of out' i \<noteq> None \<longrightarrow> map_of out i \<noteq> None \<or> i \<in> set ids)"
proof (induction ids arbitrary: out fails w)
  case (Cons j ids)
  from heartbeats_for_step[OF Cons.prems(1)] show ?case
    by (elim exE conjE disjE) (drule Cons.IH; use Cons.prems(2) in \<open>auto simp: map_simps split: if_splits\<close>)+
qed auto

section \<open>A session of the watcher\<close>

text \<open>The fingerprint of a label set.\<close>

definition labelFingerprint :: "xxh3 \<Rightarrow> string list \<Rightarrow> u64" where
  "labelFingerprint X labels =
     (if labels = [] then 0
      else let fp = HasherSum64 X (digest_writes 0 labels) in if fp = 0 then 1 else fp)"

text \<open>What a session keeps, and the fingerprints, which outlive it.\<close>

record watch_session =
  ws_lastSeen :: "(string, time) gomap"
  ws_unsuppressedUntil :: time
  ws_suppressedCount :: nat
  ws_pendingCheck :: bool
  labelFP :: "string \<Rightarrow> u64 option"

definition new_session :: "(string \<Rightarrow> u64 option) \<Rightarrow> watch_session" where
  "new_session fps = \<lparr>ws_lastSeen = [], ws_unsuppressedUntil = 0, ws_suppressedCount = 0,
     ws_pendingCheck = False, labelFP = fps\<rparr>"

definition classifyPutSuppressed ::
  "'w monitor_cfg \<Rightarrow> string \<Rightarrow> time \<Rightarrow> watch_session \<Rightarrow> bool \<times> watch_session" where
  "classifyPutSuppressed m key t s =
     (let prev = map_of (ws_lastSeen s) key;
          s = s\<lparr>ws_lastSeen := AList.update key t (ws_lastSeen s)\<rparr>
      in case prev of
           Some p \<Rightarrow>
             if time_sub t p < hbTTL m \<and> t > ws_unsuppressedUntil s
             then (True, s\<lparr>ws_suppressedCount := ws_suppressedCount s + 1\<rparr>)
             else (False, s)
         | None \<Rightarrow> (False, s))"

definition checkLabelChange :: "xxh3 \<Rightarrow> string \<Rightarrow> hb_bytes \<Rightarrow> watch_session \<Rightarrow> bool \<times> watch_session" where
  "checkLabelChange X key value s =
     (case DecodeHeartbeat value of
        None \<Rightarrow> (False, s)
      | Some hb \<Rightarrow>
          let fp = labelFingerprint X (hb_Labels hb);
              prevFP = labelFP s key
          in (prevFP \<noteq> None \<and> prevFP \<noteq> Some fp, s\<lparr>labelFP := (labelFP s)(key \<mapsto> fp)\<rparr>))"

definition dropLabelFingerprint :: "string \<Rightarrow> watch_session \<Rightarrow> watch_session" where
  "dropLabelFingerprint key s = s\<lparr>labelFP := (labelFP s)(key := None)\<rparr>"

definition sweepExpired :: "'w monitor_cfg \<Rightarrow> time \<Rightarrow> watch_session \<Rightarrow> bool \<times> watch_session" where
  "sweepExpired m t s =
     (if hbTTL m = 0 then (False, s)
      else
        let holidayUntil = t + wrap64 (suppressionHolidayFactor * hbTTL m);
            expired = (\<lambda>(k, seen). time_sub t seen \<ge> hbTTL m);
            flagged = list_ex expired (ws_lastSeen s);
            s = s\<lparr>ws_lastSeen := filter (\<lambda>e. \<not> expired e) (ws_lastSeen s)\<rparr>
        in (flagged, if flagged then s\<lparr>ws_unsuppressedUntil := holidayUntil\<rparr> else s))"

text \<open>An entry that the watcher delivers, with the time of its receipt.\<close>

record hb_update =
  hu_Key :: string
  hu_Operation :: kv_operation
  hu_Value :: hb_bytes
  hu_time :: time

text \<open>The entry branch of the session: whether the entry triggers a check, and whether the callback for a
  label change is called; then the sweep, and the debounce timer.\<close>

definition watch_classify :: "'w monitor_cfg \<Rightarrow> xxh3 \<Rightarrow> hb_update \<Rightarrow> watch_session \<Rightarrow> bool \<times> bool \<times> watch_session" where
  "watch_classify m X u s =
     (case hu_Operation u of
        KeyValuePut \<Rightarrow>
          (case classifyPutSuppressed m (hu_Key u) (hu_time u) s of
             (suppressed, s) \<Rightarrow>
               (case checkLabelChange X (hu_Key u) (hu_Value u) s of
                  (changed, s) \<Rightarrow> (\<not> suppressed \<or> changed, changed, s)))
      | _ \<Rightarrow>
          (True, False,
           dropLabelFingerprint (hu_Key u) (s\<lparr>ws_lastSeen := AList.delete (hu_Key u) (ws_lastSeen s)\<rparr>)))"

definition watch_entry :: "'w monitor_cfg \<Rightarrow> xxh3 \<Rightarrow> hb_update \<Rightarrow> watch_session \<Rightarrow> bool \<times> bool \<times> watch_session" where
  "watch_entry m X u s =
     (case watch_classify m X u s of
        (trigger, relabelled, s) \<Rightarrow>
          (case sweepExpired m (hu_time u) s of
             (flagged, s) \<Rightarrow>
               let trigger = (trigger \<or> flagged)
               in (trigger, relabelled, if trigger \<and> \<not> ws_pendingCheck s then s\<lparr>ws_pendingCheck := True\<rparr> else s)))"

text \<open>The debounce timer: a pending check is run.\<close>

definition watch_debounce :: "watch_session \<Rightarrow> bool \<times> watch_session" where
  "watch_debounce s = (ws_pendingCheck s, s\<lparr>ws_pendingCheck := False\<rparr>)"

text \<open>A session: entries (\<open>None\<close> marks the end of the initial replay) and firings of the timer. The
  results are those of the entries: time, trigger.\<close>

datatype watch_event = Entry "hb_update option" | Debounced

fun processWatcherEvents ::
  "'w monitor_cfg \<Rightarrow> xxh3 \<Rightarrow> watch_event list \<Rightarrow> watch_session \<Rightarrow> (hb_update \<times> bool) list \<times> watch_session" where
  "processWatcherEvents m X [] s = ([], s)"
| "processWatcherEvents m X (Entry None # es) s = processWatcherEvents m X es s"
| "processWatcherEvents m X (Entry (Some u) # es) s =
     (case watch_entry m X u s of
        (trigger, _, s) \<Rightarrow>
          (case processWatcherEvents m X es s of (out, s) \<Rightarrow> ((u, trigger) # out, s)))"
| "processWatcherEvents m X (Debounced # es) s = processWatcherEvents m X es (snd (watch_debounce s))"

section \<open>Suppression is sound\<close>

text \<open>The runs of a session, with the entries received so far and whether each triggered a check.\<close>

inductive watch_run :: "'w monitor_cfg \<Rightarrow> xxh3 \<Rightarrow> (string \<Rightarrow> u64 option) \<Rightarrow> (hb_update \<times> bool) list \<Rightarrow> watch_session \<Rightarrow> bool"
  for m X fps where
  run_start: "watch_run m X fps [] (new_session fps)"
| run_entry: "watch_run m X fps out s \<Longrightarrow> watch_entry m X u s = (trigger, relabelled, s') \<Longrightarrow>
    watch_run m X fps (out @ [(u, trigger)]) s'"
| run_debounce: "watch_run m X fps out s \<Longrightarrow> watch_run m X fps out (snd (watch_debounce s))"

lemma watch_run_events:
  "watch_run m X fps out s \<Longrightarrow> processWatcherEvents m X es s = (out', s') \<Longrightarrow> watch_run m X fps (out @ out') s'"
proof (induction es arbitrary: out s out')
  case (Cons e es)
  show ?case
  proof (cases e)
    case (Entry eu)
    then show ?thesis
    proof (cases eu)
      case (Some u)
      obtain tr rl s1 where 1: "watch_entry m X u s = (tr, rl, s1)" by (metis prod_cases3)
      obtain out1 where 2: "processWatcherEvents m X es s1 = (out1, s')" "out' = (u, tr) # out1"
        using Cons.prems(2) by (auto simp: Entry Some 1 split: prod.splits)
      show ?thesis using Cons.IH[OF run_entry[OF Cons.prems(1) 1] 2(1)] 2(2) by simp
    qed (use Cons in auto)
  next
    case Debounced
    then show ?thesis using Cons.IH[OF run_debounce[OF Cons.prems(1)]] Cons.prems(2) by simp
  qed
qed simp

text \<open>The last entry of a key is a write.\<close>

definition last_put :: "(hb_update \<times> bool) list \<Rightarrow> string \<Rightarrow> hb_update \<Rightarrow> bool" where
  "last_put out k u \<longleftrightarrow> (\<exists>out1 tr out2. out = out1 @ (u, tr) # out2 \<and> hu_Key u = k \<and> hu_Operation u = KeyValuePut \<and>
     (\<forall>(u', _) \<in> set out2. hu_Key u' \<noteq> k))"

lemma last_put_snoc:
  "last_put (out @ [(u, tr)]) k u' \<longleftrightarrow>
     (if hu_Key u = k then u' = u \<and> hu_Operation u = KeyValuePut else last_put out k u')"
proof -
  have "last_put (out @ [(u, tr)]) k u' \<longleftrightarrow> last_put out k u'" if "hu_Key u \<noteq> k"
  proof
    assume "last_put (out @ [(u, tr)]) k u'"
    then obtain o1 t o2 where "out @ [(u, tr)] = o1 @ (u', t) # o2" "hu_Key u' = k" "hu_Operation u' = KeyValuePut"
        "\<forall>(u', _) \<in> set o2. hu_Key u' \<noteq> k" by (auto simp: last_put_def)
    moreover from this that obtain o3 where "o2 = o3 @ [(u, tr)]"
      by (cases o2 rule: rev_cases) auto
    ultimately show "last_put out k u'" by (auto simp: last_put_def)
  next
    assume "last_put out k u'"
    then obtain o1 t o2 where "out = o1 @ (u', t) # o2" "hu_Key u' = k" "hu_Operation u' = KeyValuePut"
        "\<forall>(u', _) \<in> set o2. hu_Key u' \<noteq> k" by (auto simp: last_put_def)
    then show "last_put (out @ [(u, tr)]) k u'" using that
      unfolding last_put_def by (intro exI[of _ o1] exI[of _ t] exI[of _ "o2 @ [(u, tr)]"]) auto
  qed
  moreover have "last_put (out @ [(u, tr)]) k u' \<longleftrightarrow> u' = u \<and> hu_Operation u = KeyValuePut" if k: "hu_Key u = k"
  proof
    assume "last_put (out @ [(u, tr)]) k u'"
    then obtain o1 t o2 where "out @ [(u, tr)] = o1 @ (u', t) # o2" "hu_Operation u' = KeyValuePut"
        "\<forall>(u', _) \<in> set o2. hu_Key u' \<noteq> k" by (auto simp: last_put_def)
    then show "u' = u \<and> hu_Operation u = KeyValuePut" using k by (cases o2 rule: rev_cases) auto
  next
    assume "u' = u \<and> hu_Operation u = KeyValuePut"
    then show "last_put (out @ [(u, tr)]) k u'"
      unfolding last_put_def using k by (intro exI[of _ out] exI[of _ tr] exI[of _ "[]"]) auto
  qed
  ultimately show ?thesis by auto
qed

text \<open>What the tracked times are: a tracked key was written last at that time, and a key that was written
  last but is not tracked any more has been reported as expired, by an entry that opened a holiday.\<close>

definition ts_ok :: "'w monitor_cfg \<Rightarrow> bool" where
  "ts_ok m \<longleftrightarrow> 0 < hbTTL m \<and> 3 * hbTTL m < 2 ^ 63"

definition session_inv :: "'w monitor_cfg \<Rightarrow> xxh3 \<Rightarrow> (hb_update \<times> bool) list \<Rightarrow> watch_session \<Rightarrow> bool" where
  "session_inv m X out s \<longleftrightarrow>
     (\<forall>k t. map_of (ws_lastSeen s) k = Some t \<longrightarrow> (\<exists>u. last_put out k u \<and> hu_time u = t)) \<and>
     (\<forall>k u. last_put out k u \<longrightarrow> map_of (ws_lastSeen s) k = None \<longrightarrow>
        (\<exists>u'. (u', True) \<in> set out \<and> hu_time u + hbTTL m \<le> hu_time u' \<and>
           hu_time u' + 3 * hbTTL m \<le> ws_unsuppressedUntil s)) \<and>
     (\<forall>k u hb. last_put out k u \<longrightarrow> DecodeHeartbeat (hu_Value u) = Some hb \<longrightarrow>
        labelFP s k = Some (labelFingerprint X (hb_Labels hb))) \<and>
     gomap_wf (ws_lastSeen s)"

lemma ttl_le: "ts_ok m \<Longrightarrow> time_sub t t0 \<ge> hbTTL m \<longleftrightarrow> t0 + hbTTL m \<le> t"
  by (auto simp: ts_ok_def time_sub_def)

lemma filter_lookup:
  "gomap_wf m \<Longrightarrow> map_of (filter P m) k = (case map_of m k of None \<Rightarrow> None | Some v \<Rightarrow> if P (k, v) then Some v else None)"
  by (induction m) (auto simp: gomap_wf_def map_of_eq_None_iff split: option.splits)

text \<open>The two parts of an entry: what it says of its key, and the sweep.\<close>

lemma classify_put:
  assumes "hu_Operation u = KeyValuePut" "watch_classify m X u s = (tr, rl, s1)" "ts_ok m"
  shows "ws_lastSeen s1 = AList.update (hu_Key u) (hu_time u) (ws_lastSeen s)"
    "ws_unsuppressedUntil s1 = ws_unsuppressedUntil s"
    "labelFP s1 = (case DecodeHeartbeat (hu_Value u) of None \<Rightarrow> labelFP s
       | Some hb \<Rightarrow> (labelFP s)(hu_Key u \<mapsto> labelFingerprint X (hb_Labels hb)))"
    "\<not> tr \<Longrightarrow> (\<exists>p. map_of (ws_lastSeen s) (hu_Key u) = Some p \<and> hu_time u < p + hbTTL m) \<and> hu_time u > ws_unsuppressedUntil s"
    "\<not> tr \<Longrightarrow> DecodeHeartbeat (hu_Value u) = Some hb \<Longrightarrow> labelFP s (hu_Key u) \<in> {None, Some (labelFingerprint X (hb_Labels hb))}"
proof -
  have "time_sub t t0 < hbTTL m \<longleftrightarrow> t < t0 + hbTTL m" for t t0
    using ttl_le[OF assms(3), of t t0] by linarith
  then show "ws_lastSeen s1 = AList.update (hu_Key u) (hu_time u) (ws_lastSeen s)"
    "ws_unsuppressedUntil s1 = ws_unsuppressedUntil s"
    "labelFP s1 = (case DecodeHeartbeat (hu_Value u) of None \<Rightarrow> labelFP s
       | Some hb \<Rightarrow> (labelFP s)(hu_Key u \<mapsto> labelFingerprint X (hb_Labels hb)))"
    "\<not> tr \<Longrightarrow> (\<exists>p. map_of (ws_lastSeen s) (hu_Key u) = Some p \<and> hu_time u < p + hbTTL m) \<and> hu_time u > ws_unsuppressedUntil s"
    "\<not> tr \<Longrightarrow> DecodeHeartbeat (hu_Value u) = Some hb \<Longrightarrow> labelFP s (hu_Key u) \<in> {None, Some (labelFingerprint X (hb_Labels hb))}"
    using assms(1,2)
    by (auto simp: watch_classify_def classifyPutSuppressed_def checkLabelChange_def Let_def
        split: option.splits if_splits)
qed

lemma classify_del:
  assumes "hu_Operation u \<noteq> KeyValuePut" "watch_classify m X u s = (tr, rl, s1)"
  shows "tr \<and> ws_lastSeen s1 = AList.delete (hu_Key u) (ws_lastSeen s) \<and>
    ws_unsuppressedUntil s1 = ws_unsuppressedUntil s \<and> labelFP s1 = (labelFP s)(hu_Key u := None)"
  using assms by (cases "hu_Operation u") (auto simp: watch_classify_def dropLabelFingerprint_def)

lemma entry_sweep:
  assumes "watch_entry m X u s = (tr, rl, s')" "watch_classify m X u s = (tr1, rl1, s1)" "ts_ok m"
  defines "flagged \<equiv> list_ex (\<lambda>(k, t). t + hbTTL m \<le> hu_time u) (ws_lastSeen s1)"
  shows "ws_lastSeen s' = filter (\<lambda>(k, t). hu_time u < t + hbTTL m) (ws_lastSeen s1) \<and>
     ws_unsuppressedUntil s' = (if flagged then hu_time u + 3 * hbTTL m else ws_unsuppressedUntil s1) \<and>
     labelFP s' = labelFP s1 \<and> (tr \<longleftrightarrow> tr1 \<or> flagged)"
proof -
  have e: "(\<lambda>(k, seen). hbTTL m \<le> time_sub (hu_time u) seen) = (\<lambda>(k :: string, t). t + hbTTL m \<le> hu_time u)"
    using ttl_le[OF assms(3)] by auto
  have n: "(\<lambda>e. \<not> (case e of (k, t) \<Rightarrow> t + hbTTL m \<le> hu_time u)) = (\<lambda>(k :: string, t). hu_time u < t + hbTTL m)"
    by (auto simp: not_le)
  have h: "wrap64 (3 * hbTTL m) = 3 * hbTTL m" "hbTTL m \<noteq> 0"
    using assms(3) by (auto simp: ts_ok_def in_i64_def)
  show ?thesis using assms(1,2)
    by (auto simp: watch_entry_def sweepExpired_def suppressionHolidayFactor_def h e n flagged_def Let_def split: if_splits)
qed

lemma last_put_unique: "last_put out k u \<Longrightarrow> last_put out k v \<Longrightarrow> u = v"
proof (induction out rule: rev_induct)
  case (snoc x xs)
  then show ?case by (cases x) (auto simp: last_put_snoc split: if_splits)
qed (simp add: last_put_def)

lemma last_put_mem: "last_put out k u \<Longrightarrow> \<exists>tr. (u, tr) \<in> set out"
  by (auto simp: last_put_def)

lemma entry_lookup:
  assumes "watch_entry m X u s = (tr, rl, s')" "ts_ok m" "gomap_wf (ws_lastSeen s)"
  shows "map_of (ws_lastSeen s') k =
      (if k = hu_Key u then (if hu_Operation u = KeyValuePut then Some (hu_time u) else None)
       else case map_of (ws_lastSeen s) k of None \<Rightarrow> None | Some t \<Rightarrow> if hu_time u < t + hbTTL m then Some t else None)"
    and "gomap_wf (ws_lastSeen s')"
    and "map_of (ws_lastSeen s) k = Some t \<Longrightarrow> k \<noteq> hu_Key u \<Longrightarrow> t + hbTTL m \<le> hu_time u \<Longrightarrow>
      tr \<and> ws_unsuppressedUntil s' = hu_time u + 3 * hbTTL m"
    and "ws_unsuppressedUntil s' \<in> {ws_unsuppressedUntil s, hu_time u + 3 * hbTTL m}"
proof -
  obtain tr1 rl1 s1 where 1: "watch_classify m X u s = (tr1, rl1, s1)" by (metis prod_cases3)
  note sw = entry_sweep[OF assms(1) 1 assms(2)]
  have ls: "ws_lastSeen s1 = (if hu_Operation u = KeyValuePut then AList.update (hu_Key u) (hu_time u) (ws_lastSeen s)
       else AList.delete (hu_Key u) (ws_lastSeen s))" and un: "ws_unsuppressedUntil s1 = ws_unsuppressedUntil s"
    using classify_put[OF _ 1 assms(2)] classify_del[OF _ 1] by auto
  have wf: "gomap_wf (ws_lastSeen s1)" using assms(3) by (simp add: ls map_simps)
  have pos: "0 < hbTTL m" using assms(2) by (simp add: ts_ok_def)
  have look: "map_of (ws_lastSeen s') k =
      (case map_of (ws_lastSeen s1) k of None \<Rightarrow> None | Some t \<Rightarrow> if hu_time u < t + hbTTL m then Some t else None)"
    unfolding conjunct1[OF sw] by (simp add: filter_lookup[OF wf] split: option.splits)
  show "map_of (ws_lastSeen s') k =
      (if k = hu_Key u then (if hu_Operation u = KeyValuePut then Some (hu_time u) else None)
       else case map_of (ws_lastSeen s) k of None \<Rightarrow> None | Some t \<Rightarrow> if hu_time u < t + hbTTL m then Some t else None)"
    using pos by (auto simp: look ls map_simps split: option.splits)
  show "gomap_wf (ws_lastSeen s')" using sw filter_wf[OF wf] by simp
  show "map_of (ws_lastSeen s) k = Some t \<Longrightarrow> k \<noteq> hu_Key u \<Longrightarrow> t + hbTTL m \<le> hu_time u \<Longrightarrow>
      tr \<and> ws_unsuppressedUntil s' = hu_time u + 3 * hbTTL m"
  proof -
    assume k: "map_of (ws_lastSeen s) k = Some t" "k \<noteq> hu_Key u" "t + hbTTL m \<le> hu_time u"
    then have "map_of (ws_lastSeen s1) k = Some t" by (simp add: ls map_simps)
    then have "list_ex (\<lambda>(k, t). t + hbTTL m \<le> hu_time u) (ws_lastSeen s1)"
      using k(3) by (auto simp: list_ex_iff dest!: map_of_SomeD)
    then show ?thesis using sw by simp
  qed
  show "ws_unsuppressedUntil s' \<in> {ws_unsuppressedUntil s, hu_time u + 3 * hbTTL m}" using sw un by simp
qed

lemma entry_labels:
  assumes "watch_entry m X u s = (tr, rl, s')" "ts_ok m"
  shows "labelFP s' k = (if k \<noteq> hu_Key u then labelFP s k
     else if hu_Operation u \<noteq> KeyValuePut then None
     else case DecodeHeartbeat (hu_Value u) of None \<Rightarrow> labelFP s k | Some hb \<Rightarrow> Some (labelFingerprint X (hb_Labels hb)))"
proof -
  obtain tr1 rl1 s1 where 1: "watch_classify m X u s = (tr1, rl1, s1)" by (metis prod_cases3)
  show ?thesis using entry_sweep[OF assms(1) 1 assms(2)] classify_put(3)[OF _ 1 assms(2)] classify_del[OF _ 1]
    by (auto split: option.splits)
qed

lemma session_inv_entry:
  assumes I: "session_inv m X out s" and e: "watch_entry m X u s = (tr, rl, s')" and ok: "ts_ok m"
    and mono: "\<forall>(v, _) \<in> set out. hu_time v \<le> hu_time u"
  shows "session_inv m X (out @ [(u, tr)]) s'"
proof -
  have wf: "gomap_wf (ws_lastSeen s)" using I by (simp add: session_inv_def)
  note L = entry_lookup[OF e ok wf]
  have seen: "\<exists>v. last_put out k v \<and> hu_time v = t" if "map_of (ws_lastSeen s) k = Some t" for k t
    using I that by (simp add: session_inv_def)
  have gone: "\<exists>v'. (v', True) \<in> set out \<and> hu_time v + hbTTL m \<le> hu_time v' \<and> hu_time v' + 3 * hbTTL m \<le> ws_unsuppressedUntil s"
    if "last_put out k v" "map_of (ws_lastSeen s) k = None" for k v
    using I that by (simp add: session_inv_def)
  have "\<exists>v'. (v', True) \<in> set (out @ [(u, tr)]) \<and> hu_time v + hbTTL m \<le> hu_time v' \<and> hu_time v' + 3 * hbTTL m \<le> ws_unsuppressedUntil s'"
    if v: "last_put (out @ [(u, tr)]) k v" "map_of (ws_lastSeen s') k = None" for k v
  proof -
    have k: "k \<noteq> hu_Key u" "last_put out k v" using v by (auto simp: last_put_snoc L(1) split: if_splits)
    show ?thesis
    proof (cases "map_of (ws_lastSeen s) k")
      case None
      from gone[OF k(2) None] obtain v' where v': "(v', True) \<in> set out" "hu_time v + hbTTL m \<le> hu_time v'"
        "hu_time v' + 3 * hbTTL m \<le> ws_unsuppressedUntil s" by blast
      then have "hu_time v' + 3 * hbTTL m \<le> ws_unsuppressedUntil s'" using L(4) mono by auto
      then show ?thesis using v' by auto
    next
      case (Some t)
      then have "t = hu_time v" using seen[OF Some] last_put_unique[OF k(2)] by auto
      moreover have "t + hbTTL m \<le> hu_time u" using v(2) k(1) by (simp add: L(1) Some split: if_splits)
      ultimately show ?thesis using L(3)[OF Some k(1)] by auto
    qed
  qed
  moreover have "\<exists>v. last_put (out @ [(u, tr)]) k v \<and> hu_time v = t" if "map_of (ws_lastSeen s') k = Some t" for k t
    using that seen[of k t] by (auto simp: L(1) last_put_snoc split: if_splits option.splits)
  moreover have "labelFP s' k = Some (labelFingerprint X (hb_Labels hb))"
    if "last_put (out @ [(u, tr)]) k v" "DecodeHeartbeat (hu_Value v) = Some hb" for k v hb
    using that I by (auto simp: entry_labels[OF e ok] last_put_snoc session_inv_def split: if_splits)
  ultimately show ?thesis using L(2) unfolding session_inv_def by blast
qed

lemma watch_run_inv:
  assumes "watch_run m X fps out s" "ts_ok m" "sorted (map (\<lambda>(u, _). hu_time u) out)"
  shows "session_inv m X out s"
  using assms(1,3)
proof (induction rule: watch_run.induct)
  case run_start
  then show ?case by (simp add: session_inv_def new_session_def last_put_def gomap_wf_def)
next
  case (run_entry out s u trigger relabelled s')
  then show ?case by (intro session_inv_entry[OF _ _ assms(2)]) (auto simp: sorted_append)
next
  case (run_debounce out s)
  then show ?case by (simp add: session_inv_def watch_debounce_def)
qed

text \<open>C14: The suppression of heartbeat refreshes hides nothing. In a session of the watcher, with the receive times
  in order, an entry that triggers no check is a write of a key whose last entry before was a write less than the
  TTL ago, with the same label fingerprint where both values decode; and of every worker that has been silent
  for the TTL by then a check was already triggered, after its TTL and more than three TTLs ago.\<close>

theorem refresh_suppression_sound:
  assumes "processWatcherEvents m X es (new_session fps) = (out, s)" "0 < hbTTL m" "3 * hbTTL m < 2 ^ 63"
    and "sorted (map (\<lambda>(u, _). hu_time u) out)" "\<forall>(v, _) \<in> set out. hu_time v \<le> hu_time u"
    and "watch_entry m X u s = (False, relabelled, s')"
  shows "hu_Operation u = KeyValuePut \<and>
    (\<exists>v. last_put out (hu_Key u) v \<and> hu_time u < hu_time v + hbTTL m \<and>
       (\<forall>hb hb'. DecodeHeartbeat (hu_Value v) = Some hb \<longrightarrow> DecodeHeartbeat (hu_Value u) = Some hb' \<longrightarrow>
          labelFingerprint X (hb_Labels hb) = labelFingerprint X (hb_Labels hb'))) \<and>
    (\<forall>k v. last_put out k v \<and> hu_time v + hbTTL m \<le> hu_time u \<longrightarrow>
       (\<exists>v'. (v', True) \<in> set out \<and> hu_time v + hbTTL m \<le> hu_time v' \<and> hu_time v' + 3 * hbTTL m < hu_time u))"
proof -
  have ok: "ts_ok m" using assms(2,3) by (simp add: ts_ok_def)
  have I: "session_inv m X out s"
    using watch_run_inv[OF watch_run_events[OF run_start assms(1)] ok] assms(4) by simp
  have wf: "gomap_wf (ws_lastSeen s)" using I by (simp add: session_inv_def)
  obtain tr1 rl1 s1 where 1: "watch_classify m X u s = (tr1, rl1, s1)" by (metis prod_cases3)
  have tr1: "\<not> tr1" using entry_sweep[OF assms(6) 1 ok] by simp
  then have put: "hu_Operation u = KeyValuePut" using classify_del[OF _ 1] by blast
  obtain p where p: "map_of (ws_lastSeen s) (hu_Key u) = Some p" "hu_time u < p + hbTTL m" "hu_time u > ws_unsuppressedUntil s"
    using classify_put(4)[OF put 1 ok tr1] by blast
  obtain v where v: "last_put out (hu_Key u) v" "hu_time v = p" using I p(1) by (auto simp: session_inv_def)
  have "labelFingerprint X (hb_Labels hb) = labelFingerprint X (hb_Labels hb')"
    if "DecodeHeartbeat (hu_Value v) = Some hb" "DecodeHeartbeat (hu_Value u) = Some hb'" for hb hb'
    using I v(1) that classify_put(5)[OF put 1 ok tr1 that(2)] by (auto simp: session_inv_def)
  moreover have "\<exists>v'. (v', True) \<in> set out \<and> hu_time x + hbTTL m \<le> hu_time v' \<and> hu_time v' + 3 * hbTTL m < hu_time u"
    if x: "last_put out k x" "hu_time x + hbTTL m \<le> hu_time u" for k x
  proof -
    have "map_of (ws_lastSeen s) k = None"
    proof (rule ccontr)
      assume "map_of (ws_lastSeen s) k \<noteq> None"
      then obtain t where t: "map_of (ws_lastSeen s) k = Some t" by blast
      then obtain y where "last_put out k y" "hu_time y = t" using I unfolding session_inv_def by blast
      then have "t = hu_time x" using last_put_unique[OF x(1)] by blast
      then show False using entry_lookup(3)[OF assms(6) ok wf t] x p t by (cases "k = hu_Key u") auto
    qed
    then show ?thesis using I x(1) p(3) unfolding session_inv_def by fastforce
  qed
  ultimately show ?thesis using put v p(2) by blast
qed

definition ex_mon :: "hb_bytes mem_world monitor_cfg" where
  "ex_mon = \<lparr>hb_kv = mem_kv [], hbPrefix = ''hb'', hbTTL = 10, op_Err = (\<lambda>w. (False, w))\<rparr>"

definition ex_put :: "string \<Rightarrow> time \<Rightarrow> hb_update" where
  "ex_put k t = \<lparr>hu_Key = k, hu_Operation = KeyValuePut, hu_Value = HbText (Some t), hu_time = t\<rparr>"

text \<open>Two workers join and one falls silent, which is reported at time 13; the refresh of the other at time 44
  triggers no check.\<close>

definition ex_events :: "watch_event list" where
  "ex_events = map (Entry \<circ> Some) [ex_put ''hb.a'' 1, ex_put ''hb.b'' 2, ex_put ''hb.a'' 8, ex_put ''hb.a'' 13,
     ex_put ''hb.a'' 20, ex_put ''hb.a'' 28, ex_put ''hb.a'' 36]"

definition ex_out :: "(hb_update \<times> bool) list \<times> watch_session" where
  "ex_out = processWatcherEvents ex_mon poly_xxh3 ex_events (new_session (\<lambda>_. None))"

lemma ex_out_triggers: "fst ex_out = zip (map (\<lambda>e. case e of Entry (Some u) \<Rightarrow> u) ex_events) [True, True, False, True, True, True, True]"
  by code_simp

theorem refresh_suppression_sound_witness:
  "fst (watch_entry ex_mon poly_xxh3 (ex_put ''hb.a'' 44) (snd ex_out)) = False \<and>
   (\<exists>v'. (v', True) \<in> set (fst ex_out) \<and> 12 \<le> hu_time v' \<and> hu_time v' + 30 < 44)"
proof
  show f: "fst (watch_entry ex_mon poly_xxh3 (ex_put ''hb.a'' 44) (snd ex_out)) = False" by code_simp
  then obtain rl s' where e: "watch_entry ex_mon poly_xxh3 (ex_put ''hb.a'' 44) (snd ex_out) = (False, rl, s')"
    by (metis fst_conv prod_cases3)
  have b: "last_put (fst ex_out) ''hb.b'' (ex_put ''hb.b'' 2)"
    unfolding last_put_def ex_out_triggers
    by (intro exI[of _ "[(ex_put ''hb.a'' 1, True)]"] exI[of _ True]
        exI[of _ "zip [ex_put ''hb.a'' 8, ex_put ''hb.a'' 13, ex_put ''hb.a'' 20, ex_put ''hb.a'' 28, ex_put ''hb.a'' 36]
          [False, True, True, True, True]"]) (simp add: ex_events_def ex_put_def)
  have p: "processWatcherEvents ex_mon poly_xxh3 ex_events (new_session (\<lambda>_. None)) = (fst ex_out, snd ex_out)"
    by (simp add: ex_out_def)
  have s: "sorted (map (\<lambda>(u, _). hu_time u) (fst ex_out))" "\<forall>(v, _) \<in> set (fst ex_out). hu_time v \<le> hu_time (ex_put ''hb.a'' 44)"
    by code_simp+
  show "\<exists>v'. (v', True) \<in> set (fst ex_out) \<and> 12 \<le> hu_time v' \<and> hu_time v' + 30 < 44"
    using refresh_suppression_sound[OF p _ _ s e] b by (fastforce simp: ex_mon_def ex_put_def)
qed

end
