(* ===== verification/Calculator.thy ===== *)
theory Calculator
  imports Labels Emergency State_Machine Publisher Worker_Monitor
begin

text \<open>
  The assignment calculator of the leader, \<^verbatim>\<open>internal/assignment/calculator.go\<close> with
  \<^verbatim>\<open>config.go\<close>, the re-check requests of \<^verbatim>\<open>labels_state.go\<close> and the audit of
  \<^verbatim>\<open>calculator_audit.go\<close>: the observation of the workers with its credibility guards, the
  decision to rebalance, the rebalance itself through the label pipeline and the publisher, and the loops that
  drive it. The state machine is kept beside the state of the calculator, which a rebalance does not touch. The
  stores, the partition source, the strategy, the manager behind the state provider and the callbacks are
  parameters; what they do to the world is not restricted. The stop channel and the contexts derived from it
  are read from the world, so that a stop may come between any two steps. Metrics and logging are left out.
\<close>

section \<open>Configuration\<close>

text \<open>A slice of partitions: \<open>None\<close> is the nil slice.\<close>

type_synonym partition_slice = "partition list option"

definition elems :: "partition_slice \<Rightarrow> partition list" where
  "elems s = (case s of None \<Rightarrow> [] | Some ps \<Rightarrow> ps)"

datatype 'w partition_source =
    PlainSource "'w \<Rightarrow> (string + partition_slice) \<times> 'w"
  | RevisionedSource "'w \<Rightarrow> (string + partition_slice \<times> nat \<times> bool) \<times> 'w"

definition snapshotSource :: "'w partition_source \<Rightarrow> 'w \<Rightarrow> (string + partition_slice \<times> nat \<times> bool) \<times> 'w" where
  "snapshotSource src w =
     (case src of
        RevisionedSource f \<Rightarrow> f w
      | PlainSource f \<Rightarrow> (case f w of (Inl e, w) \<Rightarrow> (Inl e, w) | (Inr ps, w) \<Rightarrow> (Inr (ps, 0, False), w)))"

record 'w state_provider =
  sp_Shutdown :: "'w \<Rightarrow> bool \<times> 'w" \<comment> \<open>\<open>State() = StateShutdown\<close>\<close>
  sp_IsInRecoveryGrace :: "'w \<Rightarrow> bool \<times> 'w"

datatype label_read_failure = ReadAborted | WorkerUnreadable string hb_failure | TooManyUnreadable nat nat

text \<open>The configuration as it is given: a dependency that is not set is \<open>None\<close>.\<close>

record ('s, 'w) calc_config =
  AssignmentKV :: "(asg_value, 'w) kv option"
  HeartbeatKV :: "(hb_bytes, 'w) kv option"
  Source :: "'w partition_source option"
  Strategy :: "'s strategy_fn option"
  AssignmentPrefix :: string
  HeartbeatPrefix :: string
  HeartbeatTTL :: duration
  EmergencyGracePeriod :: duration
  Cooldown :: duration
  ColdStartWindow :: duration
  PlannedScaleWindow :: duration
  cfg_clock :: "('w \<Rightarrow> time \<times> 'w) option"
  PartitionShrinkConfirmationCount :: int
  PartitionShrinkConfirmationThresholdPct :: int
  WorkerShrinkConfirmationCount :: int
  WorkerShrinkConfirmationThresholdPct :: int
  RebalanceGraceDrainInterval :: duration
  ApplyGracePeriod :: duration
  ExtendedApplyGracePeriod :: duration
  AuditInterval :: duration
  EnableTwoPhaseHandoff :: bool
  StateProvider :: "'w state_provider option"
  cfg_LeaderRevision :: "('w \<Rightarrow> nat \<times> 'w) option"
  LeaderCheck :: "(nat \<Rightarrow> 'w \<Rightarrow> bool \<times> 'w) option"
  OnEnumerationError :: "(kv_error \<Rightarrow> 'w \<Rightarrow> 'w) option"
  OnEnumerationSuccess :: "('w \<Rightarrow> 'w) option"
  EnumerationFailureThreshold :: int
  UnlabeledPartitionPolicy :: string
  LabelSpillGrace :: duration
  OnLabelReadBroadFailure :: "(label_read_failure \<Rightarrow> 'w \<Rightarrow> 'w) option"

datatype config_error =
    AssignmentKV_required | HeartbeatKV_required | Source_required | Strategy_required
  | AssignmentPrefix_required | HeartbeatPrefix_required | HeartbeatTTL_required

definition calc_Validate :: "('s, 'w) calc_config \<Rightarrow> config_error option" where
  "calc_Validate c =
     (if AssignmentKV c = None then Some AssignmentKV_required
      else if HeartbeatKV c = None then Some HeartbeatKV_required
      else if Source c = None then Some Source_required
      else if Strategy c = None then Some Strategy_required
      else if AssignmentPrefix c = [] then Some AssignmentPrefix_required
      else if HeartbeatPrefix c = [] then Some HeartbeatPrefix_required
      else if HeartbeatTTL c = 0 then Some HeartbeatTTL_required
      else None)"

definition second :: duration where "second = 1000000000"

definition or_default :: "int \<Rightarrow> int \<Rightarrow> int" where
  "or_default d x = (if x = 0 then d else x)"

definition calc_SetDefaults :: "('w \<Rightarrow> time \<times> 'w) \<Rightarrow> ('s, 'w) calc_config \<Rightarrow> ('s, 'w) calc_config" where
  "calc_SetDefaults timeNow c =
     (let c = c\<lparr>cfg_clock := (case cfg_clock c of None \<Rightarrow> Some timeNow | Some f \<Rightarrow> Some f)\<rparr>;
          c = c\<lparr>EmergencyGracePeriod := or_default (5 * second) (EmergencyGracePeriod c)\<rparr>;
          c = c\<lparr>Cooldown := or_default (10 * second) (Cooldown c)\<rparr>;
          c = c\<lparr>ColdStartWindow := or_default (30 * second) (ColdStartWindow c)\<rparr>;
          c = c\<lparr>PlannedScaleWindow := or_default (10 * second) (PlannedScaleWindow c)\<rparr>;
          c = c\<lparr>RebalanceGraceDrainInterval :=
                 or_default (max (min (Cooldown c) (30 * second)) second) (RebalanceGraceDrainInterval c)\<rparr>;
          c = c\<lparr>ApplyGracePeriod := or_default (wrap64 (2 * HeartbeatTTL c)) (ApplyGracePeriod c)\<rparr>;
          c = c\<lparr>ExtendedApplyGracePeriod := or_default (wrap64 (5 * HeartbeatTTL c)) (ExtendedApplyGracePeriod c)\<rparr>;
          c = c\<lparr>AuditInterval := or_default (HeartbeatTTL c) (AuditInterval c)\<rparr>;
          c = c\<lparr>PartitionShrinkConfirmationCount := or_default 3 (PartitionShrinkConfirmationCount c)\<rparr>;
          c = c\<lparr>PartitionShrinkConfirmationThresholdPct := or_default 50 (PartitionShrinkConfirmationThresholdPct c)\<rparr>;
          c = c\<lparr>WorkerShrinkConfirmationCount := or_default 2 (WorkerShrinkConfirmationCount c)\<rparr>;
          c = c\<lparr>WorkerShrinkConfirmationThresholdPct := or_default 50 (WorkerShrinkConfirmationThresholdPct c)\<rparr>;
          c = c\<lparr>EnumerationFailureThreshold :=
                 (if EnumerationFailureThreshold c < 1 then 3 else EnumerationFailureThreshold c)\<rparr>
      in c\<lparr>UnlabeledPartitionPolicy :=
             (if UnlabeledPartitionPolicy c = [] then ''dedicated'' else UnlabeledPartitionPolicy c)\<rparr>)"

text \<open>What surrounds a calculator: the clocks, the stop channel, the deadlines of the contexts, the
  classification of errors by \<^verbatim>\<open>internal/natsutil\<close>, the hash functions and the sorting algorithm.\<close>

record 'w calc_env =
  ce_timeNow :: "'w \<Rightarrow> time \<times> 'w"
  ce_stopped :: "'w \<Rightarrow> bool \<times> 'w" \<comment> \<open>the stop channel is closed\<close>
  ce_closeStop :: "'w \<Rightarrow> 'w" \<comment> \<open>closes it\<close>
  ce_ctxErr :: "'w \<Rightarrow> bool \<times> 'w"
  ce_opErr :: "'w \<Rightarrow> bool \<times> 'w"
  ce_wait :: "nat \<Rightarrow> 'w \<Rightarrow> 'w"
  ce_gcTrigger :: "'w \<Rightarrow> 'w"
  ce_IsConnectivityError :: "kv_error \<Rightarrow> bool"
  ce_broad_by_class :: "hb_failure \<Rightarrow> bool" \<comment> \<open>connectivity or degrading\<close>
  ce_hash :: "asg_value \<Rightarrow> string"
  ce_xxh3 :: xxh3
  ce_sort :: "partition list \<Rightarrow> partition list"

section \<open>State\<close>

record label_read_model =
  PoolSizes :: "(string, nat) gomap"
  ParkedCounts :: "(string, nat) gomap"

text \<open>What does not change after the construction, and the state. The state machine is apart from it.\<close>

record ('s, 'w) calc =
  cc_env :: "'w calc_env"
  cc_config :: "('s, 'w) calc_config"
  cc_pub :: "'w pub_cfg"
  cc_mon :: "'w monitor_cfg"
  cc_Source :: "'w partition_source"
  cc_Strategy :: "'s strategy_fn"
  cc_Now :: "'w \<Rightarrow> time \<times> 'w"

record 's calculator =
  ca_started :: bool
  ca_publisher :: publisher
  ca_detector :: emergency_detector
  ca_currentWorkers :: "(string, bool) gomap"
  ca_currentAssignments :: assignments
  ca_lastWorkers :: "(string, bool) gomap"
  ca_disappearedWorkers :: "string list"
  ca_cachedWorkers :: "(string list \<times> time) option"
  ca_pendingPartitionUpdate :: bool
  ca_lastKnownPartitionCount :: nat
  ca_partitionShrunkObservations :: nat
  ca_lastKnownWorkerCount :: nat
  ca_workerShrunkObservations :: nat
  ca_enumFailures :: nat
  ca_labelState :: label_state
  ca_lastPublishedPartitions :: partition_slice
  ca_pendingLabelRecheck :: bool
  ca_labelRecheckCh :: bool \<comment> \<open>the channel of capacity one holds a signal\<close>
  ca_labelRecheckTimer :: "duration option"
  ca_labelReadModel :: "label_read_model option"
  ca_monitorStarted :: bool
  ca_monitorStopped :: bool
  ca_strategy :: 's \<comment> \<open>the state of the strategy\<close>

definition NewCalculator ::
  "'w calc_env \<Rightarrow> 's \<Rightarrow> ('s, 'w) calc_config \<Rightarrow> config_error + ('s, 'w) calc \<times> 's calculator" where
  "NewCalculator E strategy c =
     (case (calc_Validate c, AssignmentKV c, HeartbeatKV c, Source c, Strategy c) of
        (None, Some assignKV, Some hbKV, Some source, Some assign) \<Rightarrow>
          let c = calc_SetDefaults (ce_timeNow E) c;
              clock = (case cfg_clock c of None \<Rightarrow> ce_timeNow E | Some f \<Rightarrow> f);
              (pub, p) = NewAssignmentPublisher (ce_timeNow E) (ce_ctxErr E) (ce_wait E)
                \<lparr>cfg_AssignmentKV = assignKV, cfg_HeartbeatKV = Some hbKV, cfg_Prefix = AssignmentPrefix c,
                 cfg_HeartbeatPrefix = HeartbeatPrefix c, cfg_LeaderCheckFn = LeaderCheck c,
                 cfg_GCTriggerFn = Some (ce_gcTrigger E), cfg_IsShuttingDown = Some (ce_stopped E),
                 cfg_Now = Some clock\<rparr>
          in Inr (\<lparr>cc_env = E, cc_config = c, cc_pub = pub,
                   cc_mon = \<lparr>hb_kv = hbKV, hbPrefix = HeartbeatPrefix c, hbTTL = HeartbeatTTL c, op_Err = ce_opErr E\<rparr>,
                   cc_Source = source, cc_Strategy = assign, cc_Now = clock\<rparr>,
                  \<lparr>ca_started = False, ca_publisher = p, ca_detector = NewEmergencyDetector (EmergencyGracePeriod c),
                   ca_currentWorkers = [], ca_currentAssignments = [], ca_lastWorkers = [], ca_disappearedWorkers = [],
                   ca_cachedWorkers = None, ca_pendingPartitionUpdate = False, ca_lastKnownPartitionCount = 0,
                   ca_partitionShrunkObservations = 0, ca_lastKnownWorkerCount = 0, ca_workerShrunkObservations = 0,
                   ca_enumFailures = 0, ca_labelState = newLabelState (LabelSpillGrace c),
                   ca_lastPublishedPartitions = None, ca_pendingLabelRecheck = False, ca_labelRecheckCh = False,
                   ca_labelRecheckTimer = None, ca_labelReadModel = None, ca_monitorStarted = False,
                   ca_monitorStopped = False, ca_strategy = strategy\<rparr>)
      | (Some e, _) \<Rightarrow> Inl e
      | _ \<Rightarrow> Inl Source_required)"

text \<open>The errors, with what they wrap.\<close>

datatype calc_error =
    errShuttingDown
  | errSuspiciousPartitionObservation
  | errSuspiciousWorkerObservation
  | errLabelObservationDeferred
  | errLabelReadBroadFailure label_read_failure
  | ErrDegraded calc_error
  | ListHeartbeats kv_error
  | GetWorkersFailed calc_error
  | SnapshotFailed string
  | AssignmentFailed label_error
  | PublishFailed pub_error
  | RebalanceFailed string calc_error
  | PartitionRebalanceFailed string calc_error
  | InitialAssignmentFailed calc_error
  | ErrWorkerMonitorAlreadyStarted
  | ErrWorkerMonitorAlreadyStopped
  | MonitorStartFailed calc_error
  | ErrCalculatorNotStarted
  | ErrCalculatorAlreadyStarted

text \<open>\<open>errors.Is\<close> follows the wrapped errors.\<close>

fun error_is :: "calc_error \<Rightarrow> calc_error \<Rightarrow> bool" where
  "error_is (ErrDegraded e) t \<longleftrightarrow> t = ErrDegraded e \<or> error_is e t"
| "error_is (GetWorkersFailed e) t \<longleftrightarrow> t = GetWorkersFailed e \<or> error_is e t"
| "error_is (RebalanceFailed r e) t \<longleftrightarrow> t = RebalanceFailed r e \<or> error_is e t"
| "error_is (PartitionRebalanceFailed r e) t \<longleftrightarrow> t = PartitionRebalanceFailed r e \<or> error_is e t"
| "error_is (InitialAssignmentFailed e) t \<longleftrightarrow> t = InitialAssignmentFailed e \<or> error_is e t"
| "error_is (MonitorStartFailed e) t \<longleftrightarrow> t = MonitorStartFailed e \<or> error_is e t"
| "error_is e t \<longleftrightarrow> t = e"

section \<open>Stop and recovery grace\<close>

definition isStopping :: "('s, 'w) calc \<Rightarrow> 'w \<Rightarrow> bool \<times> 'w" where
  "isStopping C w = ce_stopped (cc_env C) w"

definition inRecoveryGrace :: "('s, 'w) calc \<Rightarrow> 'w \<Rightarrow> bool \<times> 'w" where
  "inRecoveryGrace C w =
     (case StateProvider (cc_config C) of None \<Rightarrow> (False, w) | Some sp \<Rightarrow> sp_IsInRecoveryGrace sp w)"

definition lifecyclePartitionUpdate :: string where "lifecyclePartitionUpdate = ''partition_update''"
definition lifecyclePartitionUpdateDeferred :: string where "lifecyclePartitionUpdateDeferred = ''partition_update_deferred''"
definition lifecycleLabelRecheck :: string where "lifecycleLabelRecheck = ''label_recheck''"
definition lifecycleLabelChange :: string where "lifecycleLabelChange = ''label_change''"
definition reasonNonFreshObservation :: string where "reasonNonFreshObservation = ''non_fresh_observation''"

definition isPartitionLifecycle :: "string \<Rightarrow> bool" where
  "isPartitionLifecycle lc \<longleftrightarrow>
     lc = lifecyclePartitionUpdate \<or> lc = lifecyclePartitionUpdateDeferred \<or> lc = lifecycleLabelRecheck"

definition shouldDeferForRecoveryGrace :: "('s, 'w) calc \<Rightarrow> string \<Rightarrow> 'w \<Rightarrow> bool \<times> 'w" where
  "shouldDeferForRecoveryGrace C lifecycle w =
     (if \<not> isPartitionLifecycle lifecycle then (False, w) else inRecoveryGrace C w)"

definition wrapStopErr :: "('s, 'w) calc \<Rightarrow> calc_error \<Rightarrow> 'w \<Rightarrow> calc_error \<times> 'w" where
  "wrapStopErr C err w = (case isStopping C w of (stopped, w) \<Rightarrow> (if stopped then errShuttingDown else err, w))"

definition wrapPublishErr :: "('s, 'w) calc \<Rightarrow> pub_error \<Rightarrow> 'w \<Rightarrow> calc_error \<times> 'w" where
  "wrapPublishErr C err w =
     (if err = ErrShuttingDown then (errShuttingDown, w) else wrapStopErr C (PublishFailed err) w)"

section \<open>Observing the workers\<close>

definition shrinkSuspicious :: "nat \<Rightarrow> nat \<Rightarrow> int \<Rightarrow> bool" where
  "shrinkSuspicious observed lastKnown thresholdPct \<longleftrightarrow>
     wrap64 (int observed * 100) < wrap64 (int lastKnown * thresholdPct)"

definition workerObservationSuspicious :: "('s, 'w) calc \<Rightarrow> nat \<Rightarrow> 's calculator \<Rightarrow> bool" where
  "workerObservationSuspicious C observed c \<longleftrightarrow>
     ca_lastKnownWorkerCount c \<noteq> 0 \<and>
     shrinkSuspicious observed (ca_lastKnownWorkerCount c) (WorkerShrinkConfirmationThresholdPct (cc_config C))"

text \<open>Suspicious, accepted.\<close>

definition recordWorkerObservation :: "('s, 'w) calc \<Rightarrow> nat \<Rightarrow> 's calculator \<Rightarrow> (bool \<times> bool) \<times> 's calculator" where
  "recordWorkerObservation C observed c =
     (if \<not> workerObservationSuspicious C observed c then ((False, False), c\<lparr>ca_workerShrunkObservations := 0\<rparr>)
      else let consec = ca_workerShrunkObservations c + 1
           in ((True, int consec \<ge> WorkerShrinkConfirmationCount (cc_config C)), c\<lparr>ca_workerShrunkObservations := consec\<rparr>))"

definition getCachedWorkers :: "'s calculator \<Rightarrow> string list option" where
  "getCachedWorkers c = map_option fst (ca_cachedWorkers c)"

definition updateCachedWorkers :: "('s, 'w) calc \<Rightarrow> string list \<Rightarrow> 's calculator \<Rightarrow> 'w \<Rightarrow> 's calculator \<times> 'w" where
  "updateCachedWorkers C workers c w =
     (case ce_timeNow (cc_env C) w of (t, w) \<Rightarrow> (c\<lparr>ca_cachedWorkers := Some (workers, t)\<rparr>, w))"

definition cacheFallbackOrDegraded :: "calc_error \<Rightarrow> 's calculator \<Rightarrow> calc_error + string list \<times> bool" where
  "cacheFallbackOrDegraded degradedErr c =
     (case getCachedWorkers c of Some cached \<Rightarrow> Inr (cached, False) | None \<Rightarrow> Inl degradedErr)"

definition recordEnumerationFailure :: "('s, 'w) calc \<Rightarrow> kv_error \<Rightarrow> 's calculator \<Rightarrow> 'w \<Rightarrow> 's calculator \<times> 'w" where
  "recordEnumerationFailure C err c w =
     (case OnEnumerationError (cc_config C) of
        None \<Rightarrow> (c, w)
      | Some f \<Rightarrow>
          let c = c\<lparr>ca_enumFailures := ca_enumFailures c + 1\<rparr>
          in (c, if int (ca_enumFailures c) \<ge> EnumerationFailureThreshold (cc_config C) then f err w else w))"

definition resetEnumerationFailures :: "('s, 'w) calc \<Rightarrow> 's calculator \<Rightarrow> 'w \<Rightarrow> 's calculator \<times> 'w" where
  "resetEnumerationFailures C c w =
     (c\<lparr>ca_enumFailures := 0\<rparr>, case OnEnumerationSuccess (cc_config C) of None \<Rightarrow> w | Some f \<Rightarrow> f w)"

text \<open>The workers, and whether the observation is fresh.\<close>

definition getActiveWorkers ::
  "('s, 'w) calc \<Rightarrow> 's calculator \<Rightarrow> 'w \<Rightarrow> (calc_error + string list \<times> bool) \<times> 's calculator \<times> 'w" where
  "getActiveWorkers C c w =
     (case GetActiveWorkers (cc_mon C) w of
        (Inl err, w) \<Rightarrow>
          if ce_IsConnectivityError (cc_env C) err
          then (cacheFallbackOrDegraded (ErrDegraded (ListHeartbeats err)) c, c, w)
          else (case recordEnumerationFailure C err c w of (c, w) \<Rightarrow> (Inl (ListHeartbeats err), c, w))
      | (Inr workers, w) \<Rightarrow>
          (case resetEnumerationFailures C c w of
             (c, w) \<Rightarrow>
               (case recordWorkerObservation C (length workers) c of
                  ((suspicious, accepted), c) \<Rightarrow>
                    if suspicious \<and> \<not> accepted
                    then (cacheFallbackOrDegraded (ErrDegraded errSuspiciousWorkerObservation) c, c, w)
                    else case (if \<not> suspicious then updateCachedWorkers C workers c w else (c, w)) of
                           (c, w) \<Rightarrow> (Inr (workers, True), c, w))))"

definition getActiveWorkersFiltered ::
  "('s, 'w) calc \<Rightarrow> string list \<Rightarrow> 's calculator \<Rightarrow> 'w \<Rightarrow> (calc_error + string list \<times> bool) \<times> 's calculator \<times> 'w" where
  "getActiveWorkersFiltered C disappeared c w =
     (case getActiveWorkers C c w of
        (Inl err, c, w) \<Rightarrow> (Inl err, c, w)
      | (Inr (workers, fresh), c, w) \<Rightarrow>
          if disappeared = [] then (Inr (workers, fresh), c, w)
          else (Inr (filter (\<lambda>x. x \<notin> set disappeared) workers, fresh), c, w))"

text \<open>The workers for a rebalance: workers, deaths confirmed, fresh.\<close>

definition collectRebalanceWorkers ::
  "('s, 'w) calc \<Rightarrow> string \<Rightarrow> 's calculator \<Rightarrow> 'w \<Rightarrow> (calc_error + string list \<times> bool \<times> bool) \<times> 's calculator \<times> 'w" where
  "collectRebalanceWorkers C lifecycle c w =
     (let deathsConfirmed = (ca_disappearedWorkers c \<noteq> []);
          disappeared = (if lifecycle = ''emergency'' then ca_disappearedWorkers c else []);
          c = (if lifecycle = ''emergency'' then c\<lparr>ca_disappearedWorkers := []\<rparr> else c)
      in case getActiveWorkersFiltered C disappeared c w of
           (Inl err, c, w) \<Rightarrow> (case wrapStopErr C (GetWorkersFailed err) w of (e, w) \<Rightarrow> (Inl e, c, w))
         | (Inr (workers, fresh), c, w) \<Rightarrow>
             (Inr (workers, deathsConfirmed, fresh),
              if fresh then c\<lparr>ca_detector := ObserveAlive workers (ca_detector c)\<rparr> else c, w))"

section \<open>Labels of record\<close>

definition missingWorkers :: "string list \<Rightarrow> heartbeats \<Rightarrow> string list" where
  "missingWorkers workers hbs = sort (filter (\<lambda>x. map_of hbs x = None) workers)"

text \<open>\<open>maps.Copy\<close>\<close>

definition maps_Copy :: "('k, 'v) gomap \<Rightarrow> ('k, 'v) gomap \<Rightarrow> ('k, 'v) gomap" where
  "maps_Copy dst src = foldl (\<lambda>m (k, v). AList.update k v m) dst src"

definition readWorkerLabels ::
  "('s, 'w) calc \<Rightarrow> string list \<Rightarrow> 'w \<Rightarrow> (label_read_failure + (string \<Rightarrow> string list) \<times> (string, bool) gomap) \<times> 'w" where
  "readWorkerLabels C workers w =
     (case GetHeartbeatsFor (cc_mon C) workers w of
        ((_, _, True), w) \<Rightarrow> (Inl ReadAborted, w)
      | ((hbs, fails, False), w) \<Rightarrow>
          let missing = missingWorkers workers hbs;
              (hbs, fails, w) =
                (if missing = [] then (hbs, fails, w)
                 else case GetHeartbeatsFor (cc_mon C) missing w of
                        ((_, _, True), w) \<Rightarrow> (hbs, fails, w)
                      | ((retry, retryFails, False), w) \<Rightarrow> (maps_Copy hbs retry, retryFails, w));
              missing = missingWorkers workers hbs
          in case find (\<lambda>x. case fails x of None \<Rightarrow> False | Some f \<Rightarrow> ce_broad_by_class (cc_env C) f) missing of
               Some x \<Rightarrow> (Inl (case fails x of Some f \<Rightarrow> WorkerUnreadable x f | None \<Rightarrow> ReadAborted), w)
             | None \<Rightarrow>
                 if length missing > max 1 (length workers div 10)
                 then (Inl (TooManyUnreadable (length missing) (length workers)), w)
                 else (Inr (\<lambda>x. case map_of hbs x of None \<Rightarrow> [] | Some hb \<Rightarrow> hb_Labels hb,
                            map (\<lambda>x. (x, True)) (remdups missing)), w))"

section \<open>Re-check requests\<close>

definition requestLabelRecheck :: "string \<Rightarrow> 's calculator \<Rightarrow> 's calculator" where
  "requestLabelRecheck reason c =
     (let c = c\<lparr>ca_pendingLabelRecheck := True\<rparr>
      in if reason = reasonNonFreshObservation then c else c\<lparr>ca_labelRecheckCh := True\<rparr>)"

definition armLabelRecheckAfterRebalance :: "('s, 'w) calc \<Rightarrow> nat \<Rightarrow> 's calculator \<Rightarrow> 'w \<Rightarrow> 's calculator \<times> 'w" where
  "armLabelRecheckAfterRebalance C parkedCount c w =
     (if parkedCount = 0
      then (if ca_labelRecheckTimer c \<noteq> None \<and> \<not> ca_pendingLabelRecheck c then c\<lparr>ca_labelRecheckTimer := None\<rparr> else c, w)
      else
        case cc_Now C w of
          (t, w) \<Rightarrow>
            let (left, running) = minRemainingGrace t (ca_labelState c)
            in (c\<lparr>ca_labelRecheckTimer := (if running then Some (wrap64 (left + 50000000)) else None)\<rparr>, w))"

text \<open>The timer fires.\<close>

definition labelRecheckTimer_fires :: "'s calculator \<Rightarrow> 's calculator" where
  "labelRecheckTimer_fires c =
     (if ca_labelRecheckTimer c = None then c else requestLabelRecheck ''grace_expiry'' c)"

section \<open>Assignments from a trusted observation\<close>

record label_pipeline_result =
  lp_assignments :: assignments
  lp_parked :: "partition list"
  lp_labels :: "string \<Rightarrow> string list"
  lp_topo :: label_topology
  lp_actions :: "(string, emptyPoolAction) gomap"

definition label_topology_of ::
  "('s, 'w) calc \<Rightarrow> string list \<Rightarrow> (string \<Rightarrow> string list) \<Rightarrow> (string, bool) gomap \<Rightarrow> partition list \<Rightarrow> topology_input" where
  "label_topology_of C workers labels unknown partitions =
     \<lparr>ti_Workers = workers, ti_Labels = labels, ti_Unknown = unknown, ti_Partitions = partitions,
      ti_Policy = UnlabeledPartitionPolicy (cc_config C)\<rparr>"

text \<open>The grace state after an observation of the topology: the actions on the empty pools, and whether
  the observation is to be confirmed first.\<close>

definition observe_labels ::
  "time \<Rightarrow> string list \<Rightarrow> label_topology \<Rightarrow> label_state \<Rightarrow> (string, emptyPoolAction) gomap \<times> bool \<times> label_state" where
  "observe_labels t unknownList topo ls =
     (let (ls, unknownDeferred) = observeUnknownWorkers unknownList ls;
          ls = observeNonEmpty (filter (\<lambda>l. map_get [] (Pools topo) l \<noteq> []) (SortedLabels topo)) ls;
          (ls, actions, emptyDeferred) = observeEmptyPools t (EmptyLabels topo) ls;
          ls = prune (\<lambda>l. l \<in> set (SortedLabels topo)) ls
      in (actions, unknownDeferred \<or> emptyDeferred, ls))"

text \<open>An error, or \<open>None\<close> for a deferral, or the result. The zero value of the action is to park.\<close>

definition labelRoutedAssignments ::
  "('s, 'w) calc \<Rightarrow> string list \<Rightarrow> partition list \<Rightarrow> 's calculator \<Rightarrow> 'w \<Rightarrow>
     (calc_error + label_pipeline_result option) \<times> 's calculator \<times> 'w" where
  "labelRoutedAssignments C workers partitions c w =
     (case readWorkerLabels C workers w of
        (Inl err, w) \<Rightarrow> (Inl (errLabelReadBroadFailure err), c, w)
      | (Inr (labels, unknown), w) \<Rightarrow>
          let topo = buildLabelTopology (label_topology_of C workers labels unknown partitions)
          in case cc_Now C w of
               (t, w) \<Rightarrow>
                 (case observe_labels t (sort (map fst unknown)) topo (ca_labelState c) of
                    (actions, deferred, ls) \<Rightarrow>
                      let c = c\<lparr>ca_labelState := ls\<rparr>
                      in if deferred then (Inr None, c, w)
                         else case computeLabelAssignments (cc_Strategy C) topo (map_get emptyPoolPark actions) (ca_strategy c) of
                                (Inl err, st) \<Rightarrow> (Inl (AssignmentFailed err), c\<lparr>ca_strategy := st\<rparr>, w)
                              | (Inr (assignments, parked), st) \<Rightarrow>
                                  (Inr (Some \<lparr>lp_assignments = assignments, lp_parked = parked, lp_labels = labels,
                                              lp_topo = topo, lp_actions = actions\<rparr>),
                                   c\<lparr>ca_strategy := st\<rparr>, w)))"

definition deriveRebalanceAssignments ::
  "('s, 'w) calc \<Rightarrow> string list \<Rightarrow> partition list \<Rightarrow> 's calculator \<Rightarrow> 'w \<Rightarrow>
     (calc_error + label_pipeline_result) \<times> 's calculator \<times> 'w" where
  "deriveRebalanceAssignments C workers partitions c w =
     (case labelRoutedAssignments C workers partitions c w of
        (Inl err, c, w) \<Rightarrow>
          (case (case err of
                   errLabelReadBroadFailure f \<Rightarrow>
                     (case OnLabelReadBroadFailure (cc_config C) of
                        None \<Rightarrow> w
                      | Some cb \<Rightarrow> (case isStopping C w of (stopped, w) \<Rightarrow> if stopped then w else cb f w))
                 | _ \<Rightarrow> w) of
             w \<Rightarrow> (case wrapStopErr C err w of (e, w) \<Rightarrow> (Inl e, c, w)))
      | (Inr None, c, w) \<Rightarrow> (Inl errLabelObservationDeferred, requestLabelRecheck ''observation_deferred'' c, w)
      | (Inr (Some res), c, w) \<Rightarrow> (Inr res, c, w))"

section \<open>Replay of a cached observation\<close>

fun content_equal :: "partition list \<Rightarrow> partition list \<Rightarrow> bool" where
  "content_equal (p # a) (q # b) =
     (if Weight p \<noteq> Weight q \<or> Label p \<noteq> Label q \<or> Keys p \<noteq> Keys q then False else content_equal a b)"
| "content_equal a b = True"

definition partitionsContentEqual :: "partition list \<Rightarrow> partition list \<Rightarrow> bool" where
  "partitionsContentEqual a b = (if length a \<noteq> length b then False else content_equal a b)"

definition cachedObservationReplayable :: "string list \<Rightarrow> partition list \<Rightarrow> nat \<Rightarrow> bool \<Rightarrow> 's calculator \<Rightarrow> bool" where
  "cachedObservationReplayable workers partitions srcRev srcKnown c =
     (case lastCommit (ca_publisher c) of
        None \<Rightarrow> False
      | Some commit \<Rightarrow>
          if length (cm_Payloads commit) \<noteq> length workers then False
          else if \<not> list_all (\<lambda>x. map_of (cm_Payloads commit) x \<noteq> None) workers then False
          else if srcKnown \<and> cm_SourceRevisionKnown commit \<and> srcRev = cm_SourceRevision commit then True
          else (case ca_lastPublishedPartitions c of None \<Rightarrow> False | Some ps \<Rightarrow> partitionsContentEqual partitions ps))"

definition rebalanceOnCachedObservation ::
  "string list \<Rightarrow> partition list \<Rightarrow> nat \<Rightarrow> bool \<Rightarrow> 's calculator \<Rightarrow> calc_error option \<times> 's calculator" where
  "rebalanceOnCachedObservation workers partitions srcRev srcKnown c =
     (let replayable = cachedObservationReplayable workers partitions srcRev srcKnown c;
          c = requestLabelRecheck reasonNonFreshObservation c
      in (if replayable then None else Some errLabelObservationDeferred, c))"

section \<open>The guards of a rebalance\<close>

definition partitionInputCredibilityGuard :: "('s, 'w) calc \<Rightarrow> nat \<Rightarrow> 's calculator \<Rightarrow> bool \<times> 's calculator" where
  "partitionInputCredibilityGuard C observed c =
     (let confirm = (\<lambda>c. let c = c\<lparr>ca_partitionShrunkObservations := ca_partitionShrunkObservations c + 1\<rparr>
                         in (int (ca_partitionShrunkObservations c) < PartitionShrinkConfirmationCount (cc_config C), c))
      in if ca_lastKnownPartitionCount c = 0 then (False, c)
         else if observed = 0 then confirm c
         else if shrinkSuspicious observed (ca_lastKnownPartitionCount c) (PartitionShrinkConfirmationThresholdPct (cc_config C))
         then confirm c
         else (False, c\<lparr>ca_partitionShrunkObservations := 0\<rparr>))"

text \<open>The floor under the worker set, which advances the baseline when it lets the rebalance pass.\<close>

definition worker_floor :: "('s, 'w) calc \<Rightarrow> string list \<Rightarrow> bool \<Rightarrow> 's calculator \<Rightarrow> bool \<times> 's calculator" where
  "worker_floor C workers deathsConfirmed c =
     (if \<not> deathsConfirmed \<and> workerObservationSuspicious C (length workers) c then (True, c)
      else (False, c\<lparr>ca_lastKnownWorkerCount := length workers\<rparr>))"

section \<open>The rebalance\<close>

text \<open>What a rebalance has observed when its guards have let it pass.\<close>

record observation =
  ob_workers :: "string list"
  ob_deathsConfirmed :: bool
  ob_fresh :: bool
  ob_partitions :: partition_slice
  ob_srcRev :: nat
  ob_srcKnown :: bool

text \<open>\<open>Inl\<close> is a return from \<open>rebalance\<close>, with its error.\<close>

definition rebalance_guards ::
  "('s, 'w) calc \<Rightarrow> observation \<Rightarrow> 's calculator \<Rightarrow> (calc_error option + observation) \<times> 's calculator" where
  "rebalance_guards C ob c =
     (if ob_workers ob = [] then (Inl None, c)
      else case worker_floor C (ob_workers ob) (ob_deathsConfirmed ob) c of
             (True, c) \<Rightarrow> (Inl (Some errSuspiciousWorkerObservation), c)
           | (False, c) \<Rightarrow>
               let observed = length (elems (ob_partitions ob))
               in case partitionInputCredibilityGuard C observed c of
                    (True, c) \<Rightarrow> (Inl (Some errSuspiciousPartitionObservation), c)
                  | (False, c) \<Rightarrow> (Inr ob, c\<lparr>ca_lastKnownPartitionCount := observed\<rparr>))"

text \<open>The snapshot of the source, after the listing of the heartbeat keys for the log when there is only one worker.\<close>

definition rebalance_snapshot ::
  "('s, 'w) calc \<Rightarrow> string list \<Rightarrow> bool \<Rightarrow> bool \<Rightarrow> 's calculator \<Rightarrow> 'w \<Rightarrow>
     (calc_error option + observation) \<times> 's calculator \<times> 'w" where
  "rebalance_snapshot C workers deathsConfirmed fresh c w =
     (let w = (if length workers = 1 then snd (kv_Keys (hb_kv (cc_mon C)) w) else w)
      in case snapshotSource (cc_Source C) w of
           (Inl err, w) \<Rightarrow> (case wrapStopErr C (SnapshotFailed err) w of (e, w) \<Rightarrow> (Inl (Some e), c, w))
         | (Inr (partitions, srcRev, srcKnown), w) \<Rightarrow>
             (case rebalance_guards C \<lparr>ob_workers = workers, ob_deathsConfirmed = deathsConfirmed, ob_fresh = fresh,
                     ob_partitions = partitions, ob_srcRev = srcRev, ob_srcKnown = srcKnown\<rparr> c of
                (r, c) \<Rightarrow> (r, c, w)))"

definition rebalance_observe ::
  "('s, 'w) calc \<Rightarrow> string \<Rightarrow> 's calculator \<Rightarrow> 'w \<Rightarrow> (calc_error option + observation) \<times> 's calculator \<times> 'w" where
  "rebalance_observe C lifecycle c w =
     (case shouldDeferForRecoveryGrace C lifecycle w of
        (True, w) \<Rightarrow> (Inl (Some errShuttingDown), c, w)
      | (False, w) \<Rightarrow>
          (case collectRebalanceWorkers C lifecycle c w of
             (Inl err, c, w) \<Rightarrow> (Inl (Some err), c, w)
           | (Inr (workers, deathsConfirmed, fresh), c, w) \<Rightarrow> rebalance_snapshot C workers deathsConfirmed fresh c w))"

definition trusted :: "string \<Rightarrow> observation \<Rightarrow> bool" where
  "trusted lifecycle ob \<longleftrightarrow> ob_fresh ob \<or> (lifecycle = ''emergency'' \<and> ob_deathsConfirmed ob)"

definition rebalance_derive ::
  "('s, 'w) calc \<Rightarrow> string \<Rightarrow> observation \<Rightarrow> 's calculator \<Rightarrow> 'w \<Rightarrow>
     (calc_error option + label_pipeline_result) \<times> 's calculator \<times> 'w" where
  "rebalance_derive C lifecycle ob c w =
     (if \<not> trusted lifecycle ob
      then (case rebalanceOnCachedObservation (ob_workers ob) (elems (ob_partitions ob)) (ob_srcRev ob) (ob_srcKnown ob) c of
              (r, c) \<Rightarrow> (Inl r, c, w))
      else case deriveRebalanceAssignments C (ob_workers ob) (elems (ob_partitions ob)) c w of
             (Inl err, c, w) \<Rightarrow> (Inl (Some err), c, w)
           | (Inr res, c, w) \<Rightarrow> (Inr res, c, w))"

definition retainLabelReadModel :: "label_pipeline_result \<Rightarrow> 's calculator \<Rightarrow> 's calculator" where
  "retainLabelReadModel res c =
     (let topo = lp_topo res
      in c\<lparr>ca_labelReadModel := Some
              \<lparr>PoolSizes = foldl (\<lambda>m l. AList.update l (length (map_get [] (Pools topo) l)) m) [] (SortedLabels topo),
               ParkedCounts = foldl (\<lambda>m l. AList.update l (length (filter (\<lambda>p. Label p = l) (lp_parked res))) m) []
                 (SortedLabels topo)\<rparr>\<rparr>)"

definition LabelSnapshot :: "'s calculator \<Rightarrow> ((string, nat) gomap \<times> (string, nat) gomap) option" where
  "LabelSnapshot c = map_option (\<lambda>m. (PoolSizes m, ParkedCounts m)) (ca_labelReadModel c)"

definition worker_set :: "string list \<Rightarrow> (string, bool) gomap" where
  "worker_set workers = foldl (\<lambda>m x. AList.update x True m) [] workers"

definition publish_input_of :: "string \<Rightarrow> observation \<Rightarrow> label_pipeline_result \<Rightarrow> nat \<Rightarrow> 's calculator \<Rightarrow> publish_input" where
  "publish_input_of lifecycle ob res leaderRevision c =
     \<lparr>Workers = ob_workers ob, Assignments = lp_assignments res, SourcePartitions = elems (ob_partitions ob),
      in_SourceRevision = ob_srcRev ob, in_SourceRevisionKnown = ob_srcKnown ob, LeaderRevision = leaderRevision,
      Lifecycle = lifecycle,
      WorkersToRemove = filter (\<lambda>x. x \<notin> set (ob_workers ob)) (map fst (ca_currentWorkers c)),
      ParkedPartitions = lp_parked res, WorkerLabels = lp_labels res\<rparr>"

definition after_publish ::
  "('s, 'w) calc \<Rightarrow> observation \<Rightarrow> label_pipeline_result \<Rightarrow> 's calculator \<Rightarrow> 'w \<Rightarrow> 's calculator \<times> 'w" where
  "after_publish C ob res c w =
     (case armLabelRecheckAfterRebalance C (length (lp_parked res)) (retainLabelReadModel res c) w of
        (c, w) \<Rightarrow>
          (c\<lparr>ca_currentWorkers := worker_set (ob_workers ob), ca_currentAssignments := lp_assignments res,
             ca_lastPublishedPartitions := ob_partitions ob\<rparr>, w))"

definition rebalance_publish ::
  "('s, 'w) calc \<Rightarrow> string \<Rightarrow> observation \<Rightarrow> label_pipeline_result \<Rightarrow> 's calculator \<Rightarrow> 'w \<Rightarrow>
     calc_error option \<times> 's calculator \<times> 'w" where
  "rebalance_publish C lifecycle ob res c w =
     (case (case StateProvider (cc_config C) of None \<Rightarrow> (False, w) | Some sp \<Rightarrow> sp_Shutdown sp w) of
        (True, w) \<Rightarrow> (Some errShuttingDown, c, w)
      | (False, w) \<Rightarrow>
          (case (case cfg_LeaderRevision (cc_config C) of None \<Rightarrow> (0, w) | Some f \<Rightarrow> f w) of
             (leaderRevision, w) \<Rightarrow>
               (case Publish (cc_pub C) (ce_hash (cc_env C)) (ce_xxh3 (cc_env C)) (ce_sort (cc_env C))
                       (publish_input_of lifecycle ob res leaderRevision c) (ca_publisher c) w of
                  (Some err, p, w) \<Rightarrow>
                    (case wrapPublishErr C err w of (e, w) \<Rightarrow> (Some e, c\<lparr>ca_publisher := p\<rparr>, w))
                | (None, p, w) \<Rightarrow>
                    (case after_publish C ob res (c\<lparr>ca_publisher := p\<rparr>) w of (c, w) \<Rightarrow> (None, c, w)))))"

definition rebalance :: "('s, 'w) calc \<Rightarrow> string \<Rightarrow> 's calculator \<Rightarrow> 'w \<Rightarrow> calc_error option \<times> 's calculator \<times> 'w" where
  "rebalance C lifecycle c w =
     (case rebalance_observe C lifecycle c w of
        (Inl r, c, w) \<Rightarrow> (r, c, w)
      | (Inr ob, c, w) \<Rightarrow>
          (case rebalance_derive C lifecycle ob c w of
             (Inl r, c, w) \<Rightarrow> (r, c, w)
           | (Inr res, c, w) \<Rightarrow> rebalance_publish C lifecycle ob res c w))"

section \<open>The callbacks of the state machine\<close>

definition setLastWorkersLocked :: "(string, bool) gomap \<Rightarrow> 's calculator \<Rightarrow> 's calculator" where
  "setLastWorkersLocked workers c = c\<lparr>ca_lastWorkers := map (\<lambda>(x, _). (x, True)) workers\<rparr>"

definition handleRebalance ::
  "('s, 'w) calc \<Rightarrow> string \<Rightarrow> 's calculator \<times> 'w \<Rightarrow> calc_error option \<times> 's calculator \<times> 'w" where
  "handleRebalance C reason cw =
     (case rebalance C reason (fst cw) (snd cw) of
        (Some err, c, w) \<Rightarrow>
          if error_is err errShuttingDown \<or> error_is err errSuspiciousPartitionObservation \<or>
             error_is err errSuspiciousWorkerObservation \<or> error_is err errLabelObservationDeferred
          then (None, c, w)
          else (Some (RebalanceFailed reason err), c, w)
      | (None, c, w) \<Rightarrow> (None, setLastWorkersLocked (ca_currentWorkers c) c, w))"

definition handlePartitionRebalance ::
  "('s, 'w) calc \<Rightarrow> string \<Rightarrow> 's calculator \<times> 'w \<Rightarrow> calc_error option \<times> 's calculator \<times> 'w" where
  "handlePartitionRebalance C lifecycle cw =
     (case rebalance C lifecycle (fst cw) (snd cw) of
        (Some err, c, w) \<Rightarrow>
          if error_is err errShuttingDown then (Some err, c, w)
          else if error_is err errSuspiciousPartitionObservation then (Some err, c, w)
          else if error_is err errSuspiciousWorkerObservation then (None, c, w)
          else (Some (PartitionRebalanceFailed lifecycle err), c, w)
      | (None, c, w) \<Rightarrow> (None, c, w))"

section \<open>Observe and decide\<close>

type_synonym ('s, 'w) calc_state_w = "state_machine \<times> 's calculator \<times> 'w"

definition cloneLastWorkersLocked :: "'s calculator \<Rightarrow> (string, bool) gomap" where
  "cloneLastWorkersLocked c = map (\<lambda>(x, _). (x, True)) (ca_lastWorkers c)"

definition hasWorkersChangedLocked :: "(string, bool) gomap \<Rightarrow> 's calculator \<Rightarrow> bool" where
  "hasWorkersChangedLocked workers c \<longleftrightarrow>
     length workers \<noteq> length (ca_lastWorkers c) \<or>
     list_ex (\<lambda>(x, _). \<not> map_get False (ca_lastWorkers c) x) workers"

definition collectWorkerObservation ::
  "('s, 'w) calc \<Rightarrow> (string, bool) gomap option \<Rightarrow> 's calculator \<Rightarrow> 'w \<Rightarrow>
     (calc_error + (string, bool) gomap \<times> bool) \<times> 's calculator \<times> 'w" where
  "collectWorkerObservation C provided c w =
     (case provided of
        Some workers \<Rightarrow> (Inr (workers, True), c, w)
      | None \<Rightarrow>
          (case getActiveWorkers C c w of
             (Inl err, c, w) \<Rightarrow> (Inl (GetWorkersFailed err), c, w)
           | (Inr (workerList, fresh), c, w) \<Rightarrow> (Inr (worker_set workerList, fresh), c, w)))"

definition claimEmergency :: "string list \<Rightarrow> ('s, 'w) calc_state_w \<Rightarrow> bool \<times> ('s, 'w) calc_state_w" where
  "claimEmergency disappeared s =
     (let (sm, c, w) = s; (sm, won) = TryClaimEmergency sm
      in if \<not> won then (False, sm, c, w) else (True, sm, c\<lparr>ca_disappearedWorkers := disappeared\<rparr>, w))"

definition detectRebalanceType ::
  "('s, 'w) calc \<Rightarrow> (string, bool) gomap \<Rightarrow> bool \<Rightarrow> (string \<times> duration) option" where
  "detectRebalanceType C prev pending =
     (if pending then None
      else if prev = [] then Some (''cold_start'', ColdStartWindow (cc_config C))
      else Some (''planned_scale'', PlannedScaleWindow (cc_config C)))"

definition enterScalingState ::
  "('s, 'w) calc \<Rightarrow> string \<Rightarrow> duration \<Rightarrow> ('s, 'w) calc_state_w \<Rightarrow> ('s, 'w) calc_state_w" where
  "enterScalingState C reason window s =
     (let (sm, c, w) = s
      in case isStopping C w of
           (True, w) \<Rightarrow> (sm, c, w)
         | (False, w) \<Rightarrow>
             if sm_stopping sm then (sm, c, w)
             else (case ce_timeNow (cc_env C) w of (t, w) \<Rightarrow> (EnterScaling t reason window sm, c, w)))"

datatype pollAction = pollActionNone | pollActionRunEmergency | pollActionLogDegradedSkip

text \<open>A changed and fresh observation without an emergency: the planned scaling.\<close>

definition decide_scaling ::
  "('s, 'w) calc \<Rightarrow> (string, bool) gomap \<Rightarrow> bool \<Rightarrow> ('s, 'w) calc_state_w \<Rightarrow> ('s, 'w) calc_state_w" where
  "decide_scaling C lastWorkers pending s =
     (let (sm, c, w) = s
      in case detectRebalanceType C lastWorkers pending of
           None \<Rightarrow> s
         | Some (reason, window) \<Rightarrow>
             (case inRecoveryGrace C w of
                (True, w) \<Rightarrow> (sm, c, w)
              | (False, w) \<Rightarrow>
                  (case cc_Now C w of
                     (t, w) \<Rightarrow>
                       if time_sub t (lastRebalance (ca_publisher c)) < Cooldown (cc_config C) then (sm, c, w)
                       else if sm_current sm \<noteq> CalcStateIdle then (sm, c, w)
                       else enterScalingState C reason window (sm, c, w))))"

definition observeAndDecideLocked ::
  "('s, 'w) calc \<Rightarrow> (string, bool) gomap option \<Rightarrow> ('s, 'w) calc_state_w \<Rightarrow> (calc_error + pollAction) \<times> ('s, 'w) calc_state_w" where
  "observeAndDecideLocked C provided s =
     (let (sm, c, w) = s
      in case collectWorkerObservation C provided c w of
           (Inl err, c, w) \<Rightarrow> (Inl err, sm, c, w)
         | (Inr (workers, fresh), c, w) \<Rightarrow>
             let changed = hasWorkersChangedLocked workers c;
                 lastWorkersCopy = cloneLastWorkersLocked c
             in case (if fresh
                      then (case ce_timeNow (cc_env C) w of
                              (t, w) \<Rightarrow>
                                (case CheckEmergency t lastWorkersCopy workers (ca_detector c) of
                                   (d, emergency, disappeared, pending) \<Rightarrow>
                                     ((emergency, disappeared, pending), c\<lparr>ca_detector := d\<rparr>, w)))
                      else ((False, [], False), c, w)) of
                  ((emergency, disappeared, pending), c, w) \<Rightarrow>
                    if \<not> changed then (Inr pollActionNone, sm, c, w)
                    else if \<not> fresh then (Inr pollActionLogDegradedSkip, sm, c, w)
                    else if emergency
                    then (case claimEmergency disappeared (sm, c, w) of
                            (won, s) \<Rightarrow> (Inr (if won then pollActionRunEmergency else pollActionNone), s))
                    else (Inr pollActionNone, decide_scaling C lastWorkersCopy pending (sm, c, w)))"

definition observeAndDecide ::
  "('s, 'w) calc \<Rightarrow> (string, bool) gomap option \<Rightarrow> ('s, 'w) calc_state_w \<Rightarrow> calc_error option \<times> ('s, 'w) calc_state_w" where
  "observeAndDecide C provided s =
     (case observeAndDecideLocked C provided s of
        (Inl err, s) \<Rightarrow> (Some err, s)
      | (Inr pollActionRunEmergency, s) \<Rightarrow> (None, RunClaimedRebalance (Some (handleRebalance C)) ''emergency'' s)
      | (Inr _, s) \<Rightarrow> (None, s))"

definition pollForChanges :: "('s, 'w) calc \<Rightarrow> ('s, 'w) calc_state_w \<Rightarrow> calc_error option \<times> ('s, 'w) calc_state_w" where
  "pollForChanges C s = observeAndDecide C None s"

section \<open>Changes of the partition source\<close>

definition triggerPartitionRebalance ::
  "('s, 'w) calc \<Rightarrow> string \<Rightarrow> ('s, 'w) calc_state_w \<Rightarrow> calc_error option \<times> ('s, 'w) calc_state_w" where
  "triggerPartitionRebalance C lifecycle s =
     (let (sm, c, w) = s; (sm, won) = TryClaimRebalancing lifecycle sm
      in if \<not> won then (None, sm, c\<lparr>ca_pendingPartitionUpdate := True\<rparr>, w)
         else case RunClaimedRebalanceErr (Some (handlePartitionRebalance C)) lifecycle (sm, c, w) of
                ((sm, c, w), err) \<Rightarrow>
                  let (err, c) =
                        (case err of
                           Some e \<Rightarrow> if error_is e errSuspiciousPartitionObservation
                                     then (None, c\<lparr>ca_pendingPartitionUpdate := True\<rparr>) else (Some e, c)
                         | None \<Rightarrow> (None, c));
                      err = (case err of
                               Some e \<Rightarrow> if error_is e errLabelObservationDeferred then None else Some e
                             | None \<Rightarrow> None)
                  in (err, snd (observeAndDecide C None (sm, c, w))))"

definition restorePendingOnGraceBail ::
  "('s, 'w) calc \<Rightarrow> calc_error option \<Rightarrow> ('s, 'w) calc_state_w \<Rightarrow> ('s, 'w) calc_state_w" where
  "restorePendingOnGraceBail C err s =
     (case err of
        None \<Rightarrow> s
      | Some e \<Rightarrow>
          if \<not> error_is e errShuttingDown then s
          else let (sm, c, w) = s
               in case isStopping C w of
                    (True, w) \<Rightarrow> (sm, c, w)
                  | (False, w) \<Rightarrow> (sm, c\<lparr>ca_pendingPartitionUpdate := True\<rparr>, w))"

text \<open>The two branches of the loop of \<open>monitorPartitions\<close>: the drain tick and the signal of the source.\<close>

definition partition_drain :: "('s, 'w) calc \<Rightarrow> ('s, 'w) calc_state_w \<Rightarrow> ('s, 'w) calc_state_w" where
  "partition_drain C s =
     (let (sm, c, w) = s
      in if \<not> ca_pendingPartitionUpdate c then s
         else let c = c\<lparr>ca_pendingPartitionUpdate := False\<rparr>
              in case inRecoveryGrace C w of
                   (True, w) \<Rightarrow> (sm, c\<lparr>ca_pendingPartitionUpdate := True\<rparr>, w)
                 | (False, w) \<Rightarrow>
                     (case triggerPartitionRebalance C lifecyclePartitionUpdateDeferred (sm, c, w) of
                        (err, s) \<Rightarrow> restorePendingOnGraceBail C err s))"

text \<open>\<open>True\<close>: the loop ends.\<close>

definition partition_changed :: "('s, 'w) calc \<Rightarrow> ('s, 'w) calc_state_w \<Rightarrow> bool \<times> ('s, 'w) calc_state_w" where
  "partition_changed C s =
     (let (sm, c, w) = s
      in case isStopping C w of
           (True, w) \<Rightarrow> (True, sm, c, w)
         | (False, w) \<Rightarrow>
             (case inRecoveryGrace C w of
                (True, w) \<Rightarrow> (False, sm, c\<lparr>ca_pendingPartitionUpdate := True\<rparr>, w)
              | (False, w) \<Rightarrow>
                  (case triggerPartitionRebalance C lifecyclePartitionUpdate
                          (sm, c\<lparr>ca_pendingPartitionUpdate := False\<rparr>, w) of
                     (err, s) \<Rightarrow> (False, restorePendingOnGraceBail C err s))))"

section \<open>Label re-checks\<close>

definition restorePendingLabelOnGraceBail ::
  "('s, 'w) calc \<Rightarrow> calc_error option \<Rightarrow> ('s, 'w) calc_state_w \<Rightarrow> ('s, 'w) calc_state_w" where
  "restorePendingLabelOnGraceBail C err s =
     (case err of
        None \<Rightarrow> s
      | Some e \<Rightarrow>
          if \<not> error_is e errShuttingDown then s
          else let (sm, c, w) = s
               in case isStopping C w of
                    (True, w) \<Rightarrow> (sm, c, w)
                  | (False, w) \<Rightarrow> (sm, c\<lparr>ca_pendingLabelRecheck := True\<rparr>, w))"

text \<open>A turn of the loop of \<open>monitorLabelRecheck\<close>, woken by the channel or by the drain tick. When the state
  machine is busy, a signal is sent to the channel two seconds later; the result says so.\<close>

definition label_recheck_turn :: "('s, 'w) calc \<Rightarrow> bool \<Rightarrow> ('s, 'w) calc_state_w \<Rightarrow> bool \<times> ('s, 'w) calc_state_w" where
  "label_recheck_turn C by_channel s =
     (let (sm, c, w) = s;
          c = (if by_channel then c\<lparr>ca_labelRecheckCh := False\<rparr> else c)
      in if \<not> ca_pendingLabelRecheck c then (False, sm, c, w)
         else let c = c\<lparr>ca_pendingLabelRecheck := False\<rparr>
              in case inRecoveryGrace C w of
                   (True, w) \<Rightarrow> (False, sm, c\<lparr>ca_pendingLabelRecheck := True\<rparr>, w)
                 | (False, w) \<Rightarrow>
                     let (sm, won) = TryClaimRebalancing lifecycleLabelRecheck sm
                     in if \<not> won then (True, sm, c\<lparr>ca_pendingLabelRecheck := True\<rparr>, w)
                        else case RunClaimedRebalanceErr (Some (handlePartitionRebalance C)) lifecycleLabelRecheck (sm, c, w) of
                               (s, err) \<Rightarrow>
                                 (False,
                                  case err of
                                    Some e \<Rightarrow> if error_is e errLabelObservationDeferred then s
                                              else restorePendingLabelOnGraceBail C err s
                                  | None \<Rightarrow> s))"

section \<open>The apply audit\<close>

definition requiredAuditCaps :: "32 word" where
  "requiredAuditCaps = or (or CapAckV1 CapTwoPhaseHandoff) CapProcessingGate"

datatype audit_class = fullyApplied | behind | unverifiable

definition audit_worker :: "assignment_commit \<Rightarrow> heartbeats \<Rightarrow> string \<Rightarrow> audit_class" where
  "audit_worker commit hbs x =
     (case map_of hbs x of
        None \<Rightarrow> unverifiable
      | Some hb \<Rightarrow>
          if hb_SchemaVersion hb = 0 \<or> and (hb_Capabilities hb) CapAckV1 = 0 then unverifiable
          else
            let srcRevMatch = (\<not> cm_SourceRevisionKnown commit \<or>
                  (hb_AppliedSourceRevKnown hb \<and> hb_AppliedSourceRevision hb = cm_SourceRevision commit))
            in case map_of (cm_Payloads commit) x of
                 None \<Rightarrow> behind
               | Some ref \<Rightarrow>
                   if hb_LeaderRevision hb \<noteq> cm_LeaderRevision commit \<or> hb_AppliedVersion hb \<noteq> cm_Version commit \<or>
                      \<not> srcRevMatch \<or> hb_AppliedDigest hb \<noteq> ref_SetDigest ref
                   then behind else fullyApplied)"

definition classifyAuditWorkers :: "assignment_commit \<Rightarrow> heartbeats \<Rightarrow> string list \<times> string list \<times> string list" where
  "classifyAuditWorkers commit hbs =
     (let ws = remdups (cm_Workers commit)
      in (filter (\<lambda>x. audit_worker commit hbs x = fullyApplied) ws, filter (\<lambda>x. audit_worker commit hbs x = behind) ws,
          filter (\<lambda>x. audit_worker commit hbs x = unverifiable) ws))"

definition audit_capable :: "heartbeats \<Rightarrow> string \<Rightarrow> bool" where
  "audit_capable hbs x \<longleftrightarrow>
     and (case map_of hbs x of None \<Rightarrow> 0 | Some hb \<Rightarrow> hb_Capabilities hb) requiredAuditCaps = requiredAuditCaps"

definition maybeEscalateAudit ::
  "('s, 'w) calc \<Rightarrow> string list \<Rightarrow> string list \<Rightarrow> heartbeats \<Rightarrow> ('s, 'w) calc_state_w \<Rightarrow> ('s, 'w) calc_state_w" where
  "maybeEscalateAudit C behinds fulls hbs s =
     (if \<not> EnableTwoPhaseHandoff (cc_config C) then s
      else if filter (audit_capable hbs) behinds = [] then s
      else if filter (audit_capable hbs) fulls = [] then s
      else let (sm, c, w) = s
           in case ce_timeNow (cc_env C) w of (t, w) \<Rightarrow> (EnterScaling t ''audit_repair'' 0 sm, c, w))"

definition auditApplied :: "('s, 'w) calc \<Rightarrow> ('s, 'w) calc_state_w \<Rightarrow> ('s, 'w) calc_state_w" where
  "auditApplied C s =
     (let (sm, c, w) = s
      in case lastCommit (ca_publisher c) of
           None \<Rightarrow> s
         | Some commit \<Rightarrow>
             (case GetHeartbeats (cc_mon C) w of
                ((_, Some _), w) \<Rightarrow> (sm, c, w)
              | ((hbs, None), w) \<Rightarrow>
                  let (fulls, behinds, _) = classifyAuditWorkers commit hbs;
                      observedAt = lastCommitObservedAtMono (ca_publisher c)
                  in case ce_timeNow (cc_env C) w of
                       (t, w) \<Rightarrow>
                         if time_sub t observedAt < ApplyGracePeriod (cc_config C) then (sm, c, w)
                         else case ce_timeNow (cc_env C) w of
                                (t, w) \<Rightarrow>
                                  if time_sub t observedAt < ExtendedApplyGracePeriod (cc_config C) then (sm, c, w)
                                  else maybeEscalateAudit C behinds fulls hbs (sm, c, w)))"

section \<open>Start, stop and manual refresh\<close>

definition monitor_Start :: "'s calculator \<Rightarrow> calc_error option \<times> 's calculator" where
  "monitor_Start c =
     (if ca_monitorStopped c then (Some ErrWorkerMonitorAlreadyStopped, c)
      else if ca_monitorStarted c then (Some ErrWorkerMonitorAlreadyStarted, c)
      else (None, c\<lparr>ca_monitorStarted := True\<rparr>))"

definition monitor_Stop :: "'s calculator \<Rightarrow> 's calculator" where
  "monitor_Stop c = (if ca_monitorStarted c then c\<lparr>ca_monitorStopped := True\<rparr> else c)"

definition calc_Start :: "('s, 'w) calc \<Rightarrow> ('s, 'w) calc_state_w \<Rightarrow> calc_error option \<times> ('s, 'w) calc_state_w" where
  "calc_Start C s =
     (let (sm, c, w) = s
      in if ca_started c then (Some ErrCalculatorAlreadyStarted, s)
         else
           let c = c\<lparr>ca_started := True\<rparr>
           in case DiscoverHighestVersion (cc_pub C) (ca_publisher c) w of
                (r, p, w) \<Rightarrow>
                  let existing = (case r of Inl _ \<Rightarrow> [] | Inr ids \<Rightarrow> ids);
                      c = c\<lparr>ca_publisher := p,
                            ca_currentWorkers := foldl (\<lambda>m x. AList.update x True m) (ca_currentWorkers c) existing\<rparr>;
                      isTakeover = (currentVersion p > 0)
                  in case rebalance C (if isTakeover then ''takeover_immediate'' else ''cold_start_immediate'') c w of
                       (err, c, w) \<Rightarrow>
                         if (case err of None \<Rightarrow> False | Some e \<Rightarrow> \<not> error_is e errLabelObservationDeferred)
                         then (map_option InitialAssignmentFailed err, sm, c\<lparr>ca_started := False\<rparr>, w)
                         else (case monitor_Start (setLastWorkersLocked (ca_currentWorkers c) c) of
                                 (Some e, c) \<Rightarrow> (Some (MonitorStartFailed e), sm, c\<lparr>ca_started := False\<rparr>, w)
                               | (None, c) \<Rightarrow>
                                   (case BootstrapLastCommit (cc_pub C) (ca_publisher c) w of
                                      (p, w) \<Rightarrow>
                                        (None, enterScalingState C (if isTakeover then ''takeover'' else ''cold_start'')
                                           (if isTakeover then PlannedScaleWindow (cc_config C) else ColdStartWindow (cc_config C))
                                           (sm, c\<lparr>ca_publisher := p\<rparr>, w)))))"

definition calc_Stop :: "('s, 'w) calc \<Rightarrow> ('s, 'w) calc_state_w \<Rightarrow> calc_error option \<times> ('s, 'w) calc_state_w" where
  "calc_Stop C s =
     (let (sm, c, w) = s
      in if \<not> ca_started c then (Some ErrCalculatorNotStarted, s)
         else (None, sm\<lparr>sm_stopping := True, sm_stopCh := True\<rparr>,
               (monitor_Stop (c\<lparr>ca_started := False, ca_labelRecheckTimer := None\<rparr>))\<lparr>ca_labelReadModel := None\<rparr>,
               ce_closeStop (cc_env C) w))"

definition TriggerRebalance :: "('s, 'w) calc \<Rightarrow> 's calculator \<Rightarrow> 'w \<Rightarrow> calc_error option \<times> 's calculator \<times> 'w" where
  "TriggerRebalance C c w =
     (if \<not> ca_started c then (Some ErrCalculatorNotStarted, c, w)
      else case rebalance C ''manual-refresh'' c w of
             (Some err, c, w) \<Rightarrow> (if error_is err errLabelObservationDeferred then None else Some err, c, w)
           | (None, c, w) \<Rightarrow> (None, setLastWorkersLocked (ca_currentWorkers c) c, w))"

end
