(* ===== verification/Calculator_Safety.thy ===== *)
theory Calculator_Safety
  imports Calculator Publisher_Safety
begin

text \<open>
  Properties of the calculator: what a rebalance may act on and what it writes, the confirmation window of the
  partition source, which workers an emergency rebalance drops, what becomes of a change of the source, and
  that the label pipeline and the publisher agree on coverage.
\<close>

section \<open>Laws\<close>

text \<open>Whatever the calculator calls besides the publisher leaves the assignment bucket to its other
  writers: each call is a step of \<open>env\<close>.\<close>

definition calc_laws :: "('s, 'w) calc \<Rightarrow> ('w \<Rightarrow> asg_value bucket) \<Rightarrow> ('w \<Rightarrow> 'w \<Rightarrow> bool) \<Rightarrow> bool" where
  "calc_laws C view env \<longleftrightarrow>
     cfg_laws (cc_pub C) view env \<and>
     (\<forall>w. env w (snd (kv_Keys (hb_kv (cc_mon C)) w))) \<and> (\<forall>k w. env w (snd (kv_Get (hb_kv (cc_mon C)) k w))) \<and>
     (\<forall>w. env w (snd (op_Err (cc_mon C) w))) \<and> (\<forall>w. env w (snd (snapshotSource (cc_Source C) w))) \<and>
     (\<forall>w. env w (snd (cc_Now C w))) \<and> (\<forall>w. env w (snd (ce_timeNow (cc_env C) w))) \<and>
     (\<forall>w. env w (snd (ce_stopped (cc_env C) w))) \<and>
     (\<forall>sp w. StateProvider (cc_config C) = Some sp \<longrightarrow>
        env w (snd (sp_Shutdown sp w)) \<and> env w (snd (sp_IsInRecoveryGrace sp w))) \<and>
     (\<forall>f w. cfg_LeaderRevision (cc_config C) = Some f \<longrightarrow> env w (snd (f w))) \<and>
     (\<forall>f e w. OnEnumerationError (cc_config C) = Some f \<longrightarrow> env w (f e w)) \<and>
     (\<forall>f w. OnEnumerationSuccess (cc_config C) = Some f \<longrightarrow> env w (f w)) \<and>
     (\<forall>f e w. OnLabelReadBroadFailure (cc_config C) = Some f \<longrightarrow> env w (f e w))"

lemma calc_pub_laws: "calc_laws C view env \<Longrightarrow> cfg_laws (cc_pub C) view env"
  by (simp add: calc_laws_def)

lemma calc_refl: "calc_laws C view env \<Longrightarrow> env w w"
  by (rule kv_env_refl[OF law_kv[OF calc_pub_laws]])

lemma calc_trans: "calc_laws C view env \<Longrightarrow> env a b \<Longrightarrow> env b c \<Longrightarrow> env a c"
  by (rule kv_env_trans[OF law_kv[OF calc_pub_laws]])

text \<open>The calls, in the form in which they occur.\<close>

lemma calc_calls:
  assumes "calc_laws C view env"
  shows "kv_Keys (hb_kv (cc_mon C)) w = (a, w') \<Longrightarrow> env w w'" "kv_Get (hb_kv (cc_mon C)) k w = (b, w') \<Longrightarrow> env w w'"
    "op_Err (cc_mon C) w = (d, w') \<Longrightarrow> env w w'" "snapshotSource (cc_Source C) w = (e, w') \<Longrightarrow> env w w'"
    "cc_Now C w = (t, w') \<Longrightarrow> env w w'" "ce_timeNow (cc_env C) w = (t, w') \<Longrightarrow> env w w'"
    "isStopping C w = (d, w') \<Longrightarrow> env w w'" "inRecoveryGrace C w = (d, w') \<Longrightarrow> env w w'"
    "shouldDeferForRecoveryGrace C lifecycle w = (d, w') \<Longrightarrow> env w w'" "wrapStopErr C ce w = (ce', w') \<Longrightarrow> env w w'"
    "wrapPublishErr C pe w = (ce', w') \<Longrightarrow> env w w'"
proof -
  note law = assms[unfolded calc_laws_def]
  show "kv_Keys (hb_kv (cc_mon C)) w = (a, w') \<Longrightarrow> env w w'" "kv_Get (hb_kv (cc_mon C)) k w = (b, w') \<Longrightarrow> env w w'"
    "op_Err (cc_mon C) w = (d, w') \<Longrightarrow> env w w'" "snapshotSource (cc_Source C) w = (e, w') \<Longrightarrow> env w w'"
    "cc_Now C w = (t, w') \<Longrightarrow> env w w'" "ce_timeNow (cc_env C) w = (t, w') \<Longrightarrow> env w w'"
    using law by (metis snd_conv)+
  show st: "isStopping C w = (d, w') \<Longrightarrow> env w w'" for d w w' using law unfolding isStopping_def by (metis snd_conv)
  show gr: "inRecoveryGrace C w = (d, w') \<Longrightarrow> env w w'" for d w'
  proof (cases "StateProvider (cc_config C)")
    case (Some sp)
    assume "inRecoveryGrace C w = (d, w')"
    moreover have "env w (snd (sp_IsInRecoveryGrace sp w))" using law Some by blast
    ultimately show "env w w'" by (simp add: inRecoveryGrace_def Some)
  qed (use calc_refl[OF assms] in \<open>auto simp: inRecoveryGrace_def\<close>)
  show "shouldDeferForRecoveryGrace C lifecycle w = (d, w') \<Longrightarrow> env w w'"
    using gr calc_refl[OF assms] unfolding shouldDeferForRecoveryGrace_def by (auto split: if_splits)
  show ws: "wrapStopErr C ce w = (ce', w') \<Longrightarrow> env w w'" for ce
    using st unfolding wrapStopErr_def by (auto split: prod.splits)
  show "wrapPublishErr C pe w = (ce', w') \<Longrightarrow> env w w'"
    using ws calc_refl[OF assms] unfolding wrapPublishErr_def by (auto split: if_splits)
qed

text \<open>The parts of a rebalance before the publish: steps of \<open>env\<close> that leave the publisher alone.\<close>

abbreviation undisturbed ::
  "('w \<Rightarrow> 'w \<Rightarrow> bool) \<Rightarrow> 's calculator \<times> 'w \<Rightarrow> 's calculator \<times> 'w \<Rightarrow> bool" where
  "undisturbed env s s' \<equiv> env (snd s) (snd s') \<and> ca_publisher (fst s') = ca_publisher (fst s)"

lemma heartbeats_for_env:
  assumes "calc_laws C view env"
  shows "heartbeats_for (cc_mon C) ids out fails w = (r, w') \<Longrightarrow> env w w'"
proof (induction ids arbitrary: out fails w)
  case (Cons i ids)
  obtain b w1 where 1: "op_Err (cc_mon C) w = (b, w1)" by fastforce
  obtain g w2 where 2: "kv_Get (hb_kv (cc_mon C)) (hbPrefix (cc_mon C) @ ''.'' @ i) w1 = (g, w2)" by fastforce
  have s: "env w w1" "env w1 w2" using calc_calls(2,3)[OF assms] 1 2 by blast+
  then have "env w w2" using calc_trans[OF assms] by blast
  show ?case
  proof (cases b)
    case True
    then show ?thesis using Cons.prems s 1 by (simp add: heartbeats_for.simps)
  next
    case False
    then have "\<exists>out fails. heartbeats_for (cc_mon C) ids out fails w2 = (r, w')"
      using Cons.prems 1 2 by (auto simp: heartbeats_for.simps split: sum.splits option.splits)
    then show ?thesis using Cons.IH \<open>env w w2\<close> calc_trans[OF assms] by blast
  qed
qed (use calc_refl[OF assms] in auto)

lemma readWorkerLabels_env:
  assumes L: "calc_laws C view env" and r: "readWorkerLabels C workers w = (r, w')"
  shows "env w w'"
proof -
  obtain hbs fails ab w1 where 1: "GetHeartbeatsFor (cc_mon C) workers w = ((hbs, fails, ab), w1)" by (metis prod_cases3 prod.exhaust)
  obtain hbs2 fails2 ab2 w2 where 2: "GetHeartbeatsFor (cc_mon C) (missingWorkers workers hbs) w1 = ((hbs2, fails2, ab2), w2)"
    by (metis prod_cases3 prod.exhaust)
  have e: "env w w1" "env w1 w2" using heartbeats_for_env[OF L] 1 2 unfolding GetHeartbeatsFor_def by blast+
  have "w' = w1 \<or> w' = w2"
    using r by (auto simp: readWorkerLabels_def 1 2 Let_def split: if_splits option.splits bool.splits)
  then show ?thesis using e calc_trans[OF L] by blast
qed

text \<open>An enumeration changes the failure counter, the shrink counter and the cache only.\<close>

lemma getActiveWorkers_env:
  assumes L: "calc_laws C view env" and r: "getActiveWorkers C c w = (r, c', w')"
  shows "env w w' \<and> (\<exists>n m k. c' = c\<lparr>ca_enumFailures := n, ca_workerShrunkObservations := m, ca_cachedWorkers := k\<rparr>)"
proof -
  obtain g w1 where 1: "GetActiveWorkers (cc_mon C) w = (g, w1)" by fastforce
  have e1: "env w w1"
  proof -
    obtain k w2 where k: "kv_Keys (hb_kv (cc_mon C)) w = (k, w2)" by fastforce
    then have "w2 = w1" using 1 by (auto simp: GetActiveWorkers_def split: sum.splits kv_error.splits)
    then show ?thesis using calc_calls(1)[OF L k] by simp
  qed
  have t: "env u (snd (ce_timeNow (cc_env C) u))" for u using L by (simp add: calc_laws_def)
  have s: "env w1 (f w1)" if "OnEnumerationSuccess (cc_config C) = Some f" for f
    using L that by (simp add: calc_laws_def)
  have "env w1 w2 \<Longrightarrow> env w w2" for w2 using e1 calc_trans[OF L] by blast
  moreover have "env w1 w1" by (rule calc_refl[OF L])
  moreover have "env w1 (f e w1)" if "OnEnumerationError (cc_config C) = Some f" for f e
    using L that by (simp add: calc_laws_def)
  moreover have "env w1 (f w1)" "env w1 (snd (ce_timeNow (cc_env C) (f w1)))" if "OnEnumerationSuccess (cc_config C) = Some f" for f
    using s[OF that] t calc_trans[OF L] by blast+
  ultimately have "env w w'" using r 1 t
    by (auto simp: getActiveWorkers_def recordEnumerationFailure_def resetEnumerationFailures_def recordWorkerObservation_def
        updateCachedWorkers_def Let_def case_prod_unfold split: sum.splits if_splits option.splits)
  moreover have "\<exists>n m k. c' = c\<lparr>ca_enumFailures := n, ca_workerShrunkObservations := m, ca_cachedWorkers := k\<rparr>"
    using r 1 by (cases c)
      (auto simp: getActiveWorkers_def recordEnumerationFailure_def resetEnumerationFailures_def recordWorkerObservation_def
        updateCachedWorkers_def Let_def case_prod_unfold split: sum.splits if_splits option.splits)
  ultimately show ?thesis by blast
qed

lemma getActiveWorkers_seen:
  assumes "getActiveWorkers C c w = (Inr (ws, fresh), c', w')"
  shows "if fresh then \<exists>u'. GetActiveWorkers (cc_mon C) w = (Inr ws, u') else \<exists>t. ca_cachedWorkers c = Some (ws, t)"
  using assms
  by (cases "GetActiveWorkers (cc_mon C) w")
    (auto simp: getActiveWorkers_def recordEnumerationFailure_def resetEnumerationFailures_def recordWorkerObservation_def
      updateCachedWorkers_def cacheFallbackOrDegraded_def getCachedWorkers_def Let_def case_prod_unfold
      split: sum.splits if_splits option.splits prod.splits)

section \<open>What a rebalance acts on\<close>

text \<open>The workers of a rebalance: an enumeration made during it, or the cached one, and in an emergency
  without the workers that were confirmed dead.\<close>

definition observed_workers ::
  "('s, 'w) calc \<Rightarrow> ('w \<Rightarrow> 'w \<Rightarrow> bool) \<Rightarrow> string \<Rightarrow> 's calculator \<Rightarrow> 'w \<Rightarrow> string list \<Rightarrow> bool \<Rightarrow> bool" where
  "observed_workers C env lifecycle c w ws fresh \<longleftrightarrow>
     (\<exists>base. ws = filter (\<lambda>x. lifecycle = ''emergency'' \<longrightarrow> x \<notin> set (ca_disappearedWorkers c)) base \<and>
        (if fresh then \<exists>u u'. env w u \<and> GetActiveWorkers (cc_mon C) u = (Inr base, u')
         else \<exists>t. ca_cachedWorkers c = Some (base, t)))"

lemma collect_props:
  assumes L: "calc_laws C view env" and r: "collectRebalanceWorkers C lifecycle c w = (r, c', w')"
  shows "env w w'"
    "\<exists>n m k d dis. c' = c\<lparr>ca_enumFailures := n, ca_workerShrunkObservations := m, ca_cachedWorkers := k, ca_detector := d,
       ca_disappearedWorkers := dis\<rparr>"
    "r = Inr (ws, deaths, fresh) \<Longrightarrow> deaths = (ca_disappearedWorkers c \<noteq> []) \<and> observed_workers C env lifecycle c w ws fresh"
proof -
  let ?em = "lifecycle = ''emergency''"
  define c0 where "c0 = (if ?em then c\<lparr>ca_disappearedWorkers := []\<rparr> else c)"
  define dis where "dis = (if ?em then ca_disappearedWorkers c else [])"
  obtain g c1 w1 where 1: "getActiveWorkers C c0 w = (g, c1, w1)" by (metis prod_cases3)
  note e1 = getActiveWorkers_env[OF L 1]
  have "env w w' \<and> (\<exists>n m k d dis. c' = c\<lparr>ca_enumFailures := n, ca_workerShrunkObservations := m, ca_cachedWorkers := k, ca_detector := d,
       ca_disappearedWorkers := dis\<rparr>)"
  proof -
    obtain n m k where c1: "c1 = c0\<lparr>ca_enumFailures := n, ca_workerShrunkObservations := m, ca_cachedWorkers := k\<rparr>" using e1 by blast
    have "env w w'" using r e1 calc_trans[OF L, of w w1] calc_calls(10)[OF L]
      by (fastforce simp: collectRebalanceWorkers_def getActiveWorkersFiltered_def 1 c0_def[symmetric] dis_def[symmetric] Let_def
          split: sum.splits prod.splits if_splits)
    moreover have "\<exists>d. c' = c1\<lparr>ca_detector := d\<rparr>"
      using r by (cases c1) (auto simp: collectRebalanceWorkers_def getActiveWorkersFiltered_def 1 c0_def[symmetric] dis_def[symmetric] Let_def
          split: sum.splits prod.splits if_splits)
    ultimately show ?thesis using c1 by (cases c) (auto simp: c0_def)
  qed
  then show "env w w'" "\<exists>n m k d dis. c' = c\<lparr>ca_enumFailures := n, ca_workerShrunkObservations := m, ca_cachedWorkers := k,
      ca_detector := d, ca_disappearedWorkers := dis\<rparr>" by blast+
  assume "r = Inr (ws, deaths, fresh)"
  then obtain base where b: "g = Inr (base, fresh)" "ws = filter (\<lambda>x. x \<notin> set dis) base" "deaths = (ca_disappearedWorkers c \<noteq> [])"
    using r by (auto simp: collectRebalanceWorkers_def getActiveWorkersFiltered_def 1 c0_def[symmetric] dis_def[symmetric] Let_def
        split: sum.splits prod.splits if_splits)
  have "ws = filter (\<lambda>x. ?em \<longrightarrow> x \<notin> set (ca_disappearedWorkers c)) base" by (simp add: b(2) dis_def)
  then show "deaths = (ca_disappearedWorkers c \<noteq> []) \<and> observed_workers C env lifecycle c w ws fresh"
    using getActiveWorkers_seen[OF 1[unfolded b(1)]] calc_refl[OF L] b(3)
    unfolding observed_workers_def by (auto simp: c0_def split: if_splits)
qed

text \<open>The guards.\<close>

definition guards_pass :: "('s, 'w) calc \<Rightarrow> observation \<Rightarrow> 's calculator \<Rightarrow> bool" where
  "guards_pass C ob c \<longleftrightarrow> ob_workers ob \<noteq> [] \<and>
     (ob_deathsConfirmed ob \<or> \<not> workerObservationSuspicious C (length (ob_workers ob)) c) \<and>
     \<not> fst (partitionInputCredibilityGuard C (length (elems (ob_partitions ob))) c)"

lemma guard_cong:
  "ca_lastKnownPartitionCount c = ca_lastKnownPartitionCount c' \<Longrightarrow> ca_partitionShrunkObservations c = ca_partitionShrunkObservations c' \<Longrightarrow>
    fst (partitionInputCredibilityGuard C n c) = fst (partitionInputCredibilityGuard C n c')"
  by (simp add: partitionInputCredibilityGuard_def Let_def)

lemma suspicious_cong:
  "ca_lastKnownWorkerCount c = ca_lastKnownWorkerCount c' \<Longrightarrow> workerObservationSuspicious C n c = workerObservationSuspicious C n c'"
  by (simp add: workerObservationSuspicious_def)

lemma guards_props:
  assumes "rebalance_guards C ob c = (r, c')"
  shows "\<exists>n m k. c' = c\<lparr>ca_lastKnownWorkerCount := n, ca_lastKnownPartitionCount := m, ca_partitionShrunkObservations := k\<rparr>"
    "r = Inr ob' \<Longrightarrow> ob' = ob \<and> guards_pass C ob c" "r = Inl None \<Longrightarrow> ob_workers ob = []"
  using assms
  by (cases c, auto simp: rebalance_guards_def worker_floor_def partitionInputCredibilityGuard_def guards_pass_def
      workerObservationSuspicious_def Let_def split: if_splits bool.splits)

text \<open>What a rebalance has observed before it derives the assignments.\<close>

definition credible :: "('s, 'w) calc \<Rightarrow> ('w \<Rightarrow> 'w \<Rightarrow> bool) \<Rightarrow> string \<Rightarrow> observation \<Rightarrow> 's calculator \<Rightarrow> 'w \<Rightarrow> bool" where
  "credible C env lifecycle ob c w \<longleftrightarrow>
     observed_workers C env lifecycle c w (ob_workers ob) (ob_fresh ob) \<and>
     ob_deathsConfirmed ob = (ca_disappearedWorkers c \<noteq> []) \<and>
     (\<exists>u u'. env w u \<and> snapshotSource (cc_Source C) u = (Inr (ob_partitions ob, ob_srcRev ob, ob_srcKnown ob), u')) \<and>
     guards_pass C ob c"

definition keeps :: "'s calculator \<Rightarrow> 's calculator \<Rightarrow> bool" where
  "keeps c c' \<longleftrightarrow> ca_publisher c' = ca_publisher c \<and> ca_currentWorkers c' = ca_currentWorkers c \<and>
     ca_lastPublishedPartitions c' = ca_lastPublishedPartitions c \<and> ca_lastWorkers c' = ca_lastWorkers c \<and>
     ca_pendingPartitionUpdate c' = ca_pendingPartitionUpdate c"

lemma snapshot_props:
  assumes L: "calc_laws C view env" and r: "rebalance_snapshot C ws deaths fresh c w = (r, c', w')"
  shows "env w w'"
    "\<exists>n m k. c' = c\<lparr>ca_lastKnownWorkerCount := n, ca_lastKnownPartitionCount := m, ca_partitionShrunkObservations := k\<rparr>"
    "r = Inr ob \<Longrightarrow> ob_workers ob = ws \<and> ob_deathsConfirmed ob = deaths \<and> ob_fresh ob = fresh \<and> guards_pass C ob c \<and>
       (\<exists>u u'. env w u \<and> snapshotSource (cc_Source C) u = (Inr (ob_partitions ob, ob_srcRev ob, ob_srcKnown ob), u'))"
    "r = Inl None \<Longrightarrow> ws = []"
proof -
  define w1 where "w1 = (if length ws = Suc 0 then snd (kv_Keys (hb_kv (cc_mon C)) w) else w)"
  obtain sn w2 where 2: "snapshotSource (cc_Source C) w1 = (sn, w2)" by fastforce
  have e1: "env w w1" using L calc_refl[OF L] by (simp add: calc_laws_def w1_def)
  have e2: "env w w2" using calc_trans[OF L e1 calc_calls(4)[OF L 2]] .
  note un = rebalance_snapshot_def 2[unfolded w1_def] Let_def
  have "env w w' \<and> (\<exists>n m k. c' = c\<lparr>ca_lastKnownWorkerCount := n, ca_lastKnownPartitionCount := m, ca_partitionShrunkObservations := k\<rparr>) \<and>
    (\<forall>ob. r = Inr ob \<longrightarrow> ob_workers ob = ws \<and> ob_deathsConfirmed ob = deaths \<and> ob_fresh ob = fresh \<and> guards_pass C ob c \<and>
       (\<exists>u u'. env w u \<and> snapshotSource (cc_Source C) u = (Inr (ob_partitions ob, ob_srcRev ob, ob_srcKnown ob), u'))) \<and>
    (r = Inl None \<longrightarrow> ws = [])"
  proof (cases sn)
    case (Inl e)
    obtain e' w3 where 3: "wrapStopErr C (SnapshotFailed e) w2 = (e', w3)" by fastforce
    then have "w' = w3" "c' = c" "r = Inl (Some e')" using r Inl by (auto simp: un)
    then show ?thesis using calc_trans[OF L e2 calc_calls(10)[OF L 3]] by (cases c) auto
  next
    case (Inr y)
    obtain ps rv kn where y: "y = (ps, rv, kn)" by (metis prod_cases3)
    define ob where "ob = \<lparr>ob_workers = ws, ob_deathsConfirmed = deaths, ob_fresh = fresh, ob_partitions = ps, ob_srcRev = rv, ob_srcKnown = kn\<rparr>"
    have g: "rebalance_guards C ob c = (r, c')" "w' = w2"
      using r Inr y by (auto simp: un ob_def split: prod.splits)
    note p = guards_props[OF g(1)]
    have "snapshotSource (cc_Source C) w1 = (Inr (ob_partitions ob, ob_srcRev ob, ob_srcKnown ob), w2)"
      using 2 Inr y by (simp add: ob_def)
    then have "\<exists>u u'. env w u \<and> snapshotSource (cc_Source C) u = (Inr (ob_partitions ob, ob_srcRev ob, ob_srcKnown ob), u')"
      using e1 by blast
    moreover have "ob_workers ob = ws" "ob_deathsConfirmed ob = deaths" "ob_fresh ob = fresh" by (simp_all add: ob_def)
    ultimately show ?thesis using p e2 g(2) by blast
  qed
  then show "env w w'"
    "\<exists>n m k. c' = c\<lparr>ca_lastKnownWorkerCount := n, ca_lastKnownPartitionCount := m, ca_partitionShrunkObservations := k\<rparr>"
    "r = Inr ob \<Longrightarrow> ob_workers ob = ws \<and> ob_deathsConfirmed ob = deaths \<and> ob_fresh ob = fresh \<and> guards_pass C ob c \<and>
       (\<exists>u u'. env w u \<and> snapshotSource (cc_Source C) u = (Inr (ob_partitions ob, ob_srcRev ob, ob_srcKnown ob), u'))"
    "r = Inl None \<Longrightarrow> ws = []" by blast+
qed

lemma observe_props:
  assumes L: "calc_laws C view env" and r: "rebalance_observe C lifecycle c w = (r, c', w')"
  shows "env w w' \<and> keeps c c' \<and> ca_strategy c' = ca_strategy c \<and> ca_labelState c' = ca_labelState c \<and>
      ca_pendingLabelRecheck c' = ca_pendingLabelRecheck c"
    "r = Inr ob \<Longrightarrow> credible C env lifecycle ob c w"
    "r = Inl None \<Longrightarrow> \<exists>fresh. observed_workers C env lifecycle c w [] fresh"
proof -
  obtain b w1 where 1: "shouldDeferForRecoveryGrace C lifecycle w = (b, w1)" by fastforce
  obtain g c2 w2 where 2: "collectRebalanceWorkers C lifecycle c w1 = (g, c2, w2)" by (metis prod_cases3)
  have e1: "env w w1" using calc_calls(9)[OF L 1] .
  note p2 = collect_props[OF L 2]
  have e2: "env w w2" using calc_trans[OF L e1 p2(1)] .
  have k2: "keeps c c2 \<and> ca_strategy c2 = ca_strategy c \<and> ca_labelState c2 = ca_labelState c \<and>
      ca_pendingLabelRecheck c2 = ca_pendingLabelRecheck c \<and> ca_lastKnownPartitionCount c2 = ca_lastKnownPartitionCount c \<and>
      ca_partitionShrunkObservations c2 = ca_partitionShrunkObservations c \<and> ca_lastKnownWorkerCount c2 = ca_lastKnownWorkerCount c"
    using p2(2) by (auto simp: keeps_def)
  have seen: "observed_workers C env lifecycle c w ws fresh" if "observed_workers C env lifecycle c w1 ws fresh" for ws fresh
    using that calc_trans[OF L e1] unfolding observed_workers_def by (metis (no_types, lifting))
  have "env w w' \<and> keeps c c' \<and> ca_strategy c' = ca_strategy c \<and> ca_labelState c' = ca_labelState c \<and>
      ca_pendingLabelRecheck c' = ca_pendingLabelRecheck c \<and>
      (\<forall>ob. r = Inr ob \<longrightarrow> credible C env lifecycle ob c w) \<and>
      (r = Inl None \<longrightarrow> (\<exists>fresh. observed_workers C env lifecycle c w [] fresh))"
  proof (cases "b \<or> (\<exists>e. g = Inl e)")
    case True
    then show ?thesis using r e1 e2 k2 by (auto simp: rebalance_observe_def 1 2 keeps_def split: bool.splits)
  next
    case False
    then obtain ws deaths fresh where g: "g = Inr (ws, deaths, fresh)" by (metis prod_cases3 sum.exhaust)
    have s: "rebalance_snapshot C ws deaths fresh c2 w2 = (r, c', w')" using r False g by (auto simp: rebalance_observe_def 1 2)
    note p3 = snapshot_props[OF L s] and o = p2(3)[OF g]
    have "guards_pass C ob c2 = guards_pass C ob c" for ob
      using guard_cong[of c2 c C] suspicious_cong[of c2 c C] k2 by (simp add: guards_pass_def)
    then have "credible C env lifecycle ob c w" if "r = Inr ob" for ob
      using p3(3)[OF that] o seen calc_trans[OF L e2] unfolding credible_def by blast
    moreover have "\<exists>fresh. observed_workers C env lifecycle c w [] fresh" if "r = Inl None"
      using p3(4)[OF that] o seen[of ws fresh] by auto
    ultimately show ?thesis using p3(2) k2 calc_trans[OF L e2 p3(1)] by (auto simp: keeps_def)
  qed
  then show "env w w' \<and> keeps c c' \<and> ca_strategy c' = ca_strategy c \<and> ca_labelState c' = ca_labelState c \<and>
      ca_pendingLabelRecheck c' = ca_pendingLabelRecheck c"
    "r = Inr ob \<Longrightarrow> credible C env lifecycle ob c w"
    "r = Inl None \<Longrightarrow> \<exists>fresh. observed_workers C env lifecycle c w [] fresh" by blast+
qed

text \<open>The derivation of the assignments: the label state, the strategy and the re-check flag change only.\<close>

lemma derive_props:
  assumes L: "calc_laws C view env" and r: "deriveRebalanceAssignments C ws ps c w = (r, c', w')"
  shows "env w w' \<and> keeps c c' \<and> (\<forall>e. r = Inl e \<longrightarrow> error_is e errLabelObservationDeferred \<longrightarrow> ca_pendingLabelRecheck c') \<and>
    (ca_pendingLabelRecheck c \<longrightarrow> ca_pendingLabelRecheck c')"
proof -
  obtain l w1 where 1: "readWorkerLabels C ws w = (l, w1)" by fastforce
  obtain t w2 where 2: "cc_Now C w1 = (t, w2)" by fastforce
  have e1: "env w w1" using readWorkerLabels_env[OF L 1] .
  have e2: "env w w2" using calc_trans[OF L e1 calc_calls(5)[OF L 2]] .
  have st: "env w (snd (isStopping C u))" "env w (snd (wrapStopErr C e u))" if "env w u" for u e
    using that calc_trans[OF L that] calc_calls(7,10)[OF L] prod.collapse by metis+
  have cb: "env w (f x u)" if "env w u" "OnLabelReadBroadFailure (cc_config C) = Some f" for f x u
    using calc_trans[OF L that(1), of "f x u"] L that(2) by (auto simp: calc_laws_def)
  obtain g c3 w3 where 3: "labelRoutedAssignments C ws ps c w = (g, c3, w3)" by (metis prod_cases3)
  have e3: "env w w3" "keeps c c3" "ca_pendingLabelRecheck c3 = ca_pendingLabelRecheck c"
    using 3 e1 e2 by (auto simp: labelRoutedAssignments_def 1 2 keeps_def Let_def split: sum.splits prod.splits if_splits)
  show ?thesis
  proof (cases g)
    case (Inl err)
    define w4 where "w4 = (case err of
         errLabelReadBroadFailure f \<Rightarrow>
           (case OnLabelReadBroadFailure (cc_config C) of
              None \<Rightarrow> w3
            | Some cb \<Rightarrow> (case isStopping C w3 of (stopped, w) \<Rightarrow> if stopped then w else cb f w))
       | _ \<Rightarrow> w3)"
    have "env w w4" using e3(1) st(1)[OF e3(1)] cb by (auto simp: w4_def split: calc_error.splits option.splits prod.splits)
    moreover have "w' = snd (wrapStopErr C err w4)" "c' = c3" "r = Inl (fst (wrapStopErr C err w4))"
      using r Inl by (auto simp: deriveRebalanceAssignments_def 3 w4_def split: prod.splits)
    moreover have "\<not> error_is (fst (wrapStopErr C err w4)) errLabelObservationDeferred"
      using 3 Inl by (auto simp: wrapStopErr_def labelRoutedAssignments_def 1 2 Let_def split: sum.splits prod.splits if_splits)
    ultimately show ?thesis using st(2) e3(2,3) by simp
  next
    case (Inr res)
    then show ?thesis using r e3
      by (auto simp: deriveRebalanceAssignments_def 3 requestLabelRecheck_def reasonNonFreshObservation_def keeps_def Let_def
          split: option.splits)
  qed
qed

lemma partitionsContentEqual_eq: "partitionsContentEqual a b \<longleftrightarrow> a = b"
proof -
  have "length a = length b \<Longrightarrow> content_equal a b \<longleftrightarrow> a = b"
    by (induction a b rule: content_equal.induct) auto
  then show ?thesis by (auto simp: partitionsContentEqual_def)
qed

text \<open>The last commit covers a cached observation.\<close>

definition covered_by_commit :: "observation \<Rightarrow> 's calculator \<Rightarrow> bool" where
  "covered_by_commit ob c \<longleftrightarrow> (\<exists>commit. lastCommit (ca_publisher c) = Some commit \<and>
     length (cm_Payloads commit) = length (ob_workers ob) \<and> set (ob_workers ob) \<subseteq> fst ` set (cm_Payloads commit) \<and>
     (ob_srcKnown ob \<and> cm_SourceRevisionKnown commit \<and> ob_srcRev ob = cm_SourceRevision commit \<or>
      ca_lastPublishedPartitions c = Some (elems (ob_partitions ob))))"

lemma replayable_iff:
  "cachedObservationReplayable (ob_workers ob) (elems (ob_partitions ob)) (ob_srcRev ob) (ob_srcKnown ob) c \<longleftrightarrow> covered_by_commit ob c"
  by (auto simp: cachedObservationReplayable_def covered_by_commit_def partitionsContentEqual_eq list_all_iff
      map_of_eq_None_iff split: option.splits if_splits)

text \<open>The publish and what follows it.\<close>

lemma publish_step:
  assumes L: "calc_laws C view env" and r: "rebalance_publish C lifecycle ob res c2 w2 = (r, c', w')"
    and e: "env w w2" "keeps c c2"
  shows "env w w' \<and> ca_publisher c' = ca_publisher c \<and> r \<noteq> None \<or>
    (\<exists>rev w3 w4 rp. env w w3 \<and> Publish (cc_pub C) (ce_hash (cc_env C)) (ce_xxh3 (cc_env C)) (ce_sort (cc_env C))
         (publish_input_of lifecycle ob res rev c) (ca_publisher c) w3 = (rp, ca_publisher c', w4) \<and>
       env w4 w' \<and> (r = None \<longleftrightarrow> rp = None))"
proof -
  obtain b w3 where 3: "(case StateProvider (cc_config C) of None \<Rightarrow> (False, w2) | Some sp \<Rightarrow> sp_Shutdown sp w2) = (b, w3)" by fastforce
  obtain rev w4 where 4: "(case cfg_LeaderRevision (cc_config C) of None \<Rightarrow> (0, w3) | Some f \<Rightarrow> f w3) = (rev, w4)" by fastforce
  have "env w2 w3" using 3 L calc_refl[OF L] by (auto simp: calc_laws_def split: option.splits) (metis snd_conv)
  then have e3: "env w w3" using calc_trans[OF L e(1)] by blast
  have "env w3 w4" using 4 L calc_refl[OF L] by (auto simp: calc_laws_def split: option.splits) (metis snd_conv)
  then have e4: "env w w4" using calc_trans[OF L e3] by blast
  have inp: "publish_input_of lifecycle ob res rev c2 = publish_input_of lifecycle ob res rev c"
    using e(2) by (simp add: publish_input_of_def keeps_def)
  obtain rp p w5 where 5: "Publish (cc_pub C) (ce_hash (cc_env C)) (ce_xxh3 (cc_env C)) (ce_sort (cc_env C))
      (publish_input_of lifecycle ob res rev c) (ca_publisher c) w4 = (rp, p, w5)" by (metis prod_cases3)
  note un = rebalance_publish_def 3 4 inp 5
  show ?thesis
  proof (cases b)
    case True
    then show ?thesis using r e3 e(2) by (auto simp: rebalance_publish_def 3 keeps_def)
  next
    case False
    have "ca_publisher c2 = ca_publisher c" using e(2) by (simp add: keeps_def)
    then have r': "(case (rp, p, w5) of
          (Some err, p, w) \<Rightarrow> (case wrapPublishErr C err w of (e, w) \<Rightarrow> (Some e, c2\<lparr>ca_publisher := p\<rparr>, w))
        | (None, p, w) \<Rightarrow> (case after_publish C ob res (c2\<lparr>ca_publisher := p\<rparr>) w of (c, w) \<Rightarrow> (None, c, w))) = (r, c', w')"
      using r False by (simp add: un)
    have "env w5 w' \<and> ca_publisher c' = p \<and> (r = None \<longleftrightarrow> rp = None)"
    proof (cases rp)
      case (Some err)
      then show ?thesis using r' calc_calls(11)[OF L] by (auto split: prod.splits)
    next
      case None
      have "env w5 (snd (cc_Now C w5))" using L by (simp add: calc_laws_def)
      then show ?thesis using r' None calc_refl[OF L]
        by (auto simp: after_publish_def armLabelRecheckAfterRebalance_def retainLabelReadModel_def Let_def split: prod.splits if_splits)
    qed
    then show ?thesis using 5 e4 by blast
  qed
qed

text \<open>C6: What a rebalance acts on. Whatever the stores answer and other clients do meanwhile, a rebalance either
  writes nothing and leaves the publisher as it is, and then it returns without error only if it saw no worker or if
  the last commit provably covers a cached observation exactly; or it publishes, and then the worker list is
  an enumeration made during the call or, in an emergency with confirmed deaths, the cached one without the
  dead, its size passed the worker floor or deaths are confirmed, the partitions are a snapshot taken during the
  call whose size passed the credibility guard, and the call returns without error exactly if the publish did.\<close>

theorem rebalance_outcomes:
  assumes "calc_laws C view env" "rebalance C lifecycle c w = (r, c', w')"
  shows "env w w' \<and> ca_publisher c' = ca_publisher c \<and>
      (r = None \<longrightarrow> (\<exists>fresh. observed_workers C env lifecycle c w [] fresh) \<or>
         (\<exists>ob. credible C env lifecycle ob c w \<and> covered_by_commit ob c)) \<or>
    (\<exists>ob res rev w1 w2 rp. credible C env lifecycle ob c w \<and>
       (ob_fresh ob \<or> lifecycle = ''emergency'' \<and> ob_deathsConfirmed ob) \<and> env w w1 \<and>
       Publish (cc_pub C) (ce_hash (cc_env C)) (ce_xxh3 (cc_env C)) (ce_sort (cc_env C))
         (publish_input_of lifecycle ob res rev c) (ca_publisher c) w1 = (rp, ca_publisher c', w2) \<and>
       env w2 w' \<and> (r = None \<longleftrightarrow> rp = None))"
proof -
  note L = assms(1)
  obtain g c1 w1 where 1: "rebalance_observe C lifecycle c w = (g, c1, w1)" by (metis prod_cases3)
  note o = observe_props[OF L 1]
  show ?thesis
  proof (cases g)
    case (Inl e)
    then show ?thesis using assms(2) o(1,3) by (auto simp: rebalance_def 1 keeps_def)
  next
    case (Inr ob)
    note cr = o(2)[OF Inr]
    obtain d c2 w2 where 2: "rebalance_derive C lifecycle ob c1 w1 = (d, c2, w2)" by (metis prod_cases3)
    have rb: "rebalance C lifecycle c w = (case d of Inl r \<Rightarrow> (r, c2, w2) | Inr res \<Rightarrow> rebalance_publish C lifecycle ob res c2 w2)"
      by (simp add: rebalance_def 1 Inr 2 split: sum.split)
    show ?thesis
    proof (cases "trusted lifecycle ob")
      case False
      then have "d = Inl (if covered_by_commit ob c1 then None else Some errLabelObservationDeferred)" "w2 = w1" "ca_publisher c2 = ca_publisher c1"
        using 2 by (auto simp: rebalance_derive_def rebalanceOnCachedObservation_def requestLabelRecheck_def replayable_iff Let_def)
      moreover have "covered_by_commit ob c1 = covered_by_commit ob c" using o(1) by (simp add: covered_by_commit_def keeps_def)
      ultimately show ?thesis using assms(2) rb cr o(1) by (auto simp: keeps_def)
    next
      case True
      obtain x where 3: "deriveRebalanceAssignments C (ob_workers ob) (elems (ob_partitions ob)) c1 w1 = (x, c2, w2)"
          "d = (case x of Inl e \<Rightarrow> Inl (Some e) | Inr res \<Rightarrow> Inr res)"
        using 2 True by (auto simp: rebalance_derive_def split: prod.splits sum.splits)
      note p3 = derive_props[OF L 3(1)]
      have e2: "env w w2" "keeps c c2" using calc_trans[OF L] o(1) p3 by (auto simp: keeps_def)
      show ?thesis
      proof (cases x)
        case (Inl e)
        then show ?thesis using assms(2) rb 3(2) e2 by (auto simp: keeps_def)
      next
        case xr: (Inr res)
        then have "rebalance_publish C lifecycle ob res c2 w2 = (r, c', w')" using assms(2) rb 3(2) by simp
        from publish_step[OF L this e2] cr True show ?thesis unfolding trusted_def by blast
      qed
    qed
  qed
qed

section \<open>Changes of the partition source\<close>

text \<open>A rebalance leaves the flag of the partition monitor alone, sets the flag of the label monitor but never
  clears it, and sets it whenever it defers.\<close>

lemma wrapStopErr_not_deferred:
  "wrapStopErr C err w = (e, w') \<Longrightarrow> \<not> error_is err errLabelObservationDeferred \<Longrightarrow> \<not> error_is e errLabelObservationDeferred"
  by (auto simp: wrapStopErr_def split: prod.splits if_splits)

lemma getActiveWorkers_not_deferred:
  "getActiveWorkers C c w = (Inl e, c', w') \<Longrightarrow> \<not> error_is e errLabelObservationDeferred"
  by (auto simp: getActiveWorkers_def cacheFallbackOrDegraded_def split: prod.splits sum.splits if_splits option.splits)

lemma collect_not_deferred:
  "collectRebalanceWorkers C lifecycle c w = (Inl e, c', w') \<Longrightarrow> \<not> error_is e errLabelObservationDeferred"
  by (auto simp: collectRebalanceWorkers_def getActiveWorkersFiltered_def Let_def dest!: getActiveWorkers_not_deferred
      wrapStopErr_not_deferred split: prod.splits sum.splits if_splits)

lemma snapshot_not_deferred:
  "rebalance_snapshot C ws deaths fresh c w = (Inl (Some e), c', w') \<Longrightarrow> \<not> error_is e errLabelObservationDeferred"
  by (auto simp: rebalance_snapshot_def rebalance_guards_def Let_def dest!: wrapStopErr_not_deferred
      split: prod.splits sum.splits if_splits bool.splits)

lemma observe_not_deferred:
  "rebalance_observe C lifecycle c w = (Inl (Some e), c', w') \<Longrightarrow> \<not> error_is e errLabelObservationDeferred"
  by (auto simp: rebalance_observe_def dest!: collect_not_deferred snapshot_not_deferred split: prod.splits sum.splits bool.splits)

lemma after_publish_flags:
  "after_publish C ob res c w = (c', w') \<Longrightarrow> ca_pendingPartitionUpdate c' = ca_pendingPartitionUpdate c \<and>
    ca_pendingLabelRecheck c' = ca_pendingLabelRecheck c"
  by (auto simp: after_publish_def armLabelRecheckAfterRebalance_def retainLabelReadModel_def Let_def split: prod.splits if_splits)

lemma wrapPublishErr_not_deferred: "wrapPublishErr C err w = (e, w') \<Longrightarrow> \<not> error_is e errLabelObservationDeferred"
  by (auto simp: wrapPublishErr_def wrapStopErr_def split: prod.splits if_splits)

lemma publish_flags:
  assumes "rebalance_publish C lifecycle ob res c w = (r, c', w')"
  shows "ca_pendingPartitionUpdate c' = ca_pendingPartitionUpdate c \<and> ca_pendingLabelRecheck c' = ca_pendingLabelRecheck c \<and>
    (\<forall>e. r = Some e \<longrightarrow> \<not> error_is e errLabelObservationDeferred)"
proof -
  obtain b w3 where 3: "(case StateProvider (cc_config C) of None \<Rightarrow> (False, w) | Some sp \<Rightarrow> sp_Shutdown sp w) = (b, w3)" by fastforce
  obtain rev w4 where 4: "(case cfg_LeaderRevision (cc_config C) of None \<Rightarrow> (0, w3) | Some f \<Rightarrow> f w3) = (rev, w4)" by fastforce
  obtain rp p w5 where 5: "Publish (cc_pub C) (ce_hash (cc_env C)) (ce_xxh3 (cc_env C)) (ce_sort (cc_env C))
      (publish_input_of lifecycle ob res rev c) (ca_publisher c) w4 = (rp, p, w5)" by (metis prod_cases3)
  show ?thesis
  proof (cases b)
    case False
    note un = assms[unfolded rebalance_publish_def 3 4 prod.case bool.case 5]
    show ?thesis
    proof (cases rp)
      case None
      then show ?thesis using un False after_publish_flags[of C ob res "c\<lparr>ca_publisher := p\<rparr>" w5 c' w'] by (auto simp: 5 split: prod.splits)
    next
      case (Some err)
      then show ?thesis using un False wrapPublishErr_not_deferred[of C err w5] by (auto simp: 5 split: prod.splits)
    qed
  qed (use assms in \<open>auto simp: rebalance_publish_def 3\<close>)
qed

lemma rebalance_flags:
  assumes L: "calc_laws C view env" and r: "rebalance C lifecycle c w = (r, c', w')"
  shows "ca_pendingPartitionUpdate c' = ca_pendingPartitionUpdate c \<and> (ca_pendingLabelRecheck c \<longrightarrow> ca_pendingLabelRecheck c') \<and>
    (\<forall>e. r = Some e \<longrightarrow> error_is e errLabelObservationDeferred \<longrightarrow> ca_pendingLabelRecheck c')"
proof -
  obtain g c1 w1 where 1: "rebalance_observe C lifecycle c w = (g, c1, w1)" by (metis prod_cases3)
  note o = observe_props(1)[OF L 1]
  show ?thesis
  proof (cases g)
    case (Inl e)
    then show ?thesis using r o observe_not_deferred[of C lifecycle c w _ c1 w1] 1 by (auto simp: rebalance_def keeps_def)
  next
    case (Inr ob)
    obtain d c2 w2 where 2: "rebalance_derive C lifecycle ob c1 w1 = (d, c2, w2)" by (metis prod_cases3)
    have d: "ca_pendingPartitionUpdate c2 = ca_pendingPartitionUpdate c \<and> (ca_pendingLabelRecheck c \<longrightarrow> ca_pendingLabelRecheck c2) \<and>
        (\<forall>e. d = Inl (Some e) \<longrightarrow> error_is e errLabelObservationDeferred \<longrightarrow> ca_pendingLabelRecheck c2)"
    proof (cases "trusted lifecycle ob")
      case False
      then show ?thesis using 2 o
        by (auto simp: rebalance_derive_def rebalanceOnCachedObservation_def requestLabelRecheck_def keeps_def Let_def split: if_splits)
    next
      case True
      then obtain x where "deriveRebalanceAssignments C (ob_workers ob) (elems (ob_partitions ob)) c1 w1 = (x, c2, w2)"
          "d = (case x of Inl e \<Rightarrow> Inl (Some e) | Inr res \<Rightarrow> Inr res)"
        using 2 by (auto simp: rebalance_derive_def split: prod.splits sum.splits)
      then show ?thesis using derive_props[OF L] o by (fastforce simp: keeps_def split: sum.splits)
    qed
    show ?thesis
    proof (cases d)
      case (Inl e)
      then show ?thesis using r d by (auto simp: rebalance_def 1 Inr 2)
    next
      case dr: (Inr res)
      then have "rebalance_publish C lifecycle ob res c2 w2 = (r, c', w')" using r by (simp add: rebalance_def 1 Inr 2)
      then show ?thesis using d publish_flags by metis
    qed
  qed
qed

text \<open>The flags of the two monitors.\<close>

abbreviation flags_kept :: "'s calculator \<Rightarrow> 's calculator \<Rightarrow> bool" where
  "flags_kept c c' \<equiv> ca_pendingPartitionUpdate c' = ca_pendingPartitionUpdate c \<and>
     (ca_pendingLabelRecheck c \<longrightarrow> ca_pendingLabelRecheck c')"

lemma decide_scaling_calc: "decide_scaling C prev pending (sm, c, w) = (sm', c', w') \<Longrightarrow> c' = c"
  by (auto simp: decide_scaling_def enterScalingState_def Let_def split: option.splits prod.splits bool.splits if_splits)

lemma claimEmergency_flags: "claimEmergency d (sm, c, w) = (won, sm', c', w') \<Longrightarrow> flags_kept c c'"
  by (auto simp: claimEmergency_def Let_def split: prod.splits if_splits)

lemma collectWorkerObservation_flags:
  assumes "calc_laws C view env" "collectWorkerObservation C provided c w = (r, c', w')"
  shows "flags_kept c c'"
proof (cases provided)
  case None
  obtain g c1 w1 where 1: "getActiveWorkers C c w = (g, c1, w1)" by (metis prod_cases3)
  then show ?thesis using assms(2) getActiveWorkers_env[OF assms(1) 1] None
    by (auto simp: collectWorkerObservation_def split: sum.splits prod.splits)
qed (use assms in \<open>auto simp: collectWorkerObservation_def\<close>)

lemma observeAndDecide_flags:
  assumes L: "calc_laws C view env" and r: "observeAndDecide C provided (sm, c, w) = (e, sm', c', w')"
  shows "flags_kept c c'"
proof -
  obtain g c1 w1 where 1: "collectWorkerObservation C provided c w = (g, c1, w1)" by (metis prod_cases3)
  note f1 = collectWorkerObservation_flags[OF L 1]
  obtain a sm2 c2 w2 where 2: "observeAndDecideLocked C provided (sm, c, w) = (a, sm2, c2, w2)" by (metis prod_cases4)
  have f2: "flags_kept c c2"
  proof (cases g)
    case (Inl x)
    then show ?thesis using 2 f1 by (auto simp: observeAndDecideLocked_def 1)
  next
    case (Inr x)
    then show ?thesis using 2 f1
      by (auto simp: observeAndDecideLocked_def 1 Let_def dest!: decide_scaling_calc claimEmergency_flags split: prod.splits if_splits)
  qed
  show ?thesis
  proof (cases "a = Inr pollActionRunEmergency")
    case True
    obtain r c3 w3 where 3: "rebalance C ''emergency'' c2 w2 = (r, c3, w3)" by (metis prod_cases3)
    have "(c', w') = snd (handleRebalance C ''emergency'' (c2, w2))"
      using r True by (auto simp: observeAndDecide_def 2 RunClaimedRebalance_def split: prod.splits)
    then have "flags_kept c3 c'" by (auto simp: handleRebalance_def 3 setLastWorkersLocked_def split: option.splits if_splits)
    then show ?thesis using f2 rebalance_flags[OF L 3] by simp
  next
    case False
    then have "c' = c2" using r by (auto simp: observeAndDecide_def 2 split: sum.splits pollAction.splits)
    then show ?thesis using f2 by simp
  qed
qed

lemma triggerPartition_cases:
  assumes L: "calc_laws C view env" and r: "triggerPartitionRebalance C lifecycle (sm, c, w) = (err, sm', c', w')"
  shows "ca_pendingPartitionUpdate c' \<or>
    (\<exists>rr c1 w1. rebalance C lifecycle c w = (rr, c1, w1) \<and> (ca_pendingLabelRecheck c1 \<longrightarrow> ca_pendingLabelRecheck c') \<and>
       (\<forall>e. rr = Some e \<longrightarrow> error_is e errLabelObservationDeferred \<or> error_is e errSuspiciousWorkerObservation \<or>
          (error_is e errShuttingDown \<and> err = Some e) \<or>
          \<not> (error_is e errShuttingDown \<or> error_is e errSuspiciousPartitionObservation) \<and> err = Some (PartitionRebalanceFailed lifecycle e)))"
proof -
  obtain sm1 won where 1: "TryClaimRebalancing lifecycle sm = (sm1, won)" by fastforce
  show ?thesis
  proof (cases won)
    case False
    then show ?thesis using r by (auto simp: triggerPartitionRebalance_def 1)
  next
    case True
    obtain rr c1 w1 where 2: "rebalance C lifecycle c w = (rr, c1, w1)" by (metis prod_cases3)
    obtain h c2 w2 where 3: "handlePartitionRebalance C lifecycle (c, w) = (h, c2, w2)" by (metis prod_cases3)
    have c2: "c2 = c1" using 3 by (auto simp: handlePartitionRebalance_def 2 split: option.splits if_splits)
    define susp where "susp \<longleftrightarrow> (\<exists>e. h = Some e \<and> error_is e errSuspiciousPartitionObservation)"
    define c3 where "c3 = (if susp then c1\<lparr>ca_pendingPartitionUpdate := True\<rparr> else c1)"
    define err3 where "err3 = (if susp then None else case h of Some e \<Rightarrow> if error_is e errLabelObservationDeferred then None else Some e | None \<Rightarrow> None)"
    have "err = err3 \<and> (sm', c', w') = snd (observeAndDecide C None (ReturnToIdle sm1, c3, w2))"
      using r True
      by (auto simp: triggerPartitionRebalance_def 1 RunClaimedRebalanceErr_eq run_callback_def 3 c2 c3_def err3_def susp_def Let_def
          split: option.splits if_splits)
    then have f: "flags_kept c3 c'" and err: "err = err3" using observeAndDecide_flags[OF L] by (metis prod.collapse, simp)
    show ?thesis
    proof (cases susp)
      case True
      then show ?thesis using f by (simp add: c3_def)
    next
      case False
      have "error_is e errLabelObservationDeferred \<or> error_is e errSuspiciousWorkerObservation \<or> (error_is e errShuttingDown \<and> err = Some e) \<or>
          \<not> (error_is e errShuttingDown \<or> error_is e errSuspiciousPartitionObservation) \<and> err = Some (PartitionRebalanceFailed lifecycle e)"
        if "rr = Some e" for e
        using 3 False that by (auto simp: handlePartitionRebalance_def 2 err err3_def susp_def split: if_splits)
      then show ?thesis using 2 f False by (auto simp: c3_def)
    qed
  qed
qed

text \<open>A change of the partition source is not forgotten. After the monitor has handled a signal of the source,
  the update is still marked as pending, or a rebalance that took its snapshot of the source after the signal
  has succeeded, or a re-check of the labels is due, which rebalances again; the exceptions are a stop, a
  worker set that is implausibly small, and an error of the rebalance.\<close>

lemma partition_change_kept:
  assumes "calc_laws C view env" "partition_changed C (sm, c, w) = (False, sm', c', w')"
  shows "ca_pendingPartitionUpdate c' \<or>
    (\<exists>c0 w0 r c1 w1. env w w0 \<and> rebalance C lifecyclePartitionUpdate c0 w0 = (r, c1, w1) \<and>
       (case r of
          None \<Rightarrow> True
        | Some e \<Rightarrow>
            error_is e errLabelObservationDeferred \<and> ca_pendingLabelRecheck c' \<or> error_is e errSuspiciousWorkerObservation \<or>
            error_is e errShuttingDown \<and> (\<exists>u u'. isStopping C u = (True, u')) \<or>
            \<not> (error_is e errShuttingDown \<or> error_is e errSuspiciousPartitionObservation)))"
proof -
  note L = assms(1)
  obtain s w1 where 1: "isStopping C w = (s, w1)" by fastforce
  obtain g w2 where 2: "inRecoveryGrace C w1 = (g, w2)" by fastforce
  have e2: "env w w2" using calc_trans[OF L] calc_calls(7,8)[OF L] 1 2 by blast
  define c0 where "c0 = c\<lparr>ca_pendingPartitionUpdate := False\<rparr>"
  obtain err sm3 c3 w3 where 3: "triggerPartitionRebalance C lifecyclePartitionUpdate (sm, c0, w2) = (err, sm3, c3, w3)"
    by (metis prod_cases4)
  show ?thesis
  proof (cases g)
    case True
    then show ?thesis using assms(2) by (auto simp: partition_changed_def 1 2 split: bool.splits)
  next
    case False
    have r: "restorePendingOnGraceBail C err (sm3, c3, w3) = (sm', c', w')"
      using assms(2) False by (auto simp: partition_changed_def 1 2 3 c0_def[symmetric] split: bool.splits)
    then have keep: "ca_pendingPartitionUpdate c3 \<longrightarrow> ca_pendingPartitionUpdate c'" "ca_pendingLabelRecheck c3 \<longrightarrow> ca_pendingLabelRecheck c'"
      by (auto simp: restorePendingOnGraceBail_def Let_def split: option.splits prod.splits bool.splits if_splits)
    have bail: "ca_pendingPartitionUpdate c' \<or> (\<exists>u u'. isStopping C u = (True, u'))" if "err = Some e" "error_is e errShuttingDown" for e
      using r that by (cases "isStopping C w3") (auto simp: restorePendingOnGraceBail_def split: bool.splits)
    show ?thesis
    proof (cases "ca_pendingPartitionUpdate c3")
      case True
      then show ?thesis using keep by blast
    next
      case no: False
      obtain rr c1 w4 where 4: "rebalance C lifecyclePartitionUpdate c0 w2 = (rr, c1, w4)"
        "ca_pendingLabelRecheck c1 \<longrightarrow> ca_pendingLabelRecheck c3"
        "\<forall>e. rr = Some e \<longrightarrow> error_is e errLabelObservationDeferred \<or> error_is e errSuspiciousWorkerObservation \<or>
          (error_is e errShuttingDown \<and> err = Some e) \<or>
          \<not> (error_is e errShuttingDown \<or> error_is e errSuspiciousPartitionObservation) \<and> err = Some (PartitionRebalanceFailed lifecyclePartitionUpdate e)"
        using triggerPartition_cases[OF L 3] no by blast
      note fl = rebalance_flags[OF L 4(1)]
      show ?thesis
      proof (cases "ca_pendingPartitionUpdate c'")
        case False
        then have "case rr of None \<Rightarrow> True | Some e \<Rightarrow>
            error_is e errLabelObservationDeferred \<and> ca_pendingLabelRecheck c' \<or> error_is e errSuspiciousWorkerObservation \<or>
            error_is e errShuttingDown \<and> (\<exists>u u'. isStopping C u = (True, u')) \<or>
            \<not> (error_is e errShuttingDown \<or> error_is e errSuspiciousPartitionObservation)"
          using 4(2,3) keep(2) bail fl by (cases rr) auto
        then show ?thesis using 4(1) e2 by blast
      qed simp
    qed
  qed
qed

text \<open>A poll that finds the workers unchanged does nothing further: it leaves the state machine and the flags alone,
  whatever the source has become since the last rebalance.\<close>

lemma poll_unchanged:
  assumes "collectWorkerObservation C None c w = (Inr (workers, fresh), c1, w1)" "\<not> hasWorkersChangedLocked workers c1"
  shows "\<exists>d w2. observeAndDecide C None (sm, c, w) = (None, sm, c1\<lparr>ca_detector := d\<rparr>, w2)"
  using assms by (cases c1) (auto simp: observeAndDecide_def observeAndDecideLocked_def Let_def split: prod.splits if_splits)

section \<open>The confirmation window of the partition source\<close>

text \<open>The guard followed by the new baseline, as in \<open>rebalance\<close>, and a sequence of observations, each with the
  baseline it was compared with and whether it was rejected.\<close>

definition guard_step :: "('s, 'w) calc \<Rightarrow> nat \<Rightarrow> 's calculator \<Rightarrow> bool \<times> 's calculator" where
  "guard_step C n c =
     (case partitionInputCredibilityGuard C n c of (b, c) \<Rightarrow> (b, if b then c else c\<lparr>ca_lastKnownPartitionCount := n\<rparr>))"

fun guard_run :: "('s, 'w) calc \<Rightarrow> nat list \<Rightarrow> 's calculator \<Rightarrow> (nat \<times> nat \<times> bool) list \<times> 's calculator" where
  "guard_run C [] c = ([], c)"
| "guard_run C (n # ns) c =
     (case guard_step C n c of
        (b, c') \<Rightarrow> (case guard_run C ns c' of (out, c'') \<Rightarrow> ((n, ca_lastKnownPartitionCount c, b) # out, c'')))"

definition implausible :: "('s, 'w) calc \<Rightarrow> nat \<Rightarrow> nat \<Rightarrow> bool" where
  "implausible C n baseline \<longleftrightarrow> n = 0 \<or> shrinkSuspicious n baseline (PartitionShrinkConfirmationThresholdPct (cc_config C))"

lemma guard_step_cases:
  assumes "guard_step C n c = (b, c')" "ca_lastKnownPartitionCount c \<noteq> 0"
  shows "ca_partitionShrunkObservations c' =
      (if implausible C n (ca_lastKnownPartitionCount c) then ca_partitionShrunkObservations c + 1 else 0)"
    "b \<longleftrightarrow> implausible C n (ca_lastKnownPartitionCount c) \<and>
      int (ca_partitionShrunkObservations c) + 1 < PartitionShrinkConfirmationCount (cc_config C)"
    "ca_lastKnownPartitionCount c' = (if b then ca_lastKnownPartitionCount c else n)"
  using assms by (auto simp: guard_step_def partitionInputCredibilityGuard_def implausible_def Let_def split: if_splits)

text \<open>The counter is the number of implausible observations up to the present one, since the last plausible one.\<close>

lemma guard_run_counter:
  assumes "guard_run C ns c = (out, c')" "\<forall>(n, baseline, b) \<in> set out. baseline \<noteq> 0"
    and "ca_partitionShrunkObservations c \<le> length hist" "\<forall>(n, baseline, b) \<in> set (drop (length hist - ca_partitionShrunkObservations c) hist). implausible C n baseline"
  shows "ca_partitionShrunkObservations c' \<le> length (hist @ out) \<and>
    (\<forall>(n, baseline, b) \<in> set (drop (length (hist @ out) - ca_partitionShrunkObservations c') (hist @ out)). implausible C n baseline)"
  using assms
proof (induction ns arbitrary: c out hist)
  case (Cons n ns)
  obtain b c1 where 1: "guard_step C n c = (b, c1)" by fastforce
  obtain out1 where 2: "guard_run C ns c1 = (out1, c')" "out = (n, ca_lastKnownPartitionCount c, b) # out1"
    using Cons.prems(1) by (auto simp: 1 split: prod.splits)
  let ?x = "(n, ca_lastKnownPartitionCount c, b)"
  have nz: "ca_lastKnownPartitionCount c \<noteq> 0" using Cons.prems(2) 2(2) by auto
  note g = guard_step_cases(1)[OF 1 nz]
  have "ca_partitionShrunkObservations c1 \<le> length (hist @ [?x]) \<and>
      (\<forall>(n, baseline, b) \<in> set (drop (length (hist @ [?x]) - ca_partitionShrunkObservations c1) (hist @ [?x])). implausible C n baseline)"
    using g Cons.prems(3,4) by (auto simp: Suc_diff_le)
  then show ?case using Cons.IH[OF 2(1), of "hist @ [?x]"] Cons.prems(2) 2(2) by auto
qed auto

text \<open>C15: The confirmation window. In a sequence of observations of the source that starts without a suspicion and
  in which no empty one was accepted, an empty or sharply shrunken observation is accepted only if the
  observations directly before it, one less than the configured count, were all empty or sharply shrunken against
  their baselines.\<close>

theorem shrink_needs_confirmation:
  assumes "guard_run C ns c = (out, c1)" "ca_partitionShrunkObservations c = 0"
    and "\<forall>(n, baseline, b) \<in> set out. baseline \<noteq> 0" "ca_lastKnownPartitionCount c1 \<noteq> 0"
    and "guard_step C n c1 = (False, c2)" "implausible C n (ca_lastKnownPartitionCount c1)"
  shows "\<exists>before window. out = before @ window \<and>
     PartitionShrinkConfirmationCount (cc_config C) \<le> int (length window) + 1 \<and>
     (\<forall>(m, baseline, b) \<in> set window. implausible C m baseline)"
proof -
  let ?k = "ca_partitionShrunkObservations c1"
  have k: "?k \<le> length out" "\<forall>(m, baseline, b) \<in> set (drop (length out - ?k) out). implausible C m baseline"
    using guard_run_counter[OF assms(1,3), of "[]"] assms(2) by simp_all
  have "PartitionShrinkConfirmationCount (cc_config C) \<le> int ?k + 1"
    using guard_step_cases(2)[OF assms(5,4)] assms(6) by simp
  moreover have "length (drop (length out - ?k) out) = ?k" using k(1) by simp
  ultimately show ?thesis using k(2) by (intro exI[of _ "take (length out - ?k) out"] exI[of _ "drop (length out - ?k) out"]) simp
qed

end
