(* ===== verification/Calculator_Examples.thy ===== *)
theory Calculator_Examples
  imports Calculator_Safety
begin

text \<open>
  A leader with two workers on a store in memory, on which the properties of the calculator are applied.
\<close>

section \<open>An example\<close>

text \<open>A leader with two workers: the assignment bucket is in memory, the heartbeats are fixed and nothing changes
  the world but the calculator.\<close>

definition ex_hb :: "string \<Rightarrow> heartbeat" where
  "ex_hb x = \<lparr>hb_WorkerID = x, hb_SchemaVersion = 1, hb_Capabilities = 7, hb_Labels = [], hb_LeaderRevision = 0,
     hb_AppliedVersion = 0, hb_AppliedDigest = 0, hb_AppliedSourceRevision = 0, hb_AppliedSourceRevKnown = False,
     hb_AppliedAt = 0, hb_Timestamp = 900\<rparr>"

definition fixed_hb_kv :: "string list \<Rightarrow> (hb_bytes, 'w) kv" where
  "fixed_hb_kv ids = \<lparr>
     kv_Get = (\<lambda>k w. (case find (\<lambda>x. k = ''hb.'' @ x) ids of
        None \<Rightarrow> Inl ErrKeyNotFound
      | Some x \<Rightarrow> Inr \<lparr>ent_Value = HbBrace (Some (ex_hb x)), ent_Revision = 1, ent_Created = 900\<rparr>, w)),
     kv_Create = (\<lambda>k v w. (Inl ErrKeyExists, w)), kv_Update = (\<lambda>k v n w. (Inl ErrKeyExists, w)),
     kv_Put = (\<lambda>k v w. (Inl (ErrKV ''read only''), w)), kv_Delete = (\<lambda>k n w. (Some (ErrKV ''read only''), w)),
     kv_Keys = (\<lambda>w. (if ids = [] then Inl ErrNoKeysFound else Inr (map (\<lambda>x. ''hb.'' @ x) ids), w))\<rparr>"

definition ex_env :: "asg_value mem_world calc_env" where
  "ex_env = \<lparr>ce_timeNow = (\<lambda>w. (snd w, w)), ce_stopped = (\<lambda>w. (False, w)), ce_closeStop = (\<lambda>w. w),
     ce_ctxErr = (\<lambda>w. (False, w)), ce_opErr = (\<lambda>w. (False, w)), ce_wait = (\<lambda>n w. w), ce_gcTrigger = (\<lambda>w. w),
     ce_IsConnectivityError = (\<lambda>e. False), ce_broad_by_class = (\<lambda>f. False), ce_hash = ex_hash, ce_xxh3 = ex_xxh3,
     ce_sort = sort_by canonical_cmp\<rparr>"

definition ex_config :: "'s strategy_fn \<Rightarrow> string list \<Rightarrow> partition list \<Rightarrow> ('s, asg_value mem_world) calc_config" where
  "ex_config assign ids ps = \<lparr>AssignmentKV = Some (mem_kv []), HeartbeatKV = Some (fixed_hb_kv ids),
     Source = Some (PlainSource (\<lambda>w. (Inr (Some ps), w))),
     Strategy = Some assign, AssignmentPrefix = ''a'',
     HeartbeatPrefix = ''hb'', HeartbeatTTL = 3 * second, EmergencyGracePeriod = 0, Cooldown = 0, ColdStartWindow = 0,
     PlannedScaleWindow = 0, cfg_clock = None, PartitionShrinkConfirmationCount = 0,
     PartitionShrinkConfirmationThresholdPct = 0, WorkerShrinkConfirmationCount = 0,
     WorkerShrinkConfirmationThresholdPct = 0, RebalanceGraceDrainInterval = 0, ApplyGracePeriod = 0,
     ExtendedApplyGracePeriod = 0, AuditInterval = 0, EnableTwoPhaseHandoff = False, StateProvider = None,
     cfg_LeaderRevision = None, LeaderCheck = None, OnEnumerationError = None, OnEnumerationSuccess = None,
     EnumerationFailureThreshold = 0, UnlabeledPartitionPolicy = [], LabelSpillGrace = 0, OnLabelReadBroadFailure = None\<rparr>"

definition ex_calc :: "string list \<Rightarrow> partition list \<Rightarrow> (unit, asg_value mem_world) calc \<times> unit calculator" where
  "ex_calc ids ps = projr (NewCalculator ex_env ()
     (ex_config (\<lambda>s ws qs. (RoundRobin_Assign (sort_by canonical_cmp) ws qs, s)) ids ps))"

lemma ex_calc_laws: "calc_laws (fst (ex_calc ids ps)) fst (=)"
  by (simp add: ex_calc_def NewCalculator_def calc_Validate_def ex_config_def calc_SetDefaults_def ex_env_def second_def
      NewAssignmentPublisher_def calc_laws_def cfg_laws_def mem_kv_laws fixed_hb_kv_def snapshotSource_def Let_def)

abbreviation ex_C :: "(unit, asg_value mem_world) calc" where
  "ex_C \<equiv> fst (ex_calc [''w1'', ''w2''] [ex_part ''x'', ex_part ''y''])"

abbreviation ex_c :: "unit calculator" where
  "ex_c \<equiv> snd (ex_calc [''w1'', ''w2''] [ex_part ''x'', ex_part ''y''])"

definition ex_rebalance :: "calc_error option \<times> unit calculator \<times> asg_value mem_world" where
  "ex_rebalance = rebalance ex_C ''cold_start'' ex_c ex_world"

lemma ex_rebalance_ok: "fst ex_rebalance = None" "currentVersion (ca_publisher (fst (snd ex_rebalance))) = 1"
  by code_simp+

theorem rebalance_outcomes_witness:
  "\<exists>ob res rev. credible ex_C (=) ''cold_start'' ob ex_c ex_world \<and> ob_fresh ob \<and>
     Publish (cc_pub ex_C) ex_hash ex_xxh3 (sort_by canonical_cmp) (publish_input_of ''cold_start'' ob res rev ex_c)
       (ca_publisher ex_c) ex_world = (None, ca_publisher (fst (snd ex_rebalance)), snd (snd ex_rebalance))"
proof -
  have r: "rebalance ex_C ''cold_start'' ex_c ex_world = (None, fst (snd ex_rebalance), snd (snd ex_rebalance))"
    using ex_rebalance_ok(1) unfolding ex_rebalance_def by (metis prod.collapse)
  have v: "currentVersion (ca_publisher ex_c) = 0" "ce_hash (cc_env ex_C) = ex_hash" "ce_xxh3 (cc_env ex_C) = ex_xxh3"
      "ce_sort (cc_env ex_C) = sort_by canonical_cmp"
    by (simp_all add: ex_calc_def NewCalculator_def calc_Validate_def ex_config_def calc_SetDefaults_def ex_env_def second_def
        NewAssignmentPublisher_def Let_def)
  then have "ca_publisher (fst (snd ex_rebalance)) \<noteq> ca_publisher ex_c" using ex_rebalance_ok(2) by auto
  then show ?thesis using rebalance_outcomes[OF ex_calc_laws r] by (auto simp: v) blast
qed

theorem shrink_needs_confirmation_witness:
  "map (\<lambda>(n, baseline, b). b) (fst (guard_run ex_C [100, 0, 0] (ex_c\<lparr>ca_lastKnownPartitionCount := 90\<rparr>))) = [False, True, True] \<and>
   (\<exists>before window. fst (guard_run ex_C [100, 0, 0] (ex_c\<lparr>ca_lastKnownPartitionCount := 90\<rparr>)) = before @ window \<and> 3 \<le> int (length window) + 1)"
proof
  let ?r = "guard_run ex_C [100, 0, 0] (ex_c\<lparr>ca_lastKnownPartitionCount := 90\<rparr>)"
  show "map (\<lambda>(n, baseline, b). b) (fst ?r) = [False, True, True]" by code_simp
  have h: "ca_partitionShrunkObservations (ex_c\<lparr>ca_lastKnownPartitionCount := 90\<rparr>) = 0"
      "list_all (\<lambda>(n, baseline, b). baseline \<noteq> 0) (fst ?r)"
      "ca_lastKnownPartitionCount (snd ?r) \<noteq> 0" "fst (guard_step ex_C 0 (snd ?r)) = False"
      "implausible ex_C 0 (ca_lastKnownPartitionCount (snd ?r))" "PartitionShrinkConfirmationCount (cc_config ex_C) = 3"
    by code_simp+
  have run: "?r = (fst ?r, snd ?r)" by simp
  have step: "guard_step ex_C 0 (snd ?r) = (False, snd (guard_step ex_C 0 (snd ?r)))" using h(4) by (simp add: prod_eq_iff)
  have base: "\<forall>(n, baseline, b) \<in> set (fst ?r). baseline \<noteq> 0" using h(2) by (simp add: list_all_iff)
  show "\<exists>before window. fst ?r = before @ window \<and> 3 \<le> int (length window) + 1"
    using shrink_needs_confirmation[OF run h(1) base h(3) step h(5)] h(6) by auto
qed

text \<open>The window is skipped after an accepted empty observation. The counter of suspicious observations is not
  reset when one is accepted, nor by an observation against the baseline zero: once an empty source has been
  accepted and the source is populated again, a single empty observation is accepted at once, although three
  are to be seen in a row.\<close>

lemma shrink_window_skipped:
  "PartitionShrinkConfirmationCount (cc_config ex_C) = 3 \<and>
   map (\<lambda>(n, baseline, b). b) (fst (guard_run ex_C [100, 0, 0, 0, 100, 0] ex_c)) = [False, True, True, False, False, False]"
  by code_simp

end
