(* ===== verification/Calculator_Coverage.thy ===== *)
theory Calculator_Coverage
  imports Calculator_Examples
begin

text \<open>
  The calculator over a strategy that meets the contract of \<open>assignment_strategy\<close>: what the label pipeline hands to
  the publisher covers the snapshot of the source exactly, so that a rebalance never fails the publisher's
  coverage check.
\<close>

section \<open>The pipeline when no worker is readable\<close>

context assignment_strategy
begin

lemma assign_labels_nobody:
  assumes "AllWorkers topo = []" "FallbackPool topo = []" "\<And>l. map_get [] (Pools topo) l = []"
  shows "assign_labels assign topo actions ls m pk s = (r, s') \<Longrightarrow> s' = s \<and>
    (\<forall>m' pk'. r = Inr (m', pk') \<longrightarrow> m' = m \<and> mset pk' = mset pk + (\<Sum>l \<leftarrow> ls. mset (map_get [] (Groups topo) l)))"
proof (induction ls arbitrary: pk)
  case (Cons l ls)
  let ?g = "map_get [] (Groups topo) l"
  show ?case
  proof (cases "actions l = emptyPoolPark \<or> ?g = []")
    case True
    then have "assign_labels assign topo actions ls m (pk @ ?g) s = (r, s')"
      using Cons.prems by (auto simp: assms assignGroup_def split: emptyPoolAction.splits)
    from Cons.IH[OF this] show ?thesis by (auto simp: add.assoc)
  next
    case False
    then have "actions l = emptyPoolSpill" by (cases "actions l") auto
    then show ?thesis using Cons.prems False by (auto simp: assms assignGroup_def)
  qed
qed auto

text \<open>Whatever the labels, a result of the pipeline covers the partitions, and the strategy keeps its invariant.\<close>

lemma computeLabelAssignments_covers:
  assumes inv: "inv s" and ok: "topology_ok inp"
    and r: "computeLabelAssignments assign (buildLabelTopology inp) actions s = (r, s')"
  shows "inv s' \<and> (\<forall>m parked. r = Inr (m, parked) \<longrightarrow> mset (all_vals m) + mset parked = mset (ti_Partitions inp))"
proof (cases "known_workers inp = []")
  case False
  then show ?thesis using computeLabelAssignments_exact[OF inv ok False refl, of actions] r by auto
next
  case True
  let ?topo = "buildLabelTopology inp"
  note tp = topology_pools[OF ok]
  have none: "AllWorkers ?topo = []" "FallbackPool ?topo = []" "GeneralPool ?topo = []" "map_get [] (Pools ?topo) l = []" for l
    by (simp_all add: tp True)
  let ?g = "map_get [] (Groups ?topo)"
  show ?thesis
  proof (cases "?g [] = []")
    case False
    then show ?thesis using r inv by (auto simp: computeLabelAssignments_def assignGroup_def none)
  next
    case g: True
    obtain r1 s1 where 1: "assign_labels assign ?topo actions (SortedLabels ?topo) [] [] s = (r1, s1)" by fastforce
    note p = assign_labels_nobody[OF none(1,2,4) 1]
    have fill: "mset (all_vals (foldl (\<lambda>(m :: assignments) w. AList.update w [] m) [] ws)) = {#}" for ws :: "string list"
      using empty_assignments_aux[of "[] :: assignments" ws] by (simp add: gomap_wf_def)
    show ?thesis
    proof (cases r1)
      case (Inl e)
      then show ?thesis using r p inv by (auto simp: computeLabelAssignments_def assignGroup_def g 1)
    next
      case (Inr x)
      obtain m pk where x: "x = (m, pk)" by fastforce
      then have "m = []" "mset pk = mset (ti_Partitions inp)" using p Inr groups_sum[of inp] by (auto simp: g)
      moreover have "r = Inr (foldl (\<lambda>m w. AList.update w [] m) [] (map fst (ti_Unknown inp)), pk)" "s' = s"
        using r p x Inr calculation(1) by (auto simp: computeLabelAssignments_def assignGroup_def g 1 none tp(5) Let_def)
      ultimately show ?thesis using inv fill[of "map fst (ti_Unknown inp)"] by (simp del: mset_concat)
    qed
  qed
qed

end

section \<open>What the calculator hands to the pipeline\<close>

text \<open>The heartbeat bucket holds only heartbeat keys, its listing names each once, heartbeats carry each label once
  (the publishers sort and compact them), and a snapshot of the source is valid.\<close>

definition fleet_ok :: "('s, 'w) calc \<Rightarrow> bool" where
  "fleet_ok C \<longleftrightarrow>
     (\<forall>u ks u'. kv_Keys (hb_kv (cc_mon C)) u = (Inr ks, u') \<longrightarrow>
        distinct ks \<and> (\<forall>k \<in> set ks. \<exists>x. k = hbPrefix (cc_mon C) @ ''.'' @ x)) \<and>
     (\<forall>k u e u' hb. kv_Get (hb_kv (cc_mon C)) k u = (Inr e, u') \<longrightarrow> DecodeHeartbeat (ent_Value e) = Some hb \<longrightarrow>
        distinct (hb_Labels hb)) \<and>
     (\<forall>u ps r k u'. snapshotSource (cc_Source C) u = (Inr (ps, r, k), u') \<longrightarrow> ValidatePartitions (elems ps) = None)"

definition names_ok :: "string list \<Rightarrow> bool" where
  "names_ok ws \<longleftrightarrow> distinct ws \<and> [] \<notin> set ws"

lemma names_ok_filter: "names_ok ws \<Longrightarrow> names_ok (filter P ws)"
  by (simp add: names_ok_def)

lemma worker_of_key_some: "worker_of_key pre k = Some x \<Longrightarrow> x \<noteq> [] \<and> (\<forall>y. k = pre @ ''.'' @ y \<longrightarrow> x = y)"
  by (auto simp: worker_of_key_def split: if_splits)

lemma GetActiveWorkers_names:
  assumes "fleet_ok C" "GetActiveWorkers (cc_mon C) u = (Inr ws, u')"
  shows "names_ok ws"
proof -
  let ?f = "worker_of_key (hbPrefix (cc_mon C))"
  obtain ks u1 where k: "kv_Keys (hb_kv (cc_mon C)) u = (Inr ks, u1) \<and> ws = List.map_filter ?f ks \<or> ws = []"
    using assms(2) by (auto simp: GetActiveWorkers_def split: prod.splits sum.splits kv_error.splits)
  have "names_ok (List.map_filter ?f ks)"
    if "distinct ks" "\<forall>k \<in> set ks. \<exists>x. k = hbPrefix (cc_mon C) @ ''.'' @ x" for ks
    using that
  proof (induction ks)
    case (Cons k ks)
    have "x \<notin> set (List.map_filter ?f ks)" if x: "?f k = Some x" for x
    proof
      assume "x \<in> set (List.map_filter ?f ks)"
      then obtain k' where k': "k' \<in> set ks" "?f k' = Some x" by (auto simp: List.map_filter_def)
      then have "k' = k" using x worker_of_key_some[OF x] worker_of_key_some[OF k'(2)] Cons.prems(2) by auto
      then show False using k'(1) Cons.prems(1) by simp
    qed
    then show ?case using Cons worker_of_key_some[of "hbPrefix (cc_mon C)" k] by (auto simp: names_ok_def split: option.splits)
  qed (simp add: names_ok_def)
  note names = this
  from k show ?thesis
  proof
    assume "kv_Keys (hb_kv (cc_mon C)) u = (Inr ks, u1) \<and> ws = List.map_filter ?f ks"
    then show ?thesis using names[of ks] assms(1) unfolding fleet_ok_def by blast
  qed (simp add: names_ok_def)
qed

lemma heartbeats_for_labels:
  assumes F: "fleet_ok C"
  shows "heartbeats_for (cc_mon C) ids out fails w = ((out', fails', b), w') \<Longrightarrow> (\<forall>x hb. map_of out x = Some hb \<longrightarrow> distinct (hb_Labels hb)) \<Longrightarrow>
    map_of out' x = Some hb \<Longrightarrow> distinct (hb_Labels hb)"
proof (induction ids arbitrary: out fails w)
  case (Cons i ids)
  obtain o1 w1 where 1: "op_Err (cc_mon C) w = (o1, w1)" by fastforce
  obtain g w2 where 2: "kv_Get (hb_kv (cc_mon C)) (hbPrefix (cc_mon C) @ ''.'' @ i) w1 = (g, w2)" by fastforce
  have d: "distinct (hb_Labels hb)" if "g = Inr e" "DecodeHeartbeat (ent_Value e) = Some hb" for e hb
    using F 2 that unfolding fleet_ok_def by blast
  show ?case
  proof (cases o1)
    case True
    then show ?thesis using Cons.prems 1 by (simp add: heartbeats_for.simps)
  next
    case False
    have "\<exists>out1 fails1. heartbeats_for (cc_mon C) ids out1 fails1 w2 = ((out', fails', b), w') \<and>
        (\<forall>x hb. map_of out1 x = Some hb \<longrightarrow> distinct (hb_Labels hb))"
    proof (cases g)
      case (Inl e)
      then show ?thesis using Cons.prems(1,2) False 1 2 by (auto simp: heartbeats_for.simps)
    next
      case (Inr e)
      show ?thesis
      proof (cases "DecodeHeartbeat (ent_Value e)")
        case None
        then show ?thesis using Cons.prems(1,2) False 1 2 Inr by (auto simp: heartbeats_for.simps)
      next
        case (Some hb)
        then have "heartbeats_for (cc_mon C) ids (AList.update i hb out) fails w2 = ((out', fails', b), w')"
          using Cons.prems(1) False 1 2 Inr by (simp add: heartbeats_for.simps)
        moreover have "\<forall>x hb'. map_of (AList.update i hb out) x = Some hb' \<longrightarrow> distinct (hb_Labels hb')"
          using Cons.prems(2) d[OF Inr Some] by (auto simp: map_simps)
        ultimately show ?thesis by blast
      qed
    qed
    then show ?thesis using Cons.IH Cons.prems(3) by blast
  qed
qed auto

lemma maps_Copy_lookup: "gomap_wf src \<Longrightarrow> map_of (maps_Copy dst src) x = (case map_of src x of None \<Rightarrow> map_of dst x | Some v \<Rightarrow> Some v)"
proof (induction src arbitrary: dst)
  case (Cons kv src)
  obtain k v where "kv = (k, v)" by fastforce
  moreover from this have "map_of src k = None" "gomap_wf src" using Cons.prems by (auto simp: gomap_wf_def map_of_eq_None_iff)
  moreover have "maps_Copy dst ((k, v) # src) = maps_Copy (AList.update k v dst) src" by (simp add: maps_Copy_def)
  ultimately show ?case using Cons.IH[of "AList.update k v dst"] by (auto simp: map_simps split: option.splits)
qed (simp add: maps_Copy_def)

lemma readWorkerLabels_ok:
  assumes F: "fleet_ok C" and r: "readWorkerLabels C ws w = (Inr (labels, unknown), w')" and n: "names_ok ws"
    and v: "ValidatePartitions ps = None"
  shows "topology_ok (label_topology_of C ws labels unknown ps)"
proof -
  obtain hbs fails w1 where 1: "GetHeartbeatsFor (cc_mon C) ws w = ((hbs, fails, False), w1)"
    using r by (auto simp: readWorkerLabels_def split: prod.splits bool.splits)
  obtain hbs2 fails2 b2 w2 where 2: "GetHeartbeatsFor (cc_mon C) (missingWorkers ws hbs) w1 = ((hbs2, fails2, b2), w2)"
    by (metis prod_cases3 prod.exhaust)
  define hbs3 where "hbs3 = (if missingWorkers ws hbs = [] \<or> b2 then hbs else maps_Copy hbs hbs2)"
  have lu: "labels = (\<lambda>x. case map_of hbs3 x of None \<Rightarrow> [] | Some hb \<Rightarrow> hb_Labels hb)"
      "unknown = map (\<lambda>x. (x, True)) (remdups (missingWorkers ws hbs3))"
    using r by (auto simp: readWorkerLabels_def 1 2 hbs3_def Let_def split: if_splits option.splits bool.splits)
  have d: "distinct (hb_Labels hb)" if "map_of hbs x = Some hb \<or> map_of hbs2 x = Some hb" for x hb
    using heartbeats_for_labels[OF F] 1 2 that unfolding GetHeartbeatsFor_def by fastforce
  have "gomap_wf hbs2" if "\<not> b2"
    using heartbeats_for_wf[of "cc_mon C"] 2 that unfolding GetHeartbeatsFor_def by (fastforce simp: gomap_wf_def)
  then have "distinct (hb_Labels hb)" if "map_of hbs3 x = Some hb" for x hb
    using that d by (auto simp: hbs3_def maps_Copy_lookup split: if_splits option.splits)
  then have "distinct (labels x)" for x by (auto simp: lu(1) split: option.splits)
  moreover have "gomap_wf unknown" "\<forall>(x, b) \<in> set unknown. b" by (auto simp: lu(2) gomap_wf_def comp_def)
  moreover have "keyed ps" using v by (auto simp: validate_partitions_iff keyed_def Validate_def split: if_splits)
  ultimately show ?thesis using n by (simp add: topology_ok_def label_topology_of_def names_ok_def)
qed

section \<open>The publisher accepts\<close>

lemma write_payloads_error: "write_payloads cfg H X srt asg labels wks refs pls w = (Inl e, w') \<Longrightarrow> \<exists>wk e'. e = PayloadWorker wk e'"
  by (induction wks arbitrary: refs pls w) (auto simp: Let_def split: prod.splits sum.splits)

lemma alias_barrier_error: "alias_barrier cfg inp pls v wks w = (Some e, w') \<Longrightarrow> \<exists>wk e'. e = ErrAliasBarrierFailed wk e'"
  by (induction wks arbitrary: w) (auto simp: Let_def split: prod.splits option.splits)

definition is_mismatch :: "pub_error \<Rightarrow> bool" where
  "is_mismatch e \<longleftrightarrow> (case e of ErrCoverageMismatch _ _ _ _ _ _ _ _ \<Rightarrow> True | _ \<Rightarrow> False)"

lemma commit_batch_error: "commit_batch cfg X inp refs pls leg v p w = (Some e, p', w') \<Longrightarrow> \<not> is_mismatch e"
  by (auto simp: commit_batch_def abortIfShuttingDown_def surrenderCommitCASLocked_def is_mismatch_def Let_def
      split: prod.splits option.splits sum.splits if_splits)

lemma fenced_batch_error: "fenced_batch cfg X inp refs pls v p w = (Some e, p', w') \<Longrightarrow> \<not> is_mismatch e"
  by (auto simp: fenced_batch_def checkLeadership_def runAliasBarrier_def dest!: commit_batch_error alias_barrier_error
      split: prod.splits option.splits if_splits) (auto simp: is_mismatch_def)

lemma publish_mismatch:
  assumes "Publish cfg H X srt inp p w = (Some e, p', w')" "checkCoverage (SourcePartitions inp) (Assignments inp) (ParkedPartitions inp) = None"
  shows "\<not> is_mismatch e"
  using assms
  by (auto simp: Publish_def ensureCommitViewCurrentLocked_def writePayloads_def Let_def is_mismatch_def
      dest!: write_payloads_error fenced_batch_error[unfolded is_mismatch_def] split: prod.splits option.splits sum.splits if_splits)

section \<open>The rebalance\<close>

definition cache_ok :: "'s calculator \<Rightarrow> bool" where
  "cache_ok c \<longleftrightarrow> (\<forall>ws t. ca_cachedWorkers c = Some (ws, t) \<longrightarrow> names_ok ws)"

lemma getActiveWorkers_cache:
  assumes F: "fleet_ok C" and k: "cache_ok c" and r: "getActiveWorkers C c w = (r, c', w')"
  shows "cache_ok c'"
proof -
  obtain g w1 where 1: "GetActiveWorkers (cc_mon C) w = (g, w1)" by fastforce
  have "names_ok ws" if "g = Inr ws" for ws using GetActiveWorkers_names[OF F 1[unfolded that]] .
  then show ?thesis using r k
    by (auto simp: getActiveWorkers_def 1 recordEnumerationFailure_def resetEnumerationFailures_def recordWorkerObservation_def
        updateCachedWorkers_def cache_ok_def Let_def split: sum.splits if_splits option.splits prod.splits)
qed

lemma filtered_cache:
  assumes F: "fleet_ok C" and k: "cache_ok c" and r: "getActiveWorkersFiltered C dis c w = (r, c', w')"
  shows "cache_ok c'"
proof -
  obtain g c1 w1 where 1: "getActiveWorkers C c w = (g, c1, w1)" by (metis prod_cases3)
  have "cache_ok c1" by (rule getActiveWorkers_cache[OF F k 1])
  then show ?thesis using r by (auto simp: getActiveWorkersFiltered_def 1 split: sum.splits prod.splits if_splits)
qed

lemma collect_cache:
  assumes F: "fleet_ok C" and k: "cache_ok c" and r: "collectRebalanceWorkers C lifecycle c w = (r, c', w')"
  shows "cache_ok c'"
proof -
  define dis where "dis = (if lifecycle = ''emergency'' then ca_disappearedWorkers c else [])"
  define c0 where "c0 = (if lifecycle = ''emergency'' then c\<lparr>ca_disappearedWorkers := []\<rparr> else c)"
  obtain g c1 w1 where 1: "getActiveWorkersFiltered C dis c0 w = (g, c1, w1)" by (metis prod_cases3)
  have k0: "cache_ok c0" using k by (simp add: c0_def cache_ok_def)
  have k1: "cache_ok c1" by (rule filtered_cache[OF F k0 1])
  show ?thesis
  proof (cases g)
    case (Inl e)
    then show ?thesis using r k1
      by (simp add: collectRebalanceWorkers_def c0_def[symmetric] dis_def[symmetric] 1 Let_def split: prod.splits)
  next
    case (Inr x)
    then show ?thesis using r k1
      by (auto simp: collectRebalanceWorkers_def c0_def[symmetric] dis_def[symmetric] 1 cache_ok_def Let_def split: prod.splits if_splits)
  qed
qed

lemma observe_cache:
  assumes L: "calc_laws C view env" and F: "fleet_ok C" and k: "cache_ok c" and r: "rebalance_observe C lifecycle c w = (r, c', w')"
  shows "cache_ok c'"
proof -
  obtain b w1 where 1: "shouldDeferForRecoveryGrace C lifecycle w = (b, w1)" by fastforce
  obtain g c2 w2 where 2: "collectRebalanceWorkers C lifecycle c w1 = (g, c2, w2)" by (metis prod_cases3)
  have k2: "cache_ok c2" by (rule collect_cache[OF F k 2])
  have "cache_ok c3" if "rebalance_snapshot C ws d f c2 w2 = (x, c3, w3)" for ws d f x c3 w3
    using snapshot_props(2)[OF L that] k2 by (auto simp: cache_ok_def)
  then show ?thesis using r k k2 by (auto simp: rebalance_observe_def 1 2 split: bool.splits sum.splits)
qed

lemma credible_names:
  assumes F: "fleet_ok C" and k: "cache_ok c" and cr: "credible C env lifecycle ob c w"
  shows "names_ok (ob_workers ob)" "ValidatePartitions (elems (ob_partitions ob)) = None"
proof -
  show "ValidatePartitions (elems (ob_partitions ob)) = None" using F cr unfolding credible_def fleet_ok_def by blast
  obtain base where b: "ob_workers ob = filter (\<lambda>x. lifecycle = ''emergency'' \<longrightarrow> x \<notin> set (ca_disappearedWorkers c)) base"
      "if ob_fresh ob then \<exists>u u'. env w u \<and> GetActiveWorkers (cc_mon C) u = (Inr base, u') else \<exists>t. ca_cachedWorkers c = Some (base, t)"
    using cr unfolding credible_def observed_workers_def by blast
  have "names_ok base" using b(2) GetActiveWorkers_names[OF F] k unfolding cache_ok_def by (auto split: if_splits)
  then show "names_ok (ob_workers ob)" unfolding b(1) by (rule names_ok_filter)
qed

text \<open>Errors from before the publish.\<close>

lemma wrapStopErr_no_publish: "wrapStopErr C err w = (PublishFailed e, w') \<Longrightarrow> err = PublishFailed e"
  by (auto simp: wrapStopErr_def split: prod.splits if_splits)

lemma observe_no_publish: "rebalance_observe C lifecycle c w = (Inl x, c', w') \<Longrightarrow> x \<noteq> Some (PublishFailed e)"
  by (auto simp: rebalance_observe_def collectRebalanceWorkers_def rebalance_snapshot_def rebalance_guards_def Let_def
      dest!: wrapStopErr_no_publish split: prod.splits sum.splits bool.splits if_splits)

lemma derive_no_publish: "deriveRebalanceAssignments C ws ps c w = (Inl x, c', w') \<Longrightarrow> x \<noteq> PublishFailed e"
  by (auto simp: deriveRebalanceAssignments_def labelRoutedAssignments_def Let_def
      dest!: wrapStopErr_no_publish split: prod.splits sum.splits option.splits if_splits)

lemma publish_strategy:
  "rebalance_publish C lifecycle ob res c w = (r, c', w') \<Longrightarrow> ca_strategy c' = ca_strategy c \<and> ca_cachedWorkers c' = ca_cachedWorkers c"
  by (auto simp: rebalance_publish_def after_publish_def armLabelRecheckAfterRebalance_def retainLabelReadModel_def Let_def
      split: prod.splits bool.splits option.splits if_splits)

lemma coverage_of_parts:
  assumes "mset (all_vals asg) + mset parked = mset ps" "ValidatePartitions ps = None"
  shows "checkCoverage ps asg parked = None"
proof -
  have "mset (map CanonicalID (unionPartitions asg @ parked)) = image_mset CanonicalID (mset (all_vals asg) + mset parked)"
    by (simp add: unionPartitions_def del: mset_concat)
  also have "\<dots> = mset (map CanonicalID ps)" unfolding assms(1) by simp
  also have "\<dots> = mset_set (CanonicalID ` set ps)"
  proof -
    have "distinct (map CanonicalID ps)" using assms(2) by (simp add: ValidatePartitions_def validate_partitions_None_iff)
    then show ?thesis by (metis mset_set_set list.set_map)
  qed
  finally show ?thesis by (simp add: coverage_iff)
qed

lemma publish_no_mismatch:
  assumes "rebalance_publish C lifecycle ob res c w = (Some (PublishFailed e), c', w')"
    and "checkCoverage (elems (ob_partitions ob)) (lp_assignments res) (lp_parked res) = None"
  shows "\<not> is_mismatch e"
  using assms
  by (auto simp: rebalance_publish_def wrapPublishErr_def wrapStopErr_def publish_input_of_def split: prod.splits bool.splits option.splits if_splits
      dest!: publish_mismatch)

context assignment_strategy
begin

lemma derive_covers:
  assumes a: "cc_Strategy C = assign" and i: "inv (ca_strategy c)" and F: "fleet_ok C" and n: "names_ok ws"
    and v: "ValidatePartitions ps = None" and r: "deriveRebalanceAssignments C ws ps c w = (r, c', w')"
  shows "inv (ca_strategy c') \<and> ca_cachedWorkers c' = ca_cachedWorkers c \<and>
    (\<forall>res. r = Inr res \<longrightarrow> mset (all_vals (lp_assignments res)) + mset (lp_parked res) = mset ps)"
proof -
  obtain g c3 w3 where 3: "labelRoutedAssignments C ws ps c w = (g, c3, w3)" by (metis prod_cases3)
  obtain l w1 where 1: "readWorkerLabels C ws w = (l, w1)" by fastforce
  have "inv (ca_strategy c3) \<and> ca_cachedWorkers c3 = ca_cachedWorkers c \<and>
    (\<forall>res. g = Inr (Some res) \<longrightarrow> mset (all_vals (lp_assignments res)) + mset (lp_parked res) = mset ps)"
  proof (cases l)
    case (Inl e)
    then show ?thesis using 3 i by (auto simp: labelRoutedAssignments_def 1)
  next
    case (Inr x)
    obtain labels unknown where x: "x = (labels, unknown)" by fastforce
    let ?inp = "label_topology_of C ws labels unknown ps"
    note ok = readWorkerLabels_ok[OF F 1[unfolded Inr x] n v]
    have "ti_Partitions ?inp = ps" by (simp add: label_topology_of_def)
    then show ?thesis using 3 Inr x i computeLabelAssignments_covers[OF i ok]
      by (auto simp: labelRoutedAssignments_def 1 a Let_def split: prod.splits if_splits sum.splits)
  qed
  then show ?thesis using r
    by (auto simp: deriveRebalanceAssignments_def 3 requestLabelRecheck_def Let_def split: sum.splits option.splits prod.splits)
qed

lemma rebalance_covers:
  assumes L: "calc_laws C view env" and a: "cc_Strategy C = assign" and i: "inv (ca_strategy c)" and F: "fleet_ok C" and k: "cache_ok c"
    and r: "rebalance C lifecycle c w = (r, c', w')"
  shows "inv (ca_strategy c') \<and> cache_ok c' \<and> (\<forall>e. r = Some (PublishFailed e) \<longrightarrow> \<not> is_mismatch e)"
proof -
  obtain g c1 w1 where 1: "rebalance_observe C lifecycle c w = (g, c1, w1)" by (metis prod_cases3)
  note o = observe_props[OF L 1]
  have k1: "cache_ok c1" by (rule observe_cache[OF L F k 1])
  have i1: "inv (ca_strategy c1)" using o(1) i by simp
  show ?thesis
  proof (cases g)
    case (Inl e)
    then show ?thesis using r k1 i1 observe_no_publish[OF 1[unfolded Inl]] by (auto simp: rebalance_def 1)
  next
    case (Inr ob)
    note cr = o(2)[OF Inr] and nm = credible_names[OF F k o(2)[OF Inr]]
    show ?thesis
    proof (cases "trusted lifecycle ob")
      case False
      then show ?thesis using r k1 i1
        by (auto simp: rebalance_def 1 Inr rebalance_derive_def rebalanceOnCachedObservation_def requestLabelRecheck_def cache_ok_def Let_def split: if_splits)
    next
      case True
      obtain x c2 w2 where 2: "deriveRebalanceAssignments C (ob_workers ob) (elems (ob_partitions ob)) c1 w1 = (x, c2, w2)" by (metis prod_cases3)
      note d = derive_covers[OF a i1 F nm 2]
      show ?thesis
      proof (cases x)
        case (Inl e)
        then show ?thesis using r d k1 True derive_no_publish[OF 2[unfolded Inl]] by (auto simp: rebalance_def 1 Inr rebalance_derive_def 2 cache_ok_def)
      next
        case xr: (Inr res)
        have p: "rebalance_publish C lifecycle ob res c2 w2 = (r, c', w')"
          using r True by (simp add: rebalance_def 1 Inr rebalance_derive_def 2 xr)
        have "checkCoverage (elems (ob_partitions ob)) (lp_assignments res) (lp_parked res) = None"
          using coverage_of_parts d xr nm(2) by blast
        then show ?thesis using publish_no_mismatch[of C lifecycle ob res c2 w2] p publish_strategy[OF p] d k1 by (auto simp: cache_ok_def)
      qed
    qed
  qed
qed

end

text \<open>C7: The parts of a rebalance agree. With the weighted strategy over any sorting algorithm, a heartbeat bucket
  that holds heartbeats only and a valid source, no rebalance fails the coverage check of the publisher: what the
  label pipeline assigns and parks is the snapshot. The ring cache of the strategy stays coherent and the worker
  cache well-formed, so that this holds for every rebalance that follows.\<close>

theorem rebalance_never_mismatched:
  assumes "calc_laws C view env" "fleet_ok C" "cc_Strategy C = WeightedConsistentHash_Assign X srtN srtE"
    and "sort_contract cmp_node srtN" "sort_contract cmp_entry srtE" "wch_inv X srtN (ca_strategy c)" "cache_ok c"
    and "rebalance C lifecycle c w = (r, c', w')"
  shows "wch_inv X srtN (ca_strategy c') \<and> cache_ok c' \<and> (\<forall>e. r = Some (PublishFailed e) \<longrightarrow> \<not> is_mismatch e)"
  using wch.rebalance_covers[OF assms(1,3) _ assms(2,7,8)] assms(4-6) by blast

definition ex_weighted :: "string list \<Rightarrow> partition list \<Rightarrow> (weighted_consistent_hash, asg_value mem_world) calc \<times> weighted_consistent_hash calculator" where
  "ex_weighted ids ps = projr (NewCalculator ex_env (NewWeightedConsistentHash [])
     (ex_config (WeightedConsistentHash_Assign poly_xxh3 (sort_by cmp_node) (sort_by cmp_entry)) ids ps))"

lemmas ex_weighted_defs = ex_weighted_def NewCalculator_def calc_Validate_def ex_config_def calc_SetDefaults_def ex_env_def
  second_def NewAssignmentPublisher_def Let_def

lemma ex_weighted_laws: "calc_laws (fst (ex_weighted ids ps)) fst (=)"
  by (simp add: ex_weighted_defs calc_laws_def cfg_laws_def mem_kv_laws fixed_hb_kv_def snapshotSource_def)

lemma ex_weighted_parts:
  "cc_Strategy (fst (ex_weighted ids ps)) = WeightedConsistentHash_Assign poly_xxh3 (sort_by cmp_node) (sort_by cmp_entry)"
  "ca_strategy (snd (ex_weighted ids ps)) = NewWeightedConsistentHash []"
  "cache_ok (snd (ex_weighted ids ps))"
  by (simp_all add: ex_weighted_defs cache_ok_def)

lemma ex_weighted_fleet:
  assumes "distinct ids" "ValidatePartitions ps = None"
  shows "fleet_ok (fst (ex_weighted ids ps))"
  using assms
  by (auto simp: fleet_ok_def ex_weighted_defs fixed_hb_kv_def snapshotSource_def elems_def ex_hb_def DecodeHeartbeat_def distinct_map inj_on_def
      split: if_splits option.splits)

theorem rebalance_never_mismatched_witness:
  "wch_inv poly_xxh3 (sort_by cmp_node) (ca_strategy (fst (snd
      (rebalance (fst (ex_weighted [''w1'', ''w2''] [ex_part ''x'', ex_part ''y''])) ''cold_start''
        (snd (ex_weighted [''w1'', ''w2''] [ex_part ''x'', ex_part ''y''])) ex_world)))) \<and>
   (\<nexists>e. fst (rebalance (fst (ex_weighted [''w1'', ''w2''] [ex_part ''x'', ex_part ''y''])) ''cold_start''
        (snd (ex_weighted [''w1'', ''w2''] [ex_part ''x'', ex_part ''y''])) ex_world) = Some (PublishFailed e) \<and> is_mismatch e)"
proof -
  have "ValidatePartitions [ex_part ''x'', ex_part ''y''] = None" by code_simp
  then have f: "fleet_ok (fst (ex_weighted [''w1'', ''w2''] [ex_part ''x'', ex_part ''y'']))" by (simp add: ex_weighted_fleet)
  have i: "wch_inv poly_xxh3 (sort_by cmp_node) (ca_strategy (snd (ex_weighted [''w1'', ''w2''] [ex_part ''x'', ex_part ''y''])))"
    unfolding ex_weighted_parts by (rule NewWeightedConsistentHash_inv) simp
  obtain r c' w' where r: "rebalance (fst (ex_weighted [''w1'', ''w2''] [ex_part ''x'', ex_part ''y''])) ''cold_start''
      (snd (ex_weighted [''w1'', ''w2''] [ex_part ''x'', ex_part ''y''])) ex_world = (r, c', w')" by (metis prod_cases3)
  show ?thesis
    using rebalance_never_mismatched[OF ex_weighted_laws f ex_weighted_parts(1) sort_by_contract[OF cmp_total_node]
        sort_by_contract[OF cmp_total_entry] i ex_weighted_parts(3) r]
    unfolding r by simp
qed

end
