(* ===== verification/Spec2Isabelle.thy ===== *)
theory Spec2Isabelle
  imports Labels Emergency State_Machine Commit_GC Handoff_Progress Handoff_Orphans Worker_Delivery
    Resolver_Safety Election_Safety Stable_ID_Safety Calculator_Coverage
begin

text \<open>
  A verification library for the worker-assignment framework \<^verbatim>\<open>parti\<close>.
\<close>

section \<open>From the publisher to the workers\<close>

text \<open>What a worker builds from a commit, given the reference of its payload.\<close>

lemma built_from_ref:
  assumes "buildAssignmentFromCommit cfg c u = (Some a, u')" "wc_workerID cfg \<in> set (cm_Workers c)"
    "map_of (cm_Payloads c) (wc_workerID cfg) = Some ref" "ref_PayloadHash ref = wc_hash cfg (VPayload pl)"
    "\<And>v. wc_hash cfg v = wc_hash cfg (VPayload pl) \<Longrightarrow> v = VPayload pl"
  shows "as_Partitions a = pl_Partitions pl \<and> as_WorkerLabels a = pl_WorkerLabels pl \<and> as_WorkerLabelsKnown a = pl_WorkerLabelsKnown pl"
proof -
  obtain pl' where b: "wc_hash cfg (VPayload pl') = wc_hash cfg (VPayload pl)" "as_Partitions a = pl_Partitions pl'"
      "as_WorkerLabels a = pl_WorkerLabels pl'" "as_WorkerLabelsKnown a = pl_WorkerLabelsKnown pl'"
    using assms(1-4)
    by (auto simp: buildAssignmentFromCommit_def FetchAndVerifyCommitPayload_def Let_def
        split: prod.splits sum.splits if_splits asg_value.splits)
  then show ?thesis using assms(5)[OF b(1)] by simp
qed

lemma concat_assigned:
  assumes "distinct ws" "distinct (map fst asg)" "fst ` set asg \<subseteq> set ws"
  shows "mset (concat (map (map_get [] asg) ws)) = mset (concat (map snd asg))"
proof -
  have s: "mset (concat (map f xs)) = (\<Sum>x\<in>set xs. mset (f x))" if "distinct xs" for f :: "'x \<Rightarrow> 'y list" and xs
    using that by (simp add: mset_concat sum_list_distinct_conv_sum_set comp_def)
  have "(\<Sum>w\<in>set ws. mset (map_get [] asg w)) = (\<Sum>w\<in>fst ` set asg. mset (map_get [] asg w))"
    using assms(3) by (intro sum.mono_neutral_right) (auto simp: map_get_def split: option.splits dest: map_of_SomeD intro: rev_image_eqI)
  also have "\<dots> = (\<Sum>x\<in>set asg. mset (snd x))"
    using assms(2) by (subst sum.reindex) (auto simp: distinct_map map_get_def intro!: sum.cong)
  finally show ?thesis using assms(1,2) by (simp add: s distinct_map)
qed

lemma fleet_parts:
  assumes pub: "cfg_laws cfg view env" "input_ok inp" "view_inv cfg p (view w)" "bucket_wf (view w)" "Workers inp \<noteq> []"
      "Publish cfg H X srt inp p w = (None, p', w')" "lastCommit p' = Some c"
    and wcfg: "wc_workerID wcfg \<in> set (Workers inp)" "wc_hash wcfg = H"
    and nocoll: "\<And>v. H v = H (VPayload (build_payload srt (Assignments inp) (WorkerLabels inp) (wc_workerID wcfg))) \<Longrightarrow>
      v = VPayload (build_payload srt (Assignments inp) (WorkerLabels inp) (wc_workerID wcfg))"
    and built: "buildAssignmentFromCommit wcfg c u = (Some a, u')"
  shows "as_Partitions a = srt (map_get [] (Assignments inp) (wc_workerID wcfg)) \<and>
    as_WorkerLabels a = sortedLabelsCopy (WorkerLabels inp (wc_workerID wcfg)) \<and> as_WorkerLabelsKnown a \<and> as_Version a = currentVersion p'"
proof -
  obtain w1 where c: "currentVersion p' = cm_Version c" "cm_Workers c = sort (Workers inp)" "fst ` set (cm_Payloads c) = set (Workers inp)"
      "refs_ok cfg view env H X (build_payload srt (Assignments inp) (WorkerLabels inp)) (cm_Payloads c) w w1"
    using publish_committed[OF pub(1-6)] pub(7) by auto
  obtain ref where r: "map_of (cm_Payloads c) (wc_workerID wcfg) = Some ref" using c(3) wcfg(1) by (metis map_of_eq_None_iff not_None_eq)
  have "ref_PayloadHash ref = H (VPayload (build_payload srt (Assignments inp) (WorkerLabels inp) (wc_workerID wcfg)))"
    using c(4) r by (simp add: refs_ok_def ref_ok_def)
  then show ?thesis using built_from_ref[OF built _ r, of "build_payload srt (Assignments inp) (WorkerLabels inp) (wc_workerID wcfg)"]
      built_coords[OF built] nocoll wcfg c(1,2) by (simp add: build_payload_def)
qed

text \<open>C1: The fleet ends up with exactly the partitions of the source. After a publish that reports success,
  whatever each worker \<open>k\<close> of the batch reads from the store, at whatever time, if it accepts a payload
  for the commit then it has the partitions that the batch assigns to it; and the partitions of all
  workers together with the parked ones are those of the source, each once: no partition is processed
  by two workers of the commit and none is lost. The hash of a published payload is taken to have no
  other preimage.\<close>

theorem fleet_exact_cover:
  assumes "cfg_laws cfg view env" "input_ok inp" "view_inv cfg p (view w)" "bucket_wf (view w)" "Workers inp \<noteq> []"
    and "Publish cfg H X srt inp p w = (None, p', w')" "lastCommit p' = Some c"
    and "distinct (Workers inp)" "distinct (map fst (Assignments inp))" "fst ` set (Assignments inp) \<subseteq> set (Workers inp)"
    and "\<And>xs. mset (srt xs) = mset xs"
    and "\<And>k. wc_workerID (wcfg k) = k" "\<And>k. wc_hash (wcfg k) = H"
    and "\<And>v k. k \<in> set (Workers inp) \<Longrightarrow> H v = H (VPayload (build_payload srt (Assignments inp) (WorkerLabels inp) k)) \<Longrightarrow>
      v = VPayload (build_payload srt (Assignments inp) (WorkerLabels inp) k)"
    and "\<And>k. k \<in> set (Workers inp) \<Longrightarrow> buildAssignmentFromCommit (wcfg k) c (u k) = (Some (A k), u' k)"
  shows "mset (map CanonicalID (concat (map (\<lambda>k. as_Partitions (A k)) (cm_Workers c)) @ ParkedPartitions inp)) =
      mset_set (CanonicalID ` set (SourcePartitions inp))"
proof -
  have ws: "cm_Workers c = sort (Workers inp)" using publish_committed[OF assms(1-6)] assms(7) by auto
  have a: "as_Partitions (A k) = srt (map_get [] (Assignments inp) k)" if "k \<in> set (Workers inp)" for k
    using fleet_parts[OF assms(1-7), of "wcfg k" "u k" "A k" "u' k"] assms(12-15) that by simp
  have m: "map (\<lambda>k. as_Partitions (A k)) (cm_Workers c) = map (\<lambda>k. srt (map_get [] (Assignments inp) k)) (cm_Workers c)"
    using a ws by (intro map_cong) auto
  have "mset (concat (map (\<lambda>k. as_Partitions (A k)) (cm_Workers c))) = mset (concat (map (map_get [] (Assignments inp)) (cm_Workers c)))"
    unfolding m by (induction "cm_Workers c") (simp_all add: assms(11) mset_concat comp_def)
  also have "\<dots> = mset (unionPartitions (Assignments inp))"
    using concat_assigned[of "cm_Workers c" "Assignments inp"] assms(8-10) ws by (simp add: unionPartitions_def)
  finally show ?thesis using publish_covered[OF assms(6,5)] by simp
qed

definition fx_hash :: "asg_value \<Rightarrow> string" where
  "fx_hash v =
     (if v = VPayload (build_payload (sort_by canonical_cmp) (Assignments ex_input) (WorkerLabels ex_input) ''w1'') then ''h1''
      else if v = VPayload (build_payload (sort_by canonical_cmp) (Assignments ex_input) (WorkerLabels ex_input) ''w2'') then ''h2''
      else [])"

abbreviation fx_run :: "pub_error option \<times> publisher \<times> asg_value mem_world" where
  "fx_run \<equiv> Publish ex_cfg fx_hash ex_xxh3 (sort_by canonical_cmp) ex_input ex_publisher ex_world"

definition fx_commit :: assignment_commit where
  "fx_commit = the (lastCommit (fst (snd fx_run)))"

definition fx_wcfg :: "string \<Rightarrow> asg_value mem_world worker_cfg" where
  "fx_wcfg k = (ex_wcfg k)\<lparr>wc_hash := fx_hash, wc_Apply := \<lambda>_ _ _ w. (None, w)\<rparr>"

definition fx_built :: "string \<Rightarrow> assignment" where
  "fx_built k = the (fst (buildAssignmentFromCommit (fx_wcfg k) fx_commit (snd (snd fx_run))))"

lemma fx_publishes: "fst fx_run = None" "lastCommit (fst (snd fx_run)) \<noteq> None"
  by code_simp+

lemma fx_builds:
  "fst (buildAssignmentFromCommit (fx_wcfg ''w1'') fx_commit (snd (snd fx_run))) \<noteq> None"
  "fst (buildAssignmentFromCommit (fx_wcfg ''w2'') fx_commit (snd (snd fx_run))) \<noteq> None"
  by code_simp+

theorem fleet_exact_cover_witness:
  "mset (map CanonicalID (concat (map (\<lambda>k. as_Partitions (fx_built k)) (cm_Workers fx_commit)) @ ParkedPartitions ex_input)) =
     mset_set (CanonicalID ` set (SourcePartitions ex_input))"
proof (rule fleet_exact_cover[OF ex_laws ex_ok])
  show "fx_run = (None, fst (snd fx_run), snd (snd fx_run))" using fx_publishes by (metis prod.collapse)
  show "lastCommit (fst (snd fx_run)) = Some fx_commit" using fx_publishes(2) by (auto simp: fx_commit_def)
  show "distinct (Workers ex_input)" "distinct (map fst (Assignments ex_input))" "fst ` set (Assignments ex_input) \<subseteq> set (Workers ex_input)"
    by (simp_all add: ex_input_def)
  show "mset (sort_by canonical_cmp xs) = mset xs" for xs by (induction xs) (simp_all add: sort_by_def)
  show "wc_workerID (fx_wcfg k) = k" "wc_hash (fx_wcfg k) = fx_hash" for k by (simp_all add: fx_wcfg_def ex_wcfg_def)
  have e: "Workers ex_input = [''w2'', ''w1'']" by (simp add: ex_input_def)
  show "v = VPayload (build_payload (sort_by canonical_cmp) (Assignments ex_input) (WorkerLabels ex_input) k)"
    if "k \<in> set (Workers ex_input)" "fx_hash v = fx_hash (VPayload (build_payload (sort_by canonical_cmp) (Assignments ex_input) (WorkerLabels ex_input) k))"
    for v k using that unfolding e fx_hash_def by (auto split: if_splits)
  show "buildAssignmentFromCommit (fx_wcfg k) fx_commit (snd (snd fx_run)) =
      (Some (fx_built k), snd (buildAssignmentFromCommit (fx_wcfg k) fx_commit (snd (snd fx_run))))"
    if "k \<in> set (Workers ex_input)" for k
    using that fx_builds unfolding e fx_built_def by (auto simp: prod_eq_iff)
qed


lemma fx_fresh: "fresh_commit fx_commit (worker0 ex_manager)"
  unfolding fresh_commit_def by code_simp


end
